(* ===== verification/Prelude.thy ===== *)
theory Prelude
  imports
    Main
    "HOL-Library.AList"
    "HOL-Library.Char_ord"
    "HOL-Library.List_Lexorder"
    "HOL-Library.Multiset"
begin

text \<open>
  What every component of the development shares: the collections its proofs draw on, Go
  maps as association lists, the unspecified iteration order of \<open>for range\<close> over a Go map,
  sorted keys, and a few facts on lists and folds that the component proofs use again and
  again.  Strings are \<^typ>\<open>string\<close>; \<open>List_Lexorder\<close> with \<open>Char_ord\<close> gives them Go's
  byte-wise order.
\<close>

section \<open>Go maps\<close>

text \<open>
  A Go map that the code ranges over is an association list with distinct keys: lookup is
  \<^const>\<open>map_of\<close>, assignment is \<^const>\<open>AList.update\<close>, \<open>delete\<close> is \<^const>\<open>AList.delete\<close>.
  A Go map that is only looked up and merged (labels, annotations, selectors) is a HOL map.
\<close>

abbreviation put :: "'k \<Rightarrow> 'v \<Rightarrow> ('k \<times> 'v) list \<Rightarrow> ('k \<times> 'v) list" where
  "put \<equiv> AList.update"

abbreviation del :: "'k \<Rightarrow> ('k \<times> 'v) list \<Rightarrow> ('k \<times> 'v) list" where
  "del \<equiv> AList.delete"

abbreviation keys :: "('k \<times> 'v) list \<Rightarrow> 'k set" where
  "keys m \<equiv> fst ` set m"

text \<open>A Go map used as a set (\<open>map[K]bool\<close>) is a list in which a key is added at most once.\<close>

definition add_key :: "'k \<Rightarrow> 'k list \<Rightarrow> 'k list" where
  "add_key k ks = (if k \<in> set ks then ks else ks @ [k])"

lemma set_add_key [simp]: "set (add_key k ks) = insert k (set ks)"
  by (auto simp: add_key_def)

lemma distinct_add_key [simp]: "distinct ks \<Longrightarrow> distinct (add_key k ks)"
  by (simp add: add_key_def)

lemma map_of_put [simp]: "map_of (put k v m) = (map_of m)(k \<mapsto> v)"
  by (simp add: update_conv')

lemma map_of_del [simp]: "map_of (del k m) = (map_of m)(k := None)"
  by (simp add: delete_conv')

lemma keys_put [simp]: "keys (put k v m) = insert k (keys m)"
  by (simp add: dom_update)

lemma keys_del [simp]: "keys (del k m) = keys m - {k}"
  by (metis delete_keys list.set_map set_removeAll)

lemma distinct_keys_put [simp]: "distinct (map fst m) \<Longrightarrow> distinct (map fst (put k v m))"
  by (rule distinct_update)

lemma distinct_keys_del [simp]: "distinct (map fst m) \<Longrightarrow> distinct (map fst (del k m))"
  by (rule distinct_delete)

lemma map_of_None_keys: "map_of m k = None \<longleftrightarrow> k \<notin> keys m"
  by (simp add: map_of_eq_None_iff)

lemma map_of_Some_keys: "map_of m k = Some v \<Longrightarrow> k \<in> keys m"
  by (force dest: map_of_SomeD)

lemma put_values: "snd ` set (put k v m) \<subseteq> insert v (snd ` set m)"
  by (induction m) auto

lemma del_values: "set (del k m) \<subseteq> set m"
  by (induction m) auto

text \<open>\<open>sortedKeys\<close> of pass.go: the keys of a map, sorted.\<close>

definition sortedKeys :: "(string \<times> 'v) list \<Rightarrow> string list" where
  "sortedKeys m = sort (map fst m)"

lemma set_sortedKeys [simp]: "set (sortedKeys m) = keys m"
  by (simp add: sortedKeys_def)

lemma distinct_sortedKeys [simp]: "distinct (sortedKeys m) = distinct (map fst m)"
  by (simp add: sortedKeys_def)

lemma sorted_sortedKeys [simp]: "sorted (sortedKeys m)"
  by (simp add: sortedKeys_def)

section \<open>Iteration over a Go map\<close>

text \<open>
  The order in which \<open>for k, v := range m\<close> visits a map is unspecified and differs between
  runs.  \<open>go_range pick xs\<close> visits the entries \<open>xs\<close> in the order that \<open>pick\<close> chooses: with
  \<open>n + 1\<close> entries left it takes the one at index \<open>pick n\<close> (modulo the number left).  Every
  order is the choice of some \<open>pick\<close> (\<open>go_range_every_order\<close>), so a theorem that holds for
  all \<open>pick\<close> holds for every iteration order.
\<close>

function go_range :: "(nat \<Rightarrow> nat) \<Rightarrow> 'a list \<Rightarrow> 'a list" where
  "go_range pick [] = []"
| "go_range pick (x # xs) =
     (let i = pick (length xs) mod Suc (length xs)
      in (x # xs) ! i # go_range pick (take i (x # xs) @ drop (Suc i) (x # xs)))"
  by pat_completeness auto
termination
proof (relation "measure (\<lambda>(pick, xs). length xs)", goal_cases)
  case (2 pick x xs i)
  then have "i < Suc (length xs)" by simp
  then show ?case by (auto simp: min_def)
qed simp

lemma mset_remove_nth:
  "i < length xs \<Longrightarrow> add_mset (xs ! i) (mset (take i xs @ drop (Suc i) xs)) = mset xs"
  by (metis id_take_nth_drop mset.simps(2) mset_append union_mset_add_mset_right)

lemma mset_go_range [simp]: "mset (go_range pick xs) = mset xs"
proof (induction pick xs rule: go_range.induct)
  case (2 pick x xs)
  define i where "i = pick (length xs) mod Suc (length xs)"
  have i: "i < length (x # xs)" by (simp add: i_def)
  have "mset (go_range pick (x # xs)) =
      add_mset ((x # xs) ! i) (mset (take i (x # xs) @ drop (Suc i) (x # xs)))"
    using 2 [OF i_def] unfolding go_range.simps Let_def i_def [symmetric]
    by (simp del: take_Suc_Cons drop_Suc_Cons)
  then show ?case using mset_remove_nth [OF i] by metis
qed simp

lemma set_go_range [simp]: "set (go_range pick xs) = set xs"
  by (metis mset_go_range set_mset_mset)

lemma length_go_range [simp]: "length (go_range pick xs) = length xs"
  by (metis mset_go_range size_mset)

lemma distinct_go_range [simp]: "distinct (go_range pick xs) = distinct xs"
  by (metis mset_go_range mset_eq_imp_distinct_iff)

lemma go_range_cong:
  "(\<And>n. n < length xs \<Longrightarrow> f n = g n) \<Longrightarrow> go_range f xs = go_range g xs"
proof (induction f xs rule: go_range.induct)
  case (2 f x xs)
  define i where "i = f (length xs) mod Suc (length xs)"
  have i: "i < Suc (length xs)" by (simp add: i_def)
  have g: "g (length xs) mod Suc (length xs) = i"
    using 2(2) [of "length xs"] by (simp add: i_def)
  have "go_range f (take i (x # xs) @ drop (Suc i) (x # xs)) =
      go_range g (take i (x # xs) @ drop (Suc i) (x # xs))"
    using i by (intro 2(1) [OF i_def]) (auto intro: 2(2))
  then show ?case
    unfolding go_range.simps Let_def g i_def [symmetric] by simp
qed simp

lemma go_range_every_order: "mset ys = mset xs \<Longrightarrow> \<exists>pick. go_range pick xs = ys"
proof (induction ys arbitrary: xs)
  case (Cons y ys)
  then have "y \<in> set xs" by (metis list.set_intros(1) set_mset_mset)
  then obtain i where i: "i < length xs" "xs ! i = y" by (auto simp: in_set_conv_nth)
  let ?rest = "take i xs @ drop (Suc i) xs"
  have "add_mset y (mset ?rest) = add_mset y (mset ys)"
    using mset_remove_nth [OF i(1)] i(2) Cons.prems by simp
  then obtain pick where pick: "go_range pick ?rest = ys"
    using Cons.IH [of ?rest] by auto
  obtain z zs where xs: "xs = z # zs" using i(1) by (cases xs) auto
  let ?p = "pick(length zs := i)"
  have len: "length ?rest = length zs" using i(1) xs by simp
  have "go_range ?p ?rest = go_range pick ?rest"
    by (rule go_range_cong) (use len in auto)
  moreover have "?p (length zs) mod Suc (length zs) = i" using i(1) xs by simp
  ultimately have "go_range ?p xs = y # ys"
    using i(2) pick unfolding xs go_range.simps Let_def by (simp only: xs)
  then show ?case by blast
qed simp

section \<open>Lists and folds\<close>

lemma fold_invariant_set:
  assumes "P s" and "\<And>x s. x \<in> set xs \<Longrightarrow> P s \<Longrightarrow> P (f x s)"
  shows "P (fold f xs s)"
  using assms by (induction xs arbitrary: s) auto

lemma fold_frame:
  assumes "\<And>x s. g (f x s) = g s"
  shows "g (fold f xs s) = g s"
  by (induction xs arbitrary: s) (simp_all add: assms)

lemma find_in_set: "find P xs = Some x \<Longrightarrow> x \<in> set xs \<and> P x"
  by (induction xs) (auto split: if_splits)

lemma find_append: "find P (xs @ ys) = (case find P xs of None \<Rightarrow> find P ys | Some x \<Rightarrow> Some x)"
  by (induction xs) simp_all

lemma find_rev_None: "find P (rev xs) = None \<longleftrightarrow> (\<forall>x \<in> set xs. \<not> P x)"
  by (auto simp: find_None_iff)

lemma map_add_absorb [simp]: "m ++ w ++ w = m ++ w"
  by (simp add: map_add_def fun_eq_iff split: option.split)

end
