(* ===== verification/GoStrings.thy ===== *)
theory GoStrings
  imports Prelude
begin

text \<open>
  The functions of Go's \<open>strings\<close>, \<open>strconv\<close> and \<open>fmt\<close> packages that the syncer calls.
  A Go string is the list of its bytes.  Case mapping and white space are the ASCII ones:
  the strings the syncer inspects are Kubernetes names, host names, label values and
  address families, which are ASCII; on other bytes the functions are the identity.
\<close>

section \<open>Characters\<close>

definition is_space :: "char \<Rightarrow> bool" where
  "is_space c = (let n = of_char c :: int in n = 32 \<or> (9 \<le> n \<and> n \<le> 13))"

definition is_lower :: "char \<Rightarrow> bool" where
  "is_lower c = (let n = of_char c :: int in 97 \<le> n \<and> n \<le> 122)"

definition is_upper :: "char \<Rightarrow> bool" where
  "is_upper c = (let n = of_char c :: int in 65 \<le> n \<and> n \<le> 90)"

definition is_digit :: "char \<Rightarrow> bool" where
  "is_digit c = (let n = of_char c :: int in 48 \<le> n \<and> n \<le> 57)"

definition lower_char :: "char \<Rightarrow> char" where
  "lower_char c = (if is_upper c then char_of (of_char c + 32 :: int) else c)"

lemma of_char_lower_char: "is_upper c \<Longrightarrow> (of_char (lower_char c) :: int) = of_char c + 32"
  by (simp add: lower_char_def is_upper_def Let_def take_bit_eq_mod)

lemma not_upper_lower_char: "\<not> is_upper (lower_char c)"
proof (cases "is_upper c")
  case True
  then show ?thesis
    using of_char_lower_char [OF True] by (simp add: is_upper_def Let_def)
qed (simp add: lower_char_def)

lemma lower_char_idem [simp]: "lower_char (lower_char c) = lower_char c"
  using not_upper_lower_char by (metis lower_char_def)

lemma lower_char_eq_iff:
  assumes "\<not> is_upper d" and "\<not> is_lower d"
  shows "lower_char c = d \<longleftrightarrow> c = d"
proof (cases "is_upper c")
  case True
  then have "is_lower (lower_char c)"
    using of_char_lower_char [OF True] by (simp add: is_upper_def is_lower_def Let_def)
  with True assms show ?thesis by auto
qed (simp add: lower_char_def)

section \<open>Package strings\<close>

definition to_lower :: "string \<Rightarrow> string" where
  "to_lower s = map lower_char s"

definition trim_left :: "(char \<Rightarrow> bool) \<Rightarrow> string \<Rightarrow> string" where
  "trim_left P s = dropWhile P s"

definition trim_right :: "(char \<Rightarrow> bool) \<Rightarrow> string \<Rightarrow> string" where
  "trim_right P s = rev (dropWhile P (rev s))"

text \<open>\<open>strings.TrimSpace\<close> and \<open>strings.Trim\<close> with a one-character cut set.\<close>

definition trim_space :: "string \<Rightarrow> string" where
  "trim_space s = trim_right is_space (trim_left is_space s)"

definition trim_char :: "char \<Rightarrow> string \<Rightarrow> string" where
  "trim_char c s = trim_right (\<lambda>d. d = c) (trim_left (\<lambda>d. d = c) s)"

definition trim_suffix :: "string \<Rightarrow> string \<Rightarrow> string" where
  "trim_suffix s suf =
     (if suf \<noteq> [] \<and> length suf \<le> length s \<and> drop (length s - length suf) s = suf
      then take (length s - length suf) s else s)"

fun cut_prefix :: "string \<Rightarrow> string \<Rightarrow> string option" where
  "cut_prefix s [] = Some s"
| "cut_prefix [] (p # ps) = None"
| "cut_prefix (c # s) (p # ps) = (if c = p then cut_prefix s ps else None)"

fun index_byte :: "string \<Rightarrow> char \<Rightarrow> nat option" where
  "index_byte [] c = None"
| "index_byte (d # s) c = (if d = c then Some 0 else map_option Suc (index_byte s c))"

fun has_prefix :: "string \<Rightarrow> string \<Rightarrow> bool" where
  "has_prefix s [] = True"
| "has_prefix [] (p # ps) = False"
| "has_prefix (c # s) (p # ps) = (c = p \<and> has_prefix s ps)"

text \<open>\<open>strings.Contains\<close>.\<close>

fun contains :: "string \<Rightarrow> string \<Rightarrow> bool" where
  "contains [] sub = (sub = [])"
| "contains (c # s) sub = (has_prefix (c # s) sub \<or> contains s sub)"

text \<open>\<open>strings.Split\<close> with a one-byte separator and \<open>strings.Join\<close>.\<close>

fun split_on :: "char \<Rightarrow> string \<Rightarrow> string list" where
  "split_on c [] = [[]]"
| "split_on c (d # s) =
     (if d = c then [] # split_on c s
      else (case split_on c s of [] \<Rightarrow> [[d]] | w # ws \<Rightarrow> (d # w) # ws))"

fun join :: "string list \<Rightarrow> string \<Rightarrow> string" where
  "join [] sep = []"
| "join [w] sep = w"
| "join (w # ws) sep = w @ sep @ join ws sep"

section \<open>Formatting\<close>

text \<open>\<open>strconv.Itoa\<close>, and the verb \<open>%d\<close>.\<close>

definition digit_char :: "nat \<Rightarrow> char" where
  "digit_char d = char_of (48 + int d)"

fun show_nat :: "nat \<Rightarrow> string" where
  "show_nat n = (if n < 10 then [digit_char n] else show_nat (n div 10) @ [digit_char (n mod 10)])"

declare show_nat.simps [simp del]

definition show_int :: "int \<Rightarrow> string" where
  "show_int i = (if i < 0 then CHR ''-'' # show_nat (nat (- i)) else show_nat (nat i))"

text \<open>The verb \<open>%x\<close> on a natural number, and on the bytes of a digest.\<close>

definition hex_digit :: "nat \<Rightarrow> char" where
  "hex_digit d = (if d < 10 then char_of (48 + int d) else char_of (87 + int d))"

fun show_hex :: "nat \<Rightarrow> string" where
  "show_hex n = (if n < 16 then [hex_digit n] else show_hex (n div 16) @ [hex_digit (n mod 16)])"

declare show_hex.simps [simp del]

text \<open>
  The verb \<open>%q\<close> (\<open>strconv.Quote\<close>): a double-quoted string with the quote, the backslash and
  the control characters escaped.  Bytes from 128 are taken as parts of printable characters.
\<close>

definition quote_char :: "char \<Rightarrow> string" where
  "quote_char c =
     (let n = of_char c :: int in
      if n = 34 then [CHR 0x5C, CHR 0x22]
      else if n = 92 then [CHR 0x5C, CHR 0x5C]
      else if n = 7 then [CHR 0x5C, CHR ''a'']
      else if n = 8 then [CHR 0x5C, CHR ''b'']
      else if n = 9 then [CHR 0x5C, CHR ''t'']
      else if n = 10 then [CHR 0x5C, CHR ''n'']
      else if n = 11 then [CHR 0x5C, CHR ''v'']
      else if n = 12 then [CHR 0x5C, CHR ''f'']
      else if n = 13 then [CHR 0x5C, CHR ''r'']
      else if n < 32 \<or> n = 127 then [CHR 0x5C, CHR ''x'', hex_digit (nat (n div 16)), hex_digit (nat (n mod 16))]
      else [c])"

definition quote :: "string \<Rightarrow> string" where
  "quote s = CHR 0x22 # concat (map quote_char s) @ [CHR 0x22]"

text \<open>The verb \<open>%v\<close> on a list of strings.\<close>

definition show_list :: "string list \<Rightarrow> string" where
  "show_list ws = CHR ''['' # join ws '' '' @ '']''"

section \<open>Facts\<close>

lemma cut_prefix_Some: "cut_prefix s p = Some r \<longleftrightarrow> s = p @ r"
  by (induction s p rule: cut_prefix.induct) auto

lemma index_byte_None: "index_byte s c = None \<longleftrightarrow> c \<notin> set s"
  by (induction s) auto

lemma index_byte_Some:
  "index_byte s c = Some i \<longleftrightarrow> i < length s \<and> s ! i = c \<and> c \<notin> set (take i s)"
  by (induction s arbitrary: i) (auto simp: nth_Cons less_Suc_eq_0_disj split: nat.splits)

lemma index_byte_split:
  "index_byte s c = Some i \<longleftrightarrow> (\<exists>r. s = take i s @ c # r \<and> length (take i s) = i \<and> c \<notin> set (take i s))"
proof
  assume "index_byte s c = Some i"
  then have "i < length s" "s ! i = c" "c \<notin> set (take i s)" by (simp_all add: index_byte_Some)
  then show "\<exists>r. s = take i s @ c # r \<and> length (take i s) = i \<and> c \<notin> set (take i s)"
    using id_take_nth_drop by fastforce
next
  assume "\<exists>r. s = take i s @ c # r \<and> length (take i s) = i \<and> c \<notin> set (take i s)"
  then obtain r where r: "s = take i s @ c # r" "length (take i s) = i" "c \<notin> set (take i s)" by blast
  then have "i < length s" by (metis add_Suc_right length_Cons length_append less_add_Suc1)
  moreover have "s ! i = c" using r by (metis nth_append_length)
  ultimately show "index_byte s c = Some i" using r(3) by (simp add: index_byte_Some)
qed

lemma has_prefix_append: "has_prefix s p \<longleftrightarrow> (\<exists>r. s = p @ r)"
  by (induction s p rule: has_prefix.induct) auto

lemma contains_iff: "contains s sub \<longleftrightarrow> (\<exists>a b. s = a @ sub @ b)"
proof (induction s)
  case Nil
  then show ?case by auto
next
  case (Cons c s)
  have "(\<exists>a b. c # s = a @ sub @ b) \<longleftrightarrow> (\<exists>b. c # s = sub @ b) \<or> (\<exists>a b. s = a @ sub @ b)"
    by (metis append_Cons append_Nil list.sel(3) tl_append2 neq_Nil_conv)
  with Cons show ?case by (simp add: has_prefix_append)
qed

lemma split_on_not_Nil [simp]: "split_on c s \<noteq> []"
  by (induction s) (auto split: list.splits)

lemma split_on_cons_other:
  "d \<noteq> c \<Longrightarrow> split_on c (d # s) = (d # hd (split_on c s)) # tl (split_on c s)"
  by (auto split: list.splits)

lemma join_Cons: "ws \<noteq> [] \<Longrightarrow> join (w # ws) sep = w @ sep @ join ws sep"
  by (cases ws) auto

lemma join_split_on [simp]: "join (split_on c s) [c] = s"
proof (induction s)
  case (Cons d s)
  show ?case
  proof (cases "d = c")
    case True
    then show ?thesis using Cons by (simp add: join_Cons)
  next
    case False
    obtain w ws where w: "split_on c s = w # ws" by (meson neq_Nil_conv split_on_not_Nil)
    have "join ((d # w) # ws) [c] = d # join (w # ws) [c]" by (cases ws) auto
    with False Cons w show ?thesis by simp
  qed
qed simp

lemma split_on_no_sep: "w \<in> set (split_on c s) \<Longrightarrow> c \<notin> set w"
  by (induction s arbitrary: w) (auto split: if_splits list.splits)

lemma split_on_id: "c \<notin> set s \<Longrightarrow> split_on c s = [s]"
  by (induction s) auto

lemma split_on_append: "c \<notin> set w \<Longrightarrow> split_on c (w @ c # s) = w # split_on c s"
  by (induction w) (auto split: list.splits)

lemma split_on_join:
  "ws \<noteq> [] \<Longrightarrow> (\<And>w. w \<in> set ws \<Longrightarrow> c \<notin> set w) \<Longrightarrow> split_on c (join ws [c]) = ws"
proof (induction ws)
  case (Cons w ws)
  show ?case
  proof (cases "ws = []")
    case True
    then show ?thesis using Cons.prems by (simp add: split_on_id)
  next
    case False
    then show ?thesis using Cons by (simp add: join_Cons split_on_append)
  qed
qed simp

lemma length_split_on: "length (split_on c s) = Suc (count_list s c)"
  by (induction s) (auto split: list.splits)

lemma trim_left_id: "s = [] \<or> \<not> P (hd s) \<Longrightarrow> trim_left P s = s"
  by (cases s) (auto simp: trim_left_def)

lemma trim_right_id: "s = [] \<or> \<not> P (last s) \<Longrightarrow> trim_right P s = s"
  by (cases s rule: rev_cases) (auto simp: trim_right_def)

lemma set_trim_right: "set (trim_right P s) \<subseteq> set s"
  using set_dropWhileD by (fastforce simp: trim_right_def)

lemma set_trim_left: "set (trim_left P s) \<subseteq> set s"
  using set_dropWhileD by (fastforce simp: trim_left_def)

lemma length_trim_right: "length (trim_right P s) \<le> length s"
  by (metis length_dropWhile_le length_rev trim_right_def)

lemma length_trim_left: "length (trim_left P s) \<le> length s"
  by (simp add: trim_left_def length_dropWhile_le)

lemma hd_dropWhile_not: "dropWhile P s \<noteq> [] \<Longrightarrow> \<not> P (hd (dropWhile P s))"
  by (rule hd_dropWhile)

lemma trim_right_prefix: "\<exists>r. s = trim_right P s @ r"
proof
  show "s = trim_right P s @ rev (takeWhile P (rev s))"
    by (metis rev_append rev_rev_ident takeWhile_dropWhile_id trim_right_def)
qed

lemma hd_trim_right: "trim_right P s \<noteq> [] \<Longrightarrow> hd (trim_right P s) = hd s"
  using trim_right_prefix [of s P] by (metis hd_append2)

lemma last_trim_right: "trim_right P s \<noteq> [] \<Longrightarrow> \<not> P (last (trim_right P s))"
  by (simp add: trim_right_def last_rev hd_dropWhile)

lemma trim_char_ends:
  assumes "trim_char c s \<noteq> []"
  shows "hd (trim_char c s) \<noteq> c \<and> last (trim_char c s) \<noteq> c"
proof -
  let ?l = "trim_left (\<lambda>d. d = c) s"
  have l: "?l \<noteq> []" using assms by (auto simp: trim_char_def trim_right_def)
  then have "hd ?l \<noteq> c" unfolding trim_left_def by (metis (mono_tags) hd_dropWhile)
  then show ?thesis
    using assms last_trim_right [of "\<lambda>d. d = c" ?l] hd_trim_right [of "\<lambda>d. d = c" ?l]
    by (auto simp: trim_char_def)
qed

lemma length_to_lower [simp]: "length (to_lower s) = length s"
  by (simp add: to_lower_def)

lemma to_lower_idem [simp]: "to_lower (to_lower s) = to_lower s"
  by (simp add: to_lower_def)

lemma show_nat_not_Nil [simp]: "show_nat n \<noteq> []"
  by (subst show_nat.simps) simp

section \<open>Printed numbers can be read back\<close>

lemma of_char_digit_char: "d < 10 \<Longrightarrow> (of_char (digit_char d) :: int) = 48 + int d"
proof -
  assume "d < 10"
  then have "(48 + int d) mod 256 = 48 + int d" by (intro mod_pos_pos_trivial) simp_all
  moreover have "(of_char (digit_char d) :: int) = (48 + int d) mod 256"
    unfolding digit_char_def by (simp add: take_bit_eq_mod)
  ultimately show ?thesis by simp
qed

lemma digit_char_inj: "a < 10 \<Longrightarrow> b < 10 \<Longrightarrow> digit_char a = digit_char b \<Longrightarrow> a = b"
proof -
  assume "a < 10" "b < 10" "digit_char a = digit_char b"
  then have "48 + int a = 48 + int b" by (metis of_char_digit_char)
  then show "a = b" by simp
qed

lemma show_nat_digits: "set (show_nat n) \<subseteq> {c. is_digit c}"
proof (induction n rule: show_nat.induct)
  case (1 n)
  have "is_digit (digit_char d)" if "d < 10" for d
    using of_char_digit_char [OF that] that by (simp add: is_digit_def Let_def)
  then show ?case using 1 by (subst show_nat.simps) auto
qed

lemma show_nat_inj: "show_nat m = show_nat n \<Longrightarrow> m = n"
proof (induction m arbitrary: n rule: show_nat.induct)
  case (1 m)
  have e: "(if m < 10 then [digit_char m] else show_nat (m div 10) @ [digit_char (m mod 10)]) =
      (if n < 10 then [digit_char n] else show_nat (n div 10) @ [digit_char (n mod 10)])"
    using 1(2) show_nat.simps by metis
  show ?case
  proof (cases "m < 10 \<or> n < 10")
    case True
    then show ?thesis
      using e digit_char_inj show_nat_not_Nil [symmetric] by (auto split: if_splits)
  next
    case False
    then have "show_nat (m div 10) = show_nat (n div 10)" "digit_char (m mod 10) = digit_char (n mod 10)"
      using e by auto
    then have "m div 10 = n div 10" "m mod 10 = n mod 10" using 1(1) False digit_char_inj by auto
    then show ?thesis by (metis div_mult_mod_eq)
  qed
qed

lemma show_int_chars: "c \<in> set (show_int i) \<Longrightarrow> is_digit c \<or> c = CHR ''-''"
  using show_nat_digits by (auto simp: show_int_def split: if_splits)

lemma show_int_inj: "show_int i = show_int j \<Longrightarrow> i = j"
proof -
  have d: "\<not> is_digit CHR ''-''" by (simp add: is_digit_def)
  have n: "CHR ''-'' # show_nat a \<noteq> show_nat b" for a b
    using show_nat_digits [of b] d by (metis list.set_intros(1) mem_Collect_eq subsetD)
  show "show_int i = show_int j \<Longrightarrow> i = j"
    using n n [symmetric] by (auto simp: show_int_def dest: show_nat_inj split: if_splits)
qed

text \<open>Two texts joined by a separator that the second does not hold can be told apart.\<close>

lemma sep_inj:
  assumes "a @ c # b = a' @ c # b'" and "c \<notin> set b" and "c \<notin> set b'"
  shows "a = a' \<and> b = b'"
proof -
  have "takeWhile (\<lambda>x. x \<noteq> c) (rev (a @ c # b)) = rev b" "takeWhile (\<lambda>x. x \<noteq> c) (rev (a' @ c # b')) = rev b'"
    using assms(2,3) by (auto simp: takeWhile_append1 takeWhile_tail)
  with assms(1) show ?thesis by auto
qed

end
