(* ===== verification/Objects.thy ===== *)
theory Objects
  imports GoStrings
begin

text \<open>
  The data of the program.  \<open>TenantCluster\<close> and its parts are the types of
  api/v1alpha1/tenantcluster_types.go.  The Kubernetes objects hold the fields the syncer reads
  or writes; what it only carries along unread is one field of type \<open>opaque\<close> (a
  \<open>..._rest\<close> field), so that copying it, dropping it or replacing it is visible in the model.
  Go pointers to scalars are options, maps are HOL maps, slices are lists, string-typed
  enumerations stay strings (the API server's own type for them).
\<close>

type_synonym opaque = string
type_synonym strmap = "string \<rightharpoonup> string"
type_synonym ip_family = string
type_synonym instant = int

section \<open>Metadata and conditions\<close>

record obj_meta =
  om_name :: string
  om_namespace :: string
  om_uid :: string
  om_labels :: strmap
  om_annotations :: strmap
  om_finalizers :: "string list"
  om_deleting :: bool
  om_created :: instant
  om_generation :: int
  om_rest :: opaque

definition no_meta :: obj_meta where
  "no_meta = \<lparr>om_name = [], om_namespace = [], om_uid = [], om_labels = Map.empty,
     om_annotations = Map.empty, om_finalizers = [], om_deleting = False, om_created = 0,
     om_generation = 0, om_rest = []\<rparr>"

record condition =
  cond_type :: string
  cond_status :: string
  cond_reason :: string
  cond_message :: string
  cond_generation :: int

text \<open>A Go map used as \<open>map[string]string\<close>: \<open>m[k]\<close> is the empty string for a missing key.\<close>

definition at :: "strmap \<Rightarrow> string \<Rightarrow> string" where
  "at m k = (case m k of None \<Rightarrow> [] | Some v \<Rightarrow> v)"

lemma at_simps [simp]: "at (m(k \<mapsto> v)) k = v" "k' \<noteq> k \<Longrightarrow> at (m(k \<mapsto> v)) k' = at m k'"
  by (simp_all add: at_def)

section \<open>The TenantCluster registration\<close>

record secret_key_ref =
  skr_name :: string
  skr_key :: string

record sync_config =
  sync_services :: "bool option"
  sync_ingresses :: "bool option"
  sync_gateways :: "bool option"
  sync_storage :: "bool option"
  sync_lb_class :: string

record tenant_spec =
  kubeconfigSecretRef :: secret_key_ref
  hostNamespace :: string
  nodeSelector :: strmap
  allowedDomains :: "string list"
  ingressClassName :: string
  gatewayClassName :: string
  limit_loadBalancers :: "int option"
  sync :: sync_config

record resource_counts =
  n_services :: nat
  n_ingresses :: nat
  n_gateways :: nat
  n_httpRoutes :: nat
  n_loadBalancers :: nat
  n_pvcs :: nat

record tenant_status =
  ts_connected :: bool
  ts_lastSyncTime :: "instant option"
  ts_observed :: resource_counts
  ts_usage :: nat
  ts_families :: "string list"
  ts_conditions :: "condition list"

record tenant_cluster =
  tc_meta :: obj_meta
  tc_spec :: tenant_spec
  tc_status :: tenant_status

abbreviation tc_name :: "tenant_cluster \<Rightarrow> string" where
  "tc_name tc \<equiv> om_name (tc_meta tc)"

abbreviation tc_namespace :: "tenant_cluster \<Rightarrow> string" where
  "tc_namespace tc \<equiv> om_namespace (tc_meta tc)"

abbreviation host_ns :: "tenant_cluster \<Rightarrow> string" where
  "host_ns tc \<equiv> hostNamespace (tc_spec tc)"

abbreviation domains :: "tenant_cluster \<Rightarrow> string list" where
  "domains tc \<equiv> allowedDomains (tc_spec tc)"

text \<open>The tri-state switches: a nil pointer means enabled.\<close>

definition tri_state :: "bool option \<Rightarrow> bool" where
  "tri_state b = (case b of None \<Rightarrow> True | Some v \<Rightarrow> v)"

definition SyncServices :: "tenant_cluster \<Rightarrow> bool" where
  "SyncServices tc = tri_state (sync_services (sync (tc_spec tc)))"

definition SyncIngresses :: "tenant_cluster \<Rightarrow> bool" where
  "SyncIngresses tc = tri_state (sync_ingresses (sync (tc_spec tc)))"

definition SyncGateways :: "tenant_cluster \<Rightarrow> bool" where
  "SyncGateways tc = tri_state (sync_gateways (sync (tc_spec tc)))"

definition SyncStorage :: "tenant_cluster \<Rightarrow> bool" where
  "SyncStorage tc = tri_state (sync_storage (sync (tc_spec tc)))"

text \<open>\<open>LoadBalancerLimit\<close>: the pair of the limit and whether one is set.\<close>

definition LoadBalancerLimit :: "tenant_cluster \<Rightarrow> int \<times> bool" where
  "LoadBalancerLimit tc =
     (case limit_loadBalancers (tc_spec tc) of None \<Rightarrow> (0, False) | Some n \<Rightarrow> (n, True))"

definition no_counts :: resource_counts where
  "no_counts = \<lparr>n_services = 0, n_ingresses = 0, n_gateways = 0, n_httpRoutes = 0,
     n_loadBalancers = 0, n_pvcs = 0\<rparr>"

section \<open>Core objects\<close>

datatype int_or_string = IntVal int | StrVal string

record service_port =
  sp_name :: string
  sp_protocol :: string
  sp_port :: int
  sp_targetPort :: int_or_string
  sp_nodePort :: int

record lb_ingress =
  lbi_ip :: string
  lbi_hostname :: string
  lbi_rest :: opaque

record service =
  svc_meta :: obj_meta
  svc_type :: string
  svc_selector :: strmap
  svc_ports :: "service_port list"
  svc_ipFamilies :: "ip_family list"
  svc_ipFamilyPolicy :: "string option"
  svc_lbClass :: "string option"
  svc_rest :: opaque
  svc_lbIngress :: "lb_ingress list"
  svc_conditions :: "condition list"

record ingress_backend =
  ib_name :: string
  ib_port :: opaque

record http_path =
  hp_path :: string
  hp_pathType :: opaque
  hp_service :: "ingress_backend option"
  hp_resource :: "opaque option"

record ingress_rule =
  ir_host :: string
  ir_http :: "http_path list option"

record ingress_tls =
  it_hosts :: "string list"
  it_secretName :: string

record ingress_spec =
  ins_class :: "string option"
  ins_defaultBackend :: "opaque option"
  ins_rules :: "ingress_rule list"
  ins_tls :: "ingress_tls list"

record ingress =
  ing_meta :: obj_meta
  ing_spec :: ingress_spec
  ing_lbStatus :: "lb_ingress list"

section \<open>Gateway API objects\<close>

record listener_tls =
  lt_certificateRefs :: "string list"
  lt_rest :: opaque

record listener =
  l_name :: string
  l_hostname :: "string option"
  l_tls :: "listener_tls option"
  l_rest :: opaque

record gateway_spec =
  gs_className :: string
  gs_listeners :: "listener list"
  gs_addresses :: "string list"
  gs_rest :: opaque

record gateway =
  gw_meta :: obj_meta
  gw_spec :: gateway_spec
  gw_addresses :: "string list"

record parent_ref =
  pr_kind :: "string option"
  pr_namespace :: "string option"
  pr_name :: string
  pr_rest :: opaque

record object_ref =
  or_group :: "string option"
  or_kind :: "string option"
  or_namespace :: "string option"
  or_name :: string
  or_rest :: opaque

record http_filter =
  hf_type :: string
  hf_extensionRef :: "string option"
  hf_requestMirror :: "object_ref option"
  hf_externalAuth :: "object_ref option"
  hf_rest :: opaque

record backend_ref =
  br_ref :: object_ref
  br_filters :: "http_filter list"
  br_weight :: opaque

record route_rule =
  rr_filters :: "http_filter list"
  rr_backendRefs :: "backend_ref list"
  rr_rest :: opaque

record route_spec =
  rs_parentRefs :: "parent_ref list"
  rs_hostnames :: "string list"
  rs_rules :: "route_rule list"

record http_route =
  rt_meta :: obj_meta
  rt_spec :: route_spec

record gateway_class =
  gc_meta :: obj_meta
  gc_controllerName :: string
  gc_description :: "string option"
  gc_conditions :: "condition list"

section \<open>Storage objects\<close>

record pvc =
  pvc_meta :: obj_meta
  pvc_accessModes :: "string list"
  pvc_volumeMode :: "string option"
  pvc_storage :: "int option"
  pvc_class :: "string option"
  pvc_volumeName :: string
  pvc_rest :: opaque

record claim_ref =
  cr_kind :: string
  cr_namespace :: string
  cr_name :: string
  cr_uid :: string

record csi_source =
  csi_driver :: string
  csi_handle :: string
  csi_fsType :: string
  csi_attributes :: strmap

record pv =
  pv_meta :: obj_meta
  pv_accessModes :: "string list"
  pv_capacity :: "int option"
  pv_reclaim :: string
  pv_class :: string
  pv_claimRef :: "claim_ref option"
  pv_csi :: "csi_source option"
  pv_nodeAffinity :: "opaque option"

record storage_class =
  sc_meta :: obj_meta
  sc_provisioner :: string
  sc_bindingMode :: "string option"
  sc_reclaim :: "string option"
  sc_parameters :: "(string \<times> string) list"

record volume_attachment =
  va_meta :: obj_meta
  va_attacher :: string
  va_node :: string
  va_pvName :: "string option"
  va_attached :: bool
  va_metadata :: "(string \<times> string) list"
  va_error :: "string option"

section \<open>Other objects\<close>

record plain_object =
  po_meta :: obj_meta
  po_rest :: opaque

record service_account =
  sa_meta :: obj_meta
  sa_automount :: "bool option"

record volume_mount =
  vmt_name :: string
  vmt_path :: string
  vmt_propagation :: "string option"

record container =
  ct_name :: string
  ct_image :: string
  ct_args :: "string list"
  ct_fieldEnv :: "(string \<times> string) list"
  ct_privileged :: bool
  ct_mounts :: "volume_mount list"

record host_path_volume =
  hv_name :: string
  hv_path :: string
  hv_type :: string

record pod_spec =
  ps_serviceAccount :: string
  ps_automount :: "bool option"
  ps_priorityClass :: string
  ps_tolerateAll :: bool
  ps_containers :: "container list"
  ps_hostPathVolumes :: "host_path_volume list"
  ps_otherVolumes :: "opaque list"

record daemon_set =
  ds_meta :: obj_meta
  ds_selector :: strmap
  ds_podLabels :: strmap
  ds_pod :: pod_spec

record csi_driver =
  cd_meta :: obj_meta
  cd_attachRequired :: "bool option"
  cd_podInfoOnMount :: "bool option"
  cd_storageCapacity :: "bool option"
  cd_fsGroupPolicy :: "string option"
  cd_lifecycleModes :: "string list"

record kube_event =
  ev_namespace :: string
  ev_name :: string
  ev_kind :: string
  ev_objectName :: string
  ev_objectUid :: string
  ev_type :: string
  ev_reason :: string
  ev_message :: string

record secret =
  se_meta :: obj_meta
  se_resourceVersion :: string
  se_data :: strmap

record service_cidr =
  sd_cidrs :: "string list"

section \<open>Kinds and the sum of all objects\<close>

datatype kind =
    KService | KIngress | KGateway | KHTTPRoute | KPVC | KNamespace | KStorageClass | KPV
  | KVolumeAttachment | KGatewayClass | KServiceAccount | KCSIDriver | KDaemonSet | KEvent
  | KTenantCluster | KSecret | KServiceCIDR

datatype obj =
    OService service
  | OIngress ingress
  | OGateway gateway
  | OHTTPRoute http_route
  | OPVC pvc
  | ONamespace plain_object
  | OStorageClass storage_class
  | OPV pv
  | OVolumeAttachment volume_attachment
  | OGatewayClass gateway_class
  | OServiceAccount service_account
  | OCSIDriver csi_driver
  | ODaemonSet daemon_set
  | OEvent kube_event
  | OTenantCluster tenant_cluster
  | OSecret secret
  | OServiceCIDR service_cidr

fun kind_of :: "obj \<Rightarrow> kind" where
  "kind_of (OService _) = KService"
| "kind_of (OIngress _) = KIngress"
| "kind_of (OGateway _) = KGateway"
| "kind_of (OHTTPRoute _) = KHTTPRoute"
| "kind_of (OPVC _) = KPVC"
| "kind_of (ONamespace _) = KNamespace"
| "kind_of (OStorageClass _) = KStorageClass"
| "kind_of (OPV _) = KPV"
| "kind_of (OVolumeAttachment _) = KVolumeAttachment"
| "kind_of (OGatewayClass _) = KGatewayClass"
| "kind_of (OServiceAccount _) = KServiceAccount"
| "kind_of (OCSIDriver _) = KCSIDriver"
| "kind_of (ODaemonSet _) = KDaemonSet"
| "kind_of (OEvent _) = KEvent"
| "kind_of (OTenantCluster _) = KTenantCluster"
| "kind_of (OSecret _) = KSecret"
| "kind_of (OServiceCIDR _) = KServiceCIDR"

fun meta_of :: "obj \<Rightarrow> obj_meta" where
  "meta_of (OService x) = svc_meta x"
| "meta_of (OIngress x) = ing_meta x"
| "meta_of (OGateway x) = gw_meta x"
| "meta_of (OHTTPRoute x) = rt_meta x"
| "meta_of (OPVC x) = pvc_meta x"
| "meta_of (ONamespace x) = po_meta x"
| "meta_of (OStorageClass x) = sc_meta x"
| "meta_of (OPV x) = pv_meta x"
| "meta_of (OVolumeAttachment x) = va_meta x"
| "meta_of (OGatewayClass x) = gc_meta x"
| "meta_of (OServiceAccount x) = sa_meta x"
| "meta_of (OCSIDriver x) = cd_meta x"
| "meta_of (ODaemonSet x) = ds_meta x"
| "meta_of (OEvent e) = no_meta\<lparr>om_name := ev_name e, om_namespace := ev_namespace e\<rparr>"
| "meta_of (OTenantCluster x) = tc_meta x"
| "meta_of (OSecret x) = se_meta x"
| "meta_of (OServiceCIDR _) = no_meta"

text \<open>The Go type name of an object, the verb \<open>%T\<close>.\<close>

fun go_type :: "kind \<Rightarrow> string" where
  "go_type KService = ''*v1.Service''"
| "go_type KIngress = ''*v1.Ingress''"
| "go_type KGateway = ''*v1.Gateway''"
| "go_type KHTTPRoute = ''*v1.HTTPRoute''"
| "go_type KPVC = ''*v1.PersistentVolumeClaim''"
| "go_type _ = ''*v1.Object''"

text \<open>The \<open>Kind\<close> of a \<open>GroupVersionKind\<close>.\<close>

fun kind_name :: "kind \<Rightarrow> string" where
  "kind_name KService = ''Service''"
| "kind_name KIngress = ''Ingress''"
| "kind_name KGateway = ''Gateway''"
| "kind_name KHTTPRoute = ''HTTPRoute''"
| "kind_name KPVC = ''PersistentVolumeClaim''"
| "kind_name _ = ''''"

end
