(* ===== verification/Sha256.thy ===== *)
theory Sha256
  imports GoStrings "HOL-Library.Word"
begin

text \<open>
  SHA-256 (FIPS 180-4), the digest of Go's \<open>crypto/sha256\<close> from which the syncer derives
  bounded names, with \<open>encoding/hex\<close>.  The proofs of the other theories only use that the hex
  digest is a function of the text, has 64 characters, and that they are lower-case hex
  digits; the digest itself is defined so that nothing about it is assumed.
\<close>

unbundle bit_operations_syntax

type_synonym u32 = "32 word"

definition rotr :: "nat \<Rightarrow> u32 \<Rightarrow> u32" where
  "rotr n x = drop_bit n x OR push_bit (32 - n) x"

definition sha_k :: "u32 list" where
  "sha_k =
    [1116352408, 1899447441, 3049323471, 3921009573, 961987163, 1508970993, 2453635748, 2870763221,
     3624381080, 310598401, 607225278, 1426881987, 1925078388, 2162078206, 2614888103, 3248222580,
     3835390401, 4022224774, 264347078, 604807628, 770255983, 1249150122, 1555081692, 1996064986,
     2554220882, 2821834349, 2952996808, 3210313671, 3336571891, 3584528711, 113926993, 338241895,
     666307205, 773529912, 1294757372, 1396182291, 1695183700, 1986661051, 2177026350, 2456956037,
     2730485921, 2820302411, 3259730800, 3345764771, 3516065817, 3600352804, 4094571909, 275423344,
     430227734, 506948616, 659060556, 883997877, 958139571, 1322822218, 1537002063, 1747873779,
     1955562222, 2024104815, 2227730452, 2361852424, 2428436474, 2756734187, 3204031479, 3329325298]"

record digest_state =
  sha_a :: u32
  sha_b :: u32
  sha_c :: u32
  sha_d :: u32
  sha_e :: u32
  sha_f :: u32
  sha_g :: u32
  sha_h :: u32

definition sha_init :: digest_state where
  "sha_init = \<lparr>sha_a = 1779033703, sha_b = 3144134277, sha_c = 1013904242, sha_d = 2773480762,
     sha_e = 1359893119, sha_f = 2600822924, sha_g = 528734635, sha_h = 1541459225\<rparr>"

text \<open>Padding to a multiple of 64 bytes, and big-endian 32-bit words.\<close>

definition be_bytes :: "64 word \<Rightarrow> u32 list" where
  "be_bytes n = map (\<lambda>i. ucast (drop_bit (56 - 8 * i) n AND 255)) [0..<8]"

definition sha_pad :: "u32 list \<Rightarrow> u32 list" where
  "sha_pad bs =
     (let l = length bs; z = (119 - l mod 64) mod 64
      in bs @ [128] @ replicate z 0 @ be_bytes (8 * of_nat l))"

fun be_words :: "u32 list \<Rightarrow> u32 list" where
  "be_words (p # q # r # s # bs) =
     (push_bit 24 p OR push_bit 16 q OR push_bit 8 r OR s) # be_words bs"
| "be_words _ = []"

text \<open>The message schedule, newest word first.\<close>

fun sha_schedule :: "nat \<Rightarrow> u32 list \<Rightarrow> u32 list" where
  "sha_schedule 0 ws = ws"
| "sha_schedule (Suc n) ws =
     (let x = ws ! 14; y = ws ! 1;
          s0 = rotr 7 x XOR rotr 18 x XOR drop_bit 3 x;
          s1 = rotr 17 y XOR rotr 19 y XOR drop_bit 10 y
      in sha_schedule n ((ws ! 15 + s0 + ws ! 6 + s1) # ws))"

definition sha_round :: "u32 \<times> u32 \<Rightarrow> digest_state \<Rightarrow> digest_state" where
  "sha_round kw st =
     (let e = sha_e st; a = sha_a st;
          s1 = rotr 6 e XOR rotr 11 e XOR rotr 25 e;
          ch = (e AND sha_f st) XOR (NOT e AND sha_g st);
          t1 = sha_h st + s1 + ch + fst kw + snd kw;
          s0 = rotr 2 a XOR rotr 13 a XOR rotr 22 a;
          maj = (a AND sha_b st) XOR (a AND sha_c st) XOR (sha_b st AND sha_c st)
      in \<lparr>sha_a = t1 + (s0 + maj), sha_b = a, sha_c = sha_b st, sha_d = sha_c st,
          sha_e = sha_d st + t1, sha_f = e, sha_g = sha_f st, sha_h = sha_g st\<rparr>)"

definition sha_block :: "u32 list \<Rightarrow> digest_state \<Rightarrow> digest_state" where
  "sha_block ws st =
     (let r = fold sha_round (zip sha_k (rev (sha_schedule 48 (rev ws)))) st
      in \<lparr>sha_a = sha_a st + sha_a r, sha_b = sha_b st + sha_b r,
          sha_c = sha_c st + sha_c r, sha_d = sha_d st + sha_d r,
          sha_e = sha_e st + sha_e r, sha_f = sha_f st + sha_f r,
          sha_g = sha_g st + sha_g r, sha_h = sha_h st + sha_h r\<rparr>)"

function sha_blocks :: "u32 list \<Rightarrow> digest_state \<Rightarrow> digest_state" where
  "sha_blocks ws st = (if ws = [] then st else sha_blocks (drop 16 ws) (sha_block (take 16 ws) st))"
  by pat_completeness auto
termination by (relation "measure (\<lambda>(ws, st). length ws)") auto

declare sha_blocks.simps [simp del]

definition sha_words :: "digest_state \<Rightarrow> u32 list" where
  "sha_words st = [sha_a st, sha_b st, sha_c st, sha_d st, sha_e st, sha_f st, sha_g st, sha_h st]"

definition hex_word :: "u32 \<Rightarrow> string" where
  "hex_word w = map (\<lambda>i. hex_digit (unat (drop_bit (28 - 4 * i) w AND 15))) [0..<8]"

text \<open>\<open>hex.EncodeToString\<close> of \<open>sha256.Sum256\<close>.\<close>

definition sha256_hex :: "string \<Rightarrow> string" where
  "sha256_hex s =
     concat (map hex_word (sha_words (sha_blocks (be_words (sha_pad (map of_char s))) sha_init)))"

lemma length_hex_word [simp]: "length (hex_word w) = 8"
  by (simp add: hex_word_def)

lemma length_sha256_hex [simp]: "length (sha256_hex s) = 64"
  by (simp add: sha256_hex_def sha_words_def)

definition is_hex_char :: "char \<Rightarrow> bool" where
  "is_hex_char c \<longleftrightarrow> is_digit c \<or> (let n = of_char c :: int in 97 \<le> n \<and> n \<le> 102)"

lemma hex_digit_is_hex: "d < 16 \<Longrightarrow> is_hex_char (hex_digit d)"
  by (simp add: is_hex_char_def hex_digit_def is_digit_def Let_def take_bit_eq_mod)

lemma nibble_bound: "unat (w AND 15 :: u32) < 16"
proof -
  have "w AND 15 \<le> (15 :: u32)" by (rule word_and_le1)
  then show ?thesis by (simp add: word_le_nat_alt)
qed

lemma sha256_hex_chars: "c \<in> set (sha256_hex s) \<Longrightarrow> is_hex_char c"
  by (auto simp: sha256_hex_def hex_word_def hex_digit_is_hex nibble_bound)

end
