(* ===== verification/Ownership.thy ===== *)
theory Ownership
  imports Objects Sha256
begin

text \<open>
  Names and ownership, internal/syncer/ownership.go, with \<open>HostPVCName\<close> and \<open>VolumeName\<close> of
  storage.go and \<open>SerialFor\<close> of internal/csinode/node.go: the labels stamped on every host
  object, the deletion and overwrite guard \<open>ownedBy\<close>, and the derivation of host names.
\<close>

section \<open>Labels and annotations\<close>

definition LabelTenantCluster :: string where
  "LabelTenantCluster = ''vcluster.the-it-dept.io/tenant-cluster''"

definition LabelTenantClusterNamespace :: string where
  "LabelTenantClusterNamespace = ''vcluster.the-it-dept.io/tenant-cluster-namespace''"

definition LabelGuestNamespace :: string where
  "LabelGuestNamespace = ''vcluster.the-it-dept.io/guest-namespace''"

definition LabelGuestName :: string where
  "LabelGuestName = ''vcluster.the-it-dept.io/guest-name''"

definition LabelGuestUID :: string where
  "LabelGuestUID = ''vcluster.the-it-dept.io/guest-uid''"

definition GuestFinalizer :: string where
  "GuestFinalizer = ''vcluster.the-it-dept.io/host-cleanup''"

definition TenantClusterFinalizer :: string where
  "TenantClusterFinalizer = ''vcluster.the-it-dept.io/tenant-cleanup''"

definition RefusedAnnotation :: string where
  "RefusedAnnotation = ''vcluster.the-it-dept.io/refused''"

definition AllowedDomainsAnnotation :: string where
  "AllowedDomainsAnnotation = ''vcluster.the-it-dept.io/allowed-domains''"

definition IPFamiliesAnnotation :: string where
  "IPFamiliesAnnotation = ''vcluster.the-it-dept.io/ip-families''"

definition IPFamilyPolicyAnnotation :: string where
  "IPFamilyPolicyAnnotation = ''vcluster.the-it-dept.io/ip-family-policy''"

definition FieldManager :: string where
  "FieldManager = ''vcluster-tenant-syncer''"

lemma label_keys_distinct [simp]:
  "distinct [LabelTenantCluster, LabelTenantClusterNamespace, LabelGuestNamespace, LabelGuestName,
     LabelGuestUID]"
  by (simp add: LabelTenantCluster_def LabelTenantClusterNamespace_def LabelGuestNamespace_def
      LabelGuestName_def LabelGuestUID_def)

lemma label_neq [simp]:
  "LabelTenantCluster \<noteq> LabelTenantClusterNamespace" "LabelTenantCluster \<noteq> LabelGuestNamespace"
  "LabelTenantCluster \<noteq> LabelGuestName" "LabelTenantCluster \<noteq> LabelGuestUID"
  "LabelTenantClusterNamespace \<noteq> LabelTenantCluster"
  "LabelTenantClusterNamespace \<noteq> LabelGuestNamespace"
  "LabelTenantClusterNamespace \<noteq> LabelGuestName" "LabelTenantClusterNamespace \<noteq> LabelGuestUID"
  "LabelGuestNamespace \<noteq> LabelGuestName" "LabelGuestNamespace \<noteq> LabelGuestUID"
  "LabelGuestName \<noteq> LabelGuestUID"
  using label_keys_distinct by (simp_all del: label_keys_distinct) auto

lemma annotation_neq [simp]:
  "IPFamiliesAnnotation \<noteq> IPFamilyPolicyAnnotation" "IPFamilyPolicyAnnotation \<noteq> IPFamiliesAnnotation"
  by (simp_all add: IPFamiliesAnnotation_def IPFamilyPolicyAnnotation_def)

section \<open>Ownership\<close>

definition ownershipLabels :: "tenant_cluster \<Rightarrow> obj_meta \<Rightarrow> strmap" where
  "ownershipLabels tc guest =
     [LabelTenantCluster \<mapsto> tc_name tc,
      LabelTenantClusterNamespace \<mapsto> tc_namespace tc,
      LabelGuestNamespace \<mapsto> om_namespace guest,
      LabelGuestName \<mapsto> om_name guest,
      LabelGuestUID \<mapsto> om_uid guest]"

definition ownedBy :: "obj_meta \<Rightarrow> tenant_cluster \<Rightarrow> bool" where
  "ownedBy m tc \<longleftrightarrow>
     at (om_labels m) LabelTenantCluster = tc_name tc \<and>
     at (om_labels m) LabelTenantClusterNamespace = tc_namespace tc"

definition mergeLabels :: "strmap \<Rightarrow> strmap \<Rightarrow> strmap" where
  "mergeLabels have want = have ++ want"

lemma at_ownershipLabels [simp]:
  "at (ownershipLabels tc g) LabelTenantCluster = tc_name tc"
  "at (ownershipLabels tc g) LabelTenantClusterNamespace = tc_namespace tc"
  "at (ownershipLabels tc g) LabelGuestNamespace = om_namespace g"
  "at (ownershipLabels tc g) LabelGuestName = om_name g"
  "at (ownershipLabels tc g) LabelGuestUID = om_uid g"
  by (simp_all add: ownershipLabels_def at_def)

lemma ownershipLabels_mem [simp]:
  "ownershipLabels tc g LabelTenantCluster = Some (tc_name tc)"
  "ownershipLabels tc g LabelTenantClusterNamespace = Some (tc_namespace tc)"
  "ownershipLabels tc g LabelGuestUID = Some (om_uid g)"
  by (simp_all add: ownershipLabels_def)

lemma ownedBy_ownershipLabels [simp]: "om_labels m = ownershipLabels tc g \<Longrightarrow> ownedBy m tc"
  by (simp add: ownedBy_def)

lemma ownedBy_mergeLabels:
  "om_labels m = mergeLabels have (ownershipLabels tc g) \<Longrightarrow> ownedBy m tc"
  by (simp add: ownedBy_def mergeLabels_def at_def map_add_Some_iff)

text \<open>Two tenants' objects are never interchangeable.\<close>

lemma ownedBy_unique:
  "ownedBy m tc \<Longrightarrow> ownedBy m tc' \<Longrightarrow> tc_name tc = tc_name tc' \<and> tc_namespace tc = tc_namespace tc'"
  by (simp add: ownedBy_def)

section \<open>Host object names\<close>

text \<open>\<open>validation.DNS1035LabelMaxLength\<close>, the documented length of a DNS label.\<close>

definition DNS1035LabelMaxLength :: nat where
  "DNS1035LabelMaxLength = 63"

definition sanitize_char :: "char \<Rightarrow> char" where
  "sanitize_char c = (if is_lower c \<or> is_digit c \<or> c = CHR ''-'' then c else CHR ''-'')"

definition sanitizeName :: "string \<Rightarrow> string" where
  "sanitizeName s = trim_char CHR ''-'' (map sanitize_char (to_lower s))"

definition HostObjectName :: "string \<Rightarrow> string \<Rightarrow> string \<Rightarrow> string" where
  "HostObjectName tcName guestNamespace guestName =
     (let base = sanitizeName (tcName @ ''-'' @ guestNamespace @ ''-'' @ guestName) in
      if length base \<le> DNS1035LabelMaxLength then base
      else take (DNS1035LabelMaxLength - 11) base @ ''-'' @ take 10 (sha256_hex base))"

definition SerialFor :: "string \<Rightarrow> string" where
  "SerialFor volumeHandle = take 20 (sha256_hex volumeHandle)"

definition HostPVCName :: "tenant_cluster \<Rightarrow> string \<Rightarrow> string" where
  "HostPVCName tc guestUID = sanitizeName (tc_name tc @ ''-pvc-'' @ guestUID)"

definition VolumeName :: "string \<Rightarrow> string" where
  "VolumeName hostPVCName = ''csi-'' @ SerialFor hostPVCName"

section \<open>Names are bounded DNS label text\<close>

definition is_label_char :: "char \<Rightarrow> bool" where
  "is_label_char c \<longleftrightarrow> is_lower c \<or> is_digit c \<or> c = CHR ''-''"

lemma is_label_char_dash [simp]: "is_label_char CHR ''-''"
  by (simp add: is_label_char_def)

lemma sanitize_char_label [simp]: "is_label_char (sanitize_char c)"
  by (simp add: sanitize_char_def is_label_char_def)

lemma is_hex_label: "is_hex_char c \<Longrightarrow> is_label_char c"
  by (auto simp: is_hex_char_def is_label_char_def is_lower_def Let_def)

lemma is_hex_not_dash: "is_hex_char c \<Longrightarrow> c \<noteq> CHR ''-''"
  by (auto simp: is_hex_char_def is_digit_def Let_def)

lemma sanitizeName_chars: "c \<in> set (sanitizeName s) \<Longrightarrow> is_label_char c"
  unfolding sanitizeName_def trim_char_def
  by (fastforce dest!: subsetD [OF set_trim_right] subsetD [OF set_trim_left])

lemma sanitizeName_ends:
  "sanitizeName s \<noteq> [] \<Longrightarrow> hd (sanitizeName s) \<noteq> CHR ''-'' \<and> last (sanitizeName s) \<noteq> CHR ''-''"
  unfolding sanitizeName_def by (rule trim_char_ends)

lemma length_sanitizeName: "length (sanitizeName s) \<le> length s"
  unfolding sanitizeName_def trim_char_def
  by (metis le_trans length_map length_to_lower length_trim_left length_trim_right)

lemma SerialFor_shape: "length (SerialFor h) = 20 \<and> (\<forall>c \<in> set (SerialFor h). is_hex_char c)"
  using set_take_subset by (fastforce simp: SerialFor_def intro: sha256_hex_chars)

lemma VolumeName_inj_serial: "VolumeName a = VolumeName b \<longleftrightarrow> SerialFor a = SerialFor b"
  by (simp add: VolumeName_def)

text \<open>
  Claim C38. Every host object name is text a DNS label may hold: at most 63 bytes, only
  lower-case letters, digits and dashes, and, unless it is empty, neither starting nor ending
  with a dash, however long or odd the guest's names are.
\<close>

theorem HostObjectName_label:
  "length (HostObjectName t ns n) \<le> 63 \<and>
   (\<forall>c \<in> set (HostObjectName t ns n). is_label_char c) \<and>
   (HostObjectName t ns n = [] \<or>
    (hd (HostObjectName t ns n) \<noteq> CHR ''-'' \<and> last (HostObjectName t ns n) \<noteq> CHR ''-''))"
proof -
  define s where "s = t @ ''-'' @ ns @ ''-'' @ n"
  define base where "base = sanitizeName s"
  define sum where "sum = take 10 (sha256_hex base)"
  have name: "HostObjectName t ns n = (if length base \<le> 63 then base else take 52 base @ ''-'' @ sum)"
    by (simp add: HostObjectName_def DNS1035LabelMaxLength_def Let_def base_def s_def sum_def)
  have chars: "\<And>c. c \<in> set base \<Longrightarrow> is_label_char c"
    and ends: "base \<noteq> [] \<Longrightarrow> hd base \<noteq> CHR ''-'' \<and> last base \<noteq> CHR ''-''"
    using sanitizeName_chars sanitizeName_ends by (simp_all add: base_def)
  show ?thesis
  proof (cases "length base \<le> 63")
    case True
    then show ?thesis using chars ends by (auto simp: name)
  next
    case False
    have hex: "\<And>c. c \<in> set sum \<Longrightarrow> is_hex_char c"
      by (auto simp: sum_def dest: in_set_takeD sha256_hex_chars)
    have len: "length sum = 10" by (simp add: sum_def)
    then have ne: "sum \<noteq> []" by auto
    have base: "base \<noteq> []" "hd (take 52 base) = hd base" "take 52 base \<noteq> []"
      using False by (auto simp: hd_take)
    have "last sum \<noteq> CHR ''-''" using hex last_in_set [OF ne] is_hex_not_dash by blast
    then show ?thesis
      using False base ne len hex chars ends [OF base(1)]
      by (auto simp: name is_hex_label dest: in_set_takeD)
  qed
qed

theorem HostObjectName_label_witness:
  "set (HostObjectName ''acme'' ''shop'' ''Web.Front'') \<subseteq> {c. is_label_char c} \<and>
   length (HostObjectName ''acme'' ''shop'' ''Web.Front'') \<le> 63"
  using HostObjectName_label [of "''acme''" "''shop''" "''Web.Front''"] by blast

section \<open>The name does not separate all guests\<close>

text \<open>
  The derivation joins cluster, namespace and name with a dash, which may occur in
  each of them, so it is not injective: within one tenant the guest object \<open>c\<close> of namespace
  \<open>a-b\<close> and the guest object \<open>b-c\<close> of namespace \<open>a\<close> get the same host name, and so do two
  names that differ in a dot against a dash.
\<close>

theorem HostObjectName_not_injective:
  "HostObjectName t (a @ ''-'' @ b) c = HostObjectName t a (b @ ''-'' @ c) \<and>
   HostObjectName t a (b @ ''.'' @ c) = HostObjectName t a (b @ ''-'' @ c)"
proof -
  have "sanitize_char (lower_char CHR ''.'') = sanitize_char (lower_char CHR ''-'')" by code_simp
  then show ?thesis by (simp add: HostObjectName_def sanitizeName_def to_lower_def)
qed

end
