(* ===== verification/Effects.thy ===== *)
theory Effects
  imports Objects Ownership
begin

text \<open>
  The API servers and the KubeVirt hotplug interface as the program sees them: requests,
  responses, and the trace of what was asked and answered so far.  Which answer a server gives is
  outside the program, so it is a parameter: the \<open>api\<close> of an environment is any function of the
  whole history and the request, and a theorem that holds for every environment holds for every
  behaviour of the servers, concurrent writers included.  The environment also holds the
  third-party library functions the code calls and the iteration order of Go maps.
\<close>

section \<open>Requests and responses\<close>

text \<open>\<open>VolumeState\<close> of internal/kubevirt/hotplug.go.\<close>

record volume_state =
  InSpec :: bool
  Phase :: string
  Claim :: string

type_synonym vm_volumes = "(string \<times> (string \<times> volume_state) list) list"

text \<open>A list selector: the labels that must match exactly.\<close>

type_synonym selector = "(string \<times> string) list"

datatype request =
    HostGet kind string string
  | HostList kind string selector
  | HostCreate obj
  | HostUpdate obj
  | HostStatusUpdate obj
  | HostDelete obj string
  | GuestGet kind string string
  | GuestList kind selector
  | GuestCreate obj
  | GuestUpdate obj
  | GuestStatusUpdate obj
  | GuestDelete obj
  | VMs string
  | AddVolume string string string string string
  | RemoveVolume string string string
  | Now

text \<open>
  Errors by what \<open>apierrors.IsNotFound\<close>, \<open>IsAlreadyExists\<close> and \<open>meta.IsNoMatchError\<close>
  tell apart; the string is the text the error prints as.
\<close>

datatype api_error = NotFound string | AlreadyExists string | NoMatch string | OtherError string

fun err_text :: "api_error \<Rightarrow> string" where
  "err_text (NotFound m) = m"
| "err_text (AlreadyExists m) = m"
| "err_text (NoMatch m) = m"
| "err_text (OtherError m) = m"

fun IsNotFound :: "api_error \<Rightarrow> bool" where
  "IsNotFound (NotFound _) = True"
| "IsNotFound _ = False"

fun IsAlreadyExists :: "api_error \<Rightarrow> bool" where
  "IsAlreadyExists (AlreadyExists _) = True"
| "IsAlreadyExists _ = False"

fun IsNoMatchError :: "api_error \<Rightarrow> bool" where
  "IsNoMatchError (NoMatch _) = True"
| "IsNoMatchError _ = False"

datatype response =
    RErr api_error
  | ROk
  | RObj obj
  | RObjs "obj list"
  | RVMs vm_volumes
  | RTime int

type_synonym event = "request \<times> response"

section \<open>Environments\<close>

text \<open>
  \<open>add_finalizer\<close>, \<open>remove_finalizer\<close>, \<open>contains_finalizer\<close> are those of
  controller-runtime's controllerutil (the flag says whether the list changed),
  \<open>set_condition\<close> is \<open>meta.SetStatusCondition\<close> (the flag says whether the conditions
  changed), \<open>map_order\<close> the choice of an iteration order at a site of the code.
\<close>

record env =
  api :: "event list \<Rightarrow> request \<Rightarrow> response"
  map_order :: "event list \<Rightarrow> string \<Rightarrow> nat \<Rightarrow> nat"
  add_finalizer :: "string \<Rightarrow> string list \<Rightarrow> bool \<times> string list"
  remove_finalizer :: "string \<Rightarrow> string list \<Rightarrow> bool \<times> string list"
  contains_finalizer :: "string \<Rightarrow> string list \<Rightarrow> bool"
  set_condition :: "condition \<Rightarrow> condition list \<Rightarrow> bool \<times> condition list"

section \<open>Decoding responses\<close>

text \<open>
  A typed client decodes an answer into the requested Go type or reports an error; an answer of
  another shape is a decoding error.
\<close>

definition decode_error :: api_error where
  "decode_error = OtherError ''cannot decode the response''"

fun as_obj :: "response \<Rightarrow> api_error + obj" where
  "as_obj (RErr e) = Inl e"
| "as_obj (RObj x) = Inr x"
| "as_obj _ = Inl decode_error"

fun decode_with :: "(obj \<Rightarrow> 'a option) \<Rightarrow> response \<Rightarrow> api_error + 'a" where
  "decode_with f (RErr e) = Inl e"
| "decode_with f (RObj x) = (case f x of None \<Rightarrow> Inl decode_error | Some y \<Rightarrow> Inr y)"
| "decode_with f _ = Inl decode_error"

fun decode_all :: "(obj \<Rightarrow> 'a option) \<Rightarrow> obj list \<Rightarrow> 'a list option" where
  "decode_all f [] = Some []"
| "decode_all f (x # xs) =
     (case f x of
        None \<Rightarrow> None
      | Some y \<Rightarrow> (case decode_all f xs of None \<Rightarrow> None | Some ys \<Rightarrow> Some (y # ys)))"

fun decode_list :: "(obj \<Rightarrow> 'a option) \<Rightarrow> response \<Rightarrow> api_error + 'a list" where
  "decode_list f (RErr e) = Inl e"
| "decode_list f (RObjs xs) = (case decode_all f xs of None \<Rightarrow> Inl decode_error | Some ys \<Rightarrow> Inr ys)"
| "decode_list f _ = Inl decode_error"

text \<open>The object after a write that succeeded: what the server returned, decoded over it.\<close>

fun decode_write :: "(obj \<Rightarrow> 'a option) \<Rightarrow> 'a \<Rightarrow> response \<Rightarrow> api_error + 'a" where
  "decode_write f old (RErr e) = Inl e"
| "decode_write f old (RObj x) = (case f x of None \<Rightarrow> Inr old | Some y \<Rightarrow> Inr y)"
| "decode_write f old _ = Inr old"

fun write_error :: "response \<Rightarrow> api_error option" where
  "write_error (RErr e) = Some e"
| "write_error _ = None"

fun to_service :: "obj \<Rightarrow> service option" where
  "to_service (OService x) = Some x" | "to_service _ = None"
fun to_ingress :: "obj \<Rightarrow> ingress option" where
  "to_ingress (OIngress x) = Some x" | "to_ingress _ = None"
fun to_gateway :: "obj \<Rightarrow> gateway option" where
  "to_gateway (OGateway x) = Some x" | "to_gateway _ = None"
fun to_route :: "obj \<Rightarrow> http_route option" where
  "to_route (OHTTPRoute x) = Some x" | "to_route _ = None"
fun to_pvc :: "obj \<Rightarrow> pvc option" where
  "to_pvc (OPVC x) = Some x" | "to_pvc _ = None"
fun to_namespace :: "obj \<Rightarrow> plain_object option" where
  "to_namespace (ONamespace x) = Some x" | "to_namespace _ = None"
fun to_storage_class :: "obj \<Rightarrow> storage_class option" where
  "to_storage_class (OStorageClass x) = Some x" | "to_storage_class _ = None"
fun to_pv :: "obj \<Rightarrow> pv option" where
  "to_pv (OPV x) = Some x" | "to_pv _ = None"
fun to_attachment :: "obj \<Rightarrow> volume_attachment option" where
  "to_attachment (OVolumeAttachment x) = Some x" | "to_attachment _ = None"
fun to_gateway_class :: "obj \<Rightarrow> gateway_class option" where
  "to_gateway_class (OGatewayClass x) = Some x" | "to_gateway_class _ = None"
fun to_csi_driver :: "obj \<Rightarrow> csi_driver option" where
  "to_csi_driver (OCSIDriver x) = Some x" | "to_csi_driver _ = None"
fun to_daemon_set :: "obj \<Rightarrow> daemon_set option" where
  "to_daemon_set (ODaemonSet x) = Some x" | "to_daemon_set _ = None"
fun to_tenant_cluster :: "obj \<Rightarrow> tenant_cluster option" where
  "to_tenant_cluster (OTenantCluster x) = Some x" | "to_tenant_cluster _ = None"
fun to_secret :: "obj \<Rightarrow> secret option" where
  "to_secret (OSecret x) = Some x" | "to_secret _ = None"
fun to_service_cidr :: "obj \<Rightarrow> service_cidr option" where
  "to_service_cidr (OServiceCIDR x) = Some x" | "to_service_cidr _ = None"

fun decode_vms :: "response \<Rightarrow> api_error + vm_volumes" where
  "decode_vms (RErr e) = Inl e"
| "decode_vms (RVMs v) = Inr v"
| "decode_vms _ = Inl decode_error"

text \<open>Times and durations are in nanoseconds.\<close>

definition second :: int where "second = 1000000000"

fun decode_time :: "response \<Rightarrow> int" where
  "decode_time (RTime t) = t"
| "decode_time _ = 0"

text \<open>An object with its metadata replaced, the setters of \<open>metav1.Object\<close>.\<close>

fun set_meta :: "obj_meta \<Rightarrow> obj \<Rightarrow> obj" where
  "set_meta m (OService x) = OService (x\<lparr>svc_meta := m\<rparr>)"
| "set_meta m (OIngress x) = OIngress (x\<lparr>ing_meta := m\<rparr>)"
| "set_meta m (OGateway x) = OGateway (x\<lparr>gw_meta := m\<rparr>)"
| "set_meta m (OHTTPRoute x) = OHTTPRoute (x\<lparr>rt_meta := m\<rparr>)"
| "set_meta m (OPVC x) = OPVC (x\<lparr>pvc_meta := m\<rparr>)"
| "set_meta m (ONamespace x) = ONamespace (x\<lparr>po_meta := m\<rparr>)"
| "set_meta m (OStorageClass x) = OStorageClass (x\<lparr>sc_meta := m\<rparr>)"
| "set_meta m (OPV x) = OPV (x\<lparr>pv_meta := m\<rparr>)"
| "set_meta m (OVolumeAttachment x) = OVolumeAttachment (x\<lparr>va_meta := m\<rparr>)"
| "set_meta m (OGatewayClass x) = OGatewayClass (x\<lparr>gc_meta := m\<rparr>)"
| "set_meta m (OServiceAccount x) = OServiceAccount (x\<lparr>sa_meta := m\<rparr>)"
| "set_meta m (OCSIDriver x) = OCSIDriver (x\<lparr>cd_meta := m\<rparr>)"
| "set_meta m (ODaemonSet x) = ODaemonSet (x\<lparr>ds_meta := m\<rparr>)"
| "set_meta m (OEvent x) = OEvent x"
| "set_meta m (OTenantCluster x) = OTenantCluster (x\<lparr>tc_meta := m\<rparr>)"
| "set_meta m (OSecret x) = OSecret (x\<lparr>se_meta := m\<rparr>)"
| "set_meta m (OServiceCIDR x) = OServiceCIDR x"

lemma kind_of_set_meta [simp]: "kind_of (set_meta m x) = kind_of x"
  by (cases x) simp_all

section \<open>Which requests write, and where\<close>

fun host_mutation :: "request \<Rightarrow> bool" where
  "host_mutation (HostCreate _) = True"
| "host_mutation (HostUpdate _) = True"
| "host_mutation (HostStatusUpdate _) = True"
| "host_mutation (HostDelete _ _) = True"
| "host_mutation (AddVolume _ _ _ _ _) = True"
| "host_mutation (RemoveVolume _ _ _) = True"
| "host_mutation _ = False"

fun guest_mutation :: "request \<Rightarrow> bool" where
  "guest_mutation (GuestCreate _) = True"
| "guest_mutation (GuestUpdate _) = True"
| "guest_mutation (GuestStatusUpdate _) = True"
| "guest_mutation (GuestDelete _) = True"
| "guest_mutation _ = False"

section \<open>Guarded extensions of a trace\<close>

text \<open>
  \<open>trace_ext Q t t'\<close>: the trace \<open>t\<close> grew to \<open>t'\<close>, and every request that was made satisfies
  the guard \<open>Q\<close> in the history at the time it was made.  Traces grow at their head.
\<close>

inductive trace_ext :: "(('q \<times> 'r) list \<Rightarrow> 'q \<Rightarrow> bool) \<Rightarrow> ('q \<times> 'r) list \<Rightarrow> ('q \<times> 'r) list \<Rightarrow> bool"
  for Q where
  trace_ext_refl [intro!, simp]: "trace_ext Q t t"
| trace_ext_step: "trace_ext Q t t' \<Longrightarrow> Q t' r \<Longrightarrow> trace_ext Q t ((r, resp) # t')"

inductive_cases trace_ext_ConsE: "trace_ext Q t (e # t')"

lemma trace_ext_trans:
  assumes "trace_ext Q t' t''" and "trace_ext Q t t'"
  shows "trace_ext Q t t''"
  using assms by (induction rule: trace_ext.induct) (auto intro: trace_ext.intros)

lemma trace_ext_one: "Q t r \<Longrightarrow> trace_ext Q t ((r, resp) # t)"
  by (rule trace_ext_step) simp_all

lemma trace_ext_mono:
  assumes "trace_ext Q t t'" and "\<And>h r. Q h r \<Longrightarrow> R h r"
  shows "trace_ext R t t'"
  using assms(1) by (induction rule: trace_ext.induct) (auto intro: trace_ext.intros assms(2))

lemma trace_ext_suffix: "trace_ext Q t t' \<Longrightarrow> \<exists>new. t' = new @ t"
  by (induction rule: trace_ext.induct) auto

lemma trace_ext_subset: "trace_ext Q t t' \<Longrightarrow> set t \<subseteq> set t'"
  using trace_ext_suffix by fastforce

text \<open>Every event of the extension was guarded, in the history it was made in.\<close>

lemma trace_ext_event:
  assumes "trace_ext Q t (new @ (r, resp) # old @ t)"
  shows "Q (old @ t) r"
  using assms
proof (induction new)
  case Nil
  then have "trace_ext Q t ((r, resp) # old @ t)" by simp
  then show ?case
  proof (cases rule: trace_ext.cases)
    case trace_ext_refl
    then have "length t = length ((r, resp) # old @ t)" by simp
    then show ?thesis by simp
  next
    case trace_ext_step
    then show ?thesis by simp
  qed
next
  case (Cons e new)
  from Cons.prems have "trace_ext Q t (e # (new @ (r, resp) # old @ t))" by simp
  then have "trace_ext Q t (new @ (r, resp) # old @ t)"
  proof (cases rule: trace_ext.cases)
    case trace_ext_refl
    then have "length t = length (e # new @ (r, resp) # old @ t)" by (metis)
    then show ?thesis by simp
  qed auto
  then show ?case by (rule Cons.IH)
qed

text \<open>A guard that history can only strengthen holds in the final trace too.\<close>

lemma trace_ext_all:
  assumes "trace_ext Q [] t" and "\<And>h h' r. Q h r \<Longrightarrow> set h \<subseteq> set h' \<Longrightarrow> R h' r"
    and "(r, resp) \<in> set t"
  shows "R t r"
proof -
  from assms(3) obtain new old where t: "t = new @ (r, resp) # old @ []"
    by (metis append_Nil2 split_list)
  then have "Q (old @ []) r" using trace_ext_event [of Q "[]" new r resp old] assms(1) by simp
  then show ?thesis by (rule assms(2)) (auto simp: t)
qed

end
