(* ===== verification/NetIP.thy ===== *)
theory NetIP
  imports GoStrings
begin

text \<open>
  \<open>net.ParseIP\<close>, \<open>net.ParseCIDR\<close> and \<open>IP.To4\<close> of Go's standard library, as far as the syncer
  uses them: it asks whether a text is an address and of which family.  An IPv6 address is its
  eight 16-bit groups.
\<close>

datatype ip = V4 "int list" | V6 "int list"

definition digits_val :: "int \<Rightarrow> int list \<Rightarrow> int" where
  "digits_val base ds = foldl (\<lambda>acc d. acc * base + d) 0 ds"

definition dec_val :: "string \<Rightarrow> int" where
  "dec_val s = digits_val 10 (map (\<lambda>c. of_char c - 48) s)"

definition is_hex :: "char \<Rightarrow> bool" where
  "is_hex c = (let n = of_char c :: int in
     (48 \<le> n \<and> n \<le> 57) \<or> (97 \<le> n \<and> n \<le> 102) \<or> (65 \<le> n \<and> n \<le> 70))"

definition hex_of_char :: "char \<Rightarrow> int" where
  "hex_of_char c = (let n = of_char c :: int in
     if n \<le> 57 then n - 48 else if 97 \<le> n then n - 87 else n - 55)"

definition hex_val :: "string \<Rightarrow> int" where
  "hex_val s = digits_val 16 (map hex_of_char s)"

text \<open>An octet: decimal digits, no leading zero, at most 255.\<close>

definition parse_octet :: "string \<Rightarrow> int option" where
  "parse_octet s =
     (if s = [] \<or> (\<exists>c \<in> set s. \<not> is_digit c) \<or> (hd s = CHR ''0'' \<and> length s \<noteq> 1) \<or> 3 < length s
      then None
      else if 255 < dec_val s then None else Some (dec_val s))"

definition parse_v4 :: "string \<Rightarrow> int list option" where
  "parse_v4 s =
     (let fs = map parse_octet (split_on CHR ''.'' s) in
      if length fs = 4 \<and> None \<notin> set fs then Some (map the fs) else None)"

text \<open>The end of an IPv6 address: expand the ellipsis at group \<open>e\<close>.\<close>

definition v6_finish :: "string \<Rightarrow> int list \<Rightarrow> nat option \<Rightarrow> int list option" where
  "v6_finish s gs e =
     (if s \<noteq> [] then None
      else if length gs < 8 then
        (case e of None \<Rightarrow> None
         | Some k \<Rightarrow> Some (take k gs @ replicate (8 - length gs) 0 @ drop k gs))
      else if e \<noteq> None then None else Some gs)"

text \<open>The loop over the groups: at most eight rounds, \<open>gs\<close> the groups read so far.\<close>

fun v6_loop :: "nat \<Rightarrow> string \<Rightarrow> int list \<Rightarrow> nat option \<Rightarrow> int list option" where
  "v6_loop 0 s gs e = v6_finish s gs e"
| "v6_loop (Suc n) s gs e =
     (let d = takeWhile is_hex s; rest = dropWhile is_hex s; gs' = gs @ [hex_val d] in
      if d = [] \<or> 4 < length d then None
      else (case rest of
              [] \<Rightarrow> v6_finish [] gs' e
            | c # s' \<Rightarrow>
                if c = CHR ''.'' then
                  if (e = None \<and> length gs \<noteq> 6) \<or> 6 < length gs then None
                  else (case parse_v4 s of
                          Some [p, q, r, t] \<Rightarrow> v6_finish [] (gs @ [p * 256 + q, r * 256 + t]) e
                        | _ \<Rightarrow> None)
                else if c \<noteq> CHR '':'' \<or> s' = [] then None
                else if hd s' = CHR '':'' then
                  if e \<noteq> None then None
                  else if tl s' = [] then v6_finish [] gs' (Some (length gs'))
                  else v6_loop n (tl s') gs' (Some (length gs'))
                else v6_loop n s' gs' e))"

definition parse_v6 :: "string \<Rightarrow> int list option" where
  "parse_v6 s =
     (case cut_prefix s ''::'' of
        None \<Rightarrow> v6_loop 8 s [] None
      | Some r \<Rightarrow> if r = [] then Some (replicate 8 0) else v6_loop 8 r [] (Some 0))"

text \<open>
  \<open>netip.ParseAddr\<close> without a zone: the first of dot, colon and percent decides.  An address
  with a zone is not accepted by \<open>net.ParseIP\<close> nor by \<open>net.ParseCIDR\<close>.
\<close>

definition ParseIP :: "string \<Rightarrow> ip option" where
  "ParseIP s =
     (if CHR ''%'' \<in> set s then None
      else (case find (\<lambda>c. c = CHR ''.'' \<or> c = CHR '':'') s of
              None \<Rightarrow> None
            | Some c \<Rightarrow>
                if c = CHR ''.'' then map_option V4 (parse_v4 s) else map_option V6 (parse_v6 s)))"

definition ParseCIDR :: "string \<Rightarrow> ip option" where
  "ParseCIDR s =
     (case index_byte s CHR ''/'' of
        None \<Rightarrow> None
      | Some i \<Rightarrow>
          (case ParseIP (take i s) of
             None \<Rightarrow> None
           | Some a \<Rightarrow>
               let m = drop (Suc i) s; bits = (case a of V4 _ \<Rightarrow> 32 | V6 _ \<Rightarrow> 128) in
               if m = [] \<or> (\<exists>c \<in> set m. \<not> is_digit c) \<or> bits < dec_val m then None else Some a))"

text \<open>\<open>IP.To4() != nil\<close>: an IPv4 address, or an IPv4-mapped IPv6 address.\<close>

definition is_to4 :: "ip \<Rightarrow> bool" where
  "is_to4 a = (case a of V4 _ \<Rightarrow> True
     | V6 gs \<Rightarrow> take 6 gs = [0, 0, 0, 0, 0, 65535])"

lemma ParseIP_examples:
  "ParseIP ''192.0.2.7'' = Some (V4 [192, 0, 2, 7])"
  "ParseIP ''2001:db8::1'' = Some (V6 [8193, 3512, 0, 0, 0, 0, 0, 1])"
  "map_option is_to4 (ParseIP ''::ffff:192.0.2.7'') = Some True"
  "ParseIP ''192.0.2.256'' = None" "ParseIP ''1::2::3'' = None" "ParseIP ''lb.example.com'' = None"
  by code_simp+

lemma ParseCIDR_examples:
  "ParseCIDR ''10.96.0.0/12'' = Some (V4 [10, 96, 0, 0])"
  "map_option is_to4 (ParseCIDR ''fd00:10::/108'') = Some False"
  "ParseCIDR ''10.96.0.0'' = None" "ParseCIDR ''10.96.0.0/33'' = None"
  by code_simp+

end
