(* ===== verification/ServiceMap.thy ===== *)
theory ServiceMap
  imports Ownership NetIP
begin

text \<open>
  The Service syncer, internal/syncer/service.go: which guest Services are in scope, the host
  Service a guest Service becomes, and the address families it asks for.  A refusal is the
  \<open>Inl\<close> of a sum: the Go functions return it as a nonempty string beside a nil result.
\<close>

section \<open>Constants\<close>

definition ServiceTypeLoadBalancer :: string where "ServiceTypeLoadBalancer = ''LoadBalancer''"
definition ServiceTypeClusterIP :: string where "ServiceTypeClusterIP = ''ClusterIP''"
definition IPv4Protocol :: ip_family where "IPv4Protocol = ''IPv4''"
definition IPv6Protocol :: ip_family where "IPv6Protocol = ''IPv6''"
definition PolicySingleStack :: string where "PolicySingleStack = ''SingleStack''"
definition PolicyPreferDualStack :: string where "PolicyPreferDualStack = ''PreferDualStack''"
definition PolicyRequireDualStack :: string where "PolicyRequireDualStack = ''RequireDualStack''"

lemma service_constants_neq [simp]:
  "ServiceTypeLoadBalancer \<noteq> ServiceTypeClusterIP" "ServiceTypeClusterIP \<noteq> ServiceTypeLoadBalancer"
  "IPv4Protocol \<noteq> IPv6Protocol" "IPv6Protocol \<noteq> IPv4Protocol"
  "IPv4Protocol \<noteq> []" "IPv6Protocol \<noteq> []"
  by (simp_all add: ServiceTypeLoadBalancer_def ServiceTypeClusterIP_def IPv4Protocol_def
      IPv6Protocol_def)

definition HostAddressCondition :: string where
  "HostAddressCondition = ''vcluster.the-it-dept.io/HostAddressAssigned''"

section \<open>Scope\<close>

definition wantsLoadBalancer :: "tenant_cluster \<Rightarrow> service \<Rightarrow> bool" where
  "wantsLoadBalancer tc svc =
     (if svc_type svc \<noteq> ServiceTypeLoadBalancer then False
      else let want = sync_lb_class (sync (tc_spec tc)) in
           if want = [] then svc_lbClass svc = None
           else svc_lbClass svc = Some want)"

section \<open>Address families\<close>

fun containsFamily :: "ip_family list \<Rightarrow> ip_family \<Rightarrow> bool" where
  "containsFamily [] f = False"
| "containsFamily (x # xs) f = (if x = f then True else containsFamily xs f)"

lemma containsFamily_iff [simp]: "containsFamily xs f \<longleftrightarrow> f \<in> set xs"
  by (induction xs) auto

definition describeFamilies :: "ip_family list \<Rightarrow> string" where
  "describeFamilies fams = (if fams = [] then ''no address families'' else join fams '', '')"

definition familyOf :: "string \<Rightarrow> ip_family" where
  "familyOf addr =
     (case ParseIP addr of
        None \<Rightarrow> []
      | Some ip \<Rightarrow> if is_to4 ip then IPv4Protocol else IPv6Protocol)"

definition portName :: "service_port \<Rightarrow> string" where
  "portName p = (if sp_name p \<noteq> [] then sp_name p
     else show_int (sp_port p) @ ''/'' @ sp_protocol p)"

definition msg_listed_twice :: "ip_family \<Rightarrow> string" where
  "msg_listed_twice f = f @ '' is listed twice''"

definition msg_not_family :: "string \<Rightarrow> string" where
  "msg_not_family s = quote s @ '' is not an address family (want IPv4, IPv6, or IPv4,IPv6)''"

text \<open>\<open>parseFamilies\<close>: the loop over the comma-separated parts, \<open>out\<close> the families so far.\<close>

fun parse_parts :: "ip_family list \<Rightarrow> string list \<Rightarrow> string + ip_family list" where
  "parse_parts out [] = Inr out"
| "parse_parts out (part # parts) =
     (let f = trim_space part in
      if f = IPv4Protocol \<or> f = IPv6Protocol then
        if containsFamily out f then Inl (msg_listed_twice f)
        else parse_parts (out @ [f]) parts
      else Inl (msg_not_family f))"

definition parseFamilies :: "string \<Rightarrow> string + ip_family list" where
  "parseFamilies raw =
     (case parse_parts [] (split_on CHR '','' raw) of
        Inl e \<Rightarrow> Inl e
      | Inr out \<Rightarrow> if out = [] then Inl ''no address family given'' else Inr out)"

definition msg_bad_policy :: "string \<Rightarrow> string" where
  "msg_bad_policy raw = ''annotation '' @ IPFamilyPolicyAnnotation @ '': '' @ quote raw @
     '' is not a valid policy (SingleStack, PreferDualStack, RequireDualStack)''"

definition msg_families_annotation :: "string \<Rightarrow> string" where
  "msg_families_annotation err = ''annotation '' @ IPFamiliesAnnotation @ '': '' @ err"

text \<open>The two annotation steps of \<open>requestedAddressFamilies\<close>.\<close>

definition families_step ::
  "service \<Rightarrow> string + ip_family list \<times> string option" where
  "families_step guest =
     (case om_annotations (svc_meta guest) IPFamiliesAnnotation of
        None \<Rightarrow> Inr (svc_ipFamilies guest, svc_ipFamilyPolicy guest)
      | Some raw \<Rightarrow>
          (case parseFamilies raw of
             Inl err \<Rightarrow> Inl (msg_families_annotation err)
           | Inr parsed \<Rightarrow>
               Inr (parsed, Some (if 1 < length parsed then PolicyRequireDualStack
                                  else PolicySingleStack))))"

definition requestedAddressFamilies ::
  "service \<Rightarrow> string + ip_family list \<times> string option" where
  "requestedAddressFamilies guest =
     (case families_step guest of
        Inl err \<Rightarrow> Inl err
      | Inr (families, policy) \<Rightarrow>
          (case om_annotations (svc_meta guest) IPFamilyPolicyAnnotation of
             None \<Rightarrow> Inr (families, policy)
           | Some raw \<Rightarrow>
               if raw = PolicySingleStack \<or> raw = PolicyPreferDualStack \<or> raw = PolicyRequireDualStack
               then Inr (families, Some raw)
               else Inl (msg_bad_policy raw)))"

definition msg_unsupported_family :: "ip_family \<Rightarrow> ip_family list \<Rightarrow> string" where
  "msg_unsupported_family w hostFamilies =
     ''address family '' @ w @ '' refused: the host cluster cannot allocate '' @ w @
     '' addresses (it provides '' @ describeFamilies hostFamilies @ '')''"

text \<open>The first wanted family the host does not have; the empty string for none.\<close>

definition unsupportedFamilyRefusal :: "ip_family list \<Rightarrow> ip_family list \<Rightarrow> string" where
  "unsupportedFamilyRefusal want hostFamilies =
     (if hostFamilies = [] then []
      else (case find (\<lambda>w. \<not> containsFamily hostFamilies w) want of
              None \<Rightarrow> []
            | Some w \<Rightarrow> msg_unsupported_family w hostFamilies))"

section \<open>The mapping\<close>

definition msg_no_nodeport :: "service_port \<Rightarrow> string" where
  "msg_no_nodeport p = ''port '' @ portName p @
     '' has no NodePort; the host can only reach this workload via a guest NodePort '' @
     ''(keep allocateLoadBalancerNodePorts enabled, or use type NodePort for Ingress backends)''"

definition msg_no_ports :: string where
  "msg_no_ports = ''service has no ports; nothing to publish''"

definition host_port :: "service_port \<Rightarrow> service_port" where
  "host_port p = \<lparr>sp_name = sp_name p, sp_protocol = sp_protocol p, sp_port = sp_port p,
     sp_targetPort = IntVal (sp_nodePort p), sp_nodePort = 0\<rparr>"

text \<open>The loop over the guest's ports, \<open>ports\<close> the host ports so far.\<close>

fun map_ports :: "service_port list \<Rightarrow> service_port list \<Rightarrow> string + service_port list" where
  "map_ports ports [] = Inr ports"
| "map_ports ports (p # ps) =
     (if sp_nodePort p = 0 then Inl (msg_no_nodeport p) else map_ports (ports @ [host_port p]) ps)"

definition new_host_meta :: "tenant_cluster \<Rightarrow> obj_meta \<Rightarrow> obj_meta" where
  "new_host_meta tc guest = no_meta\<lparr>
     om_name := HostObjectName (tc_name tc) (om_namespace guest) (om_name guest),
     om_namespace := host_ns tc,
     om_labels := ownershipLabels tc guest\<rparr>"

definition new_host_service :: "tenant_cluster \<Rightarrow> service \<Rightarrow> string \<Rightarrow> service_port list \<Rightarrow> service" where
  "new_host_service tc guest svcType ports = \<lparr>
     svc_meta = new_host_meta tc (svc_meta guest), svc_type = svcType,
     svc_selector = nodeSelector (tc_spec tc), svc_ports = ports, svc_ipFamilies = [],
     svc_ipFamilyPolicy = None, svc_lbClass = None, svc_rest = [], svc_lbIngress = [],
     svc_conditions = []\<rparr>"

definition mapService ::
  "tenant_cluster \<Rightarrow> service \<Rightarrow> string \<Rightarrow> ip_family list \<Rightarrow> string + service" where
  "mapService tc guest svcType hostFamilies =
     (case map_ports [] (svc_ports guest) of
        Inl refusal \<Rightarrow> Inl refusal
      | Inr ports \<Rightarrow>
          if ports = [] then Inl msg_no_ports
          else let host = new_host_service tc guest svcType ports in
            if svcType = ServiceTypeLoadBalancer then
              (case requestedAddressFamilies guest of
                 Inl refusal \<Rightarrow> Inl refusal
               | Inr (families, policy) \<Rightarrow>
                   let refusal = unsupportedFamilyRefusal families hostFamilies in
                   if refusal \<noteq> [] then Inl refusal
                   else Inr (host\<lparr>svc_ipFamilies := families, svc_ipFamilyPolicy := policy\<rparr>))
            else Inr host)"

text \<open>The refusal of a mapping as the Go code passes it on: empty when there is none.\<close>

definition refusal_of :: "string + 'a \<Rightarrow> string" where
  "refusal_of r = (case r of Inl m \<Rightarrow> m | Inr _ \<Rightarrow> [])"

section \<open>Facts\<close>

lemma new_host_meta_simps [simp]:
  "om_name (new_host_meta tc g) = HostObjectName (tc_name tc) (om_namespace g) (om_name g)"
  "om_namespace (new_host_meta tc g) = host_ns tc"
  "om_labels (new_host_meta tc g) = ownershipLabels tc g"
  "om_annotations (new_host_meta tc g) = Map.empty"
  "om_finalizers (new_host_meta tc g) = []"
  "ownedBy (new_host_meta tc g) tc"
  by (simp_all add: new_host_meta_def no_meta_def)

lemma map_ports_Inr:
  "map_ports acc ps = Inr out \<longleftrightarrow> (\<forall>p \<in> set ps. sp_nodePort p \<noteq> 0) \<and> out = acc @ map host_port ps"
  by (induction ps arbitrary: acc) auto

lemma map_ports_Inl:
  "map_ports acc ps = Inl m \<longleftrightarrow>
     (\<exists>p. find (\<lambda>p. sp_nodePort p = 0) ps = Some p \<and> m = msg_no_nodeport p)"
  by (induction ps arbitrary: acc) auto

lemma unsupportedFamilyRefusal_Nil:
  "unsupportedFamilyRefusal want host = [] \<longleftrightarrow> host = [] \<or> set want \<subseteq> set host"
proof -
  have "find (\<lambda>w. w \<notin> set host) want = None \<longleftrightarrow> set want \<subseteq> set host"
    by (auto simp: find_None_iff)
  then show ?thesis
    by (auto simp: unsupportedFamilyRefusal_def msg_unsupported_family_def split: option.splits)
qed

lemma parse_parts_Inr:
  "parse_parts acc ps = Inr out \<Longrightarrow> set acc \<subseteq> {IPv4Protocol, IPv6Protocol} \<Longrightarrow> distinct acc \<Longrightarrow>
     distinct out \<and> set out \<subseteq> {IPv4Protocol, IPv6Protocol} \<and> out = acc @ map trim_space ps"
proof (induction ps arbitrary: acc)
  case (Cons p ps)
  let ?f = "trim_space p"
  from Cons.prems(1) have f: "?f = IPv4Protocol \<or> ?f = IPv6Protocol" "?f \<notin> set acc"
    and rec: "parse_parts (acc @ [?f]) ps = Inr out"
    by (simp_all add: Let_def split: if_splits)
  have "set (acc @ [?f]) \<subseteq> {IPv4Protocol, IPv6Protocol}" "distinct (acc @ [?f])"
    using Cons.prems(2,3) f by auto
  from Cons.IH [OF rec this] show ?case
    by (metis append.assoc append_Cons append_Nil list.map(2))
qed auto

lemma parse_parts_complete:
  "distinct (acc @ map trim_space ps) \<Longrightarrow> trim_space ` set ps \<subseteq> {IPv4Protocol, IPv6Protocol} \<Longrightarrow>
   parse_parts acc ps = Inr (acc @ map trim_space ps)"
  by (induction ps arbitrary: acc) (auto simp: Let_def)

lemma families_step_policy:
  "families_step guest = Inr (fs, p) \<Longrightarrow>
   om_annotations (svc_meta guest) IPFamiliesAnnotation = None \<Longrightarrow>
   fs = svc_ipFamilies guest \<and> p = svc_ipFamilyPolicy guest"
  by (simp add: families_step_def)

lemma mapService_refusal_not_Nil: "mapService tc g t fs = Inl m \<Longrightarrow> m \<noteq> []"
  by (auto simp: mapService_def map_ports_Inl msg_no_nodeport_def msg_no_ports_def Let_def
      requestedAddressFamilies_def families_step_def msg_bad_policy_def msg_families_annotation_def
      split: sum.splits if_splits prod.splits option.splits)

lemma refusal_of_mapService_Nil:
  "refusal_of (mapService tc g t fs) = [] \<longleftrightarrow> (\<exists>h. mapService tc g t fs = Inr h)"
  using mapService_refusal_not_Nil by (auto simp: refusal_of_def split: sum.splits)

text \<open>What every mapped Service is, whatever its type.\<close>

lemma mapService_Inr_shape:
  assumes "mapService tc g t fs = Inr h"
  shows "svc_meta h = new_host_meta tc (svc_meta g)" "svc_type h = t"
    "svc_selector h = nodeSelector (tc_spec tc)" "svc_ports h = map host_port (svc_ports g)"
    "svc_rest h = []" "svc_lbClass h = None" "svc_lbIngress h = []"
    "svc_ports g \<noteq> []" "\<forall>p \<in> set (svc_ports g). sp_nodePort p \<noteq> 0"
  using assms
  by (auto simp: mapService_def new_host_service_def map_ports_Inr Let_def
      split: sum.splits if_splits prod.splits)

lemma mapService_ClusterIP:
  "mapService tc g ServiceTypeClusterIP fs =
     (case map_ports [] (svc_ports g) of
        Inl m \<Rightarrow> Inl m
      | Inr ps \<Rightarrow> if ps = [] then Inl msg_no_ports else Inr (new_host_service tc g ServiceTypeClusterIP ps))"
  by (simp add: mapService_def Let_def split: sum.split)

text \<open>The families a mapping of type \<open>t\<close> stamps on the host Service.\<close>

definition families_for ::
  "service \<Rightarrow> string \<Rightarrow> ip_family list \<Rightarrow> ip_family list \<Rightarrow> string option \<Rightarrow> bool" where
  "families_for g t fs fams pol \<longleftrightarrow>
     (if t = ServiceTypeLoadBalancer
      then requestedAddressFamilies g = Inr (fams, pol) \<and> (fs = [] \<or> set fams \<subseteq> set fs)
      else fams = [] \<and> pol = None)"

lemma mapService_Inr_iff:
  "mapService tc g t fs = Inr h \<longleftrightarrow>
     svc_ports g \<noteq> [] \<and> 0 \<notin> sp_nodePort ` set (svc_ports g) \<and>
     (\<exists>fams pol. families_for g t fs fams pol \<and>
        h = (new_host_service tc g t (map host_port (svc_ports g)))
              \<lparr>svc_ipFamilies := fams, svc_ipFamilyPolicy := pol\<rparr>)"
proof (cases "map_ports [] (svc_ports g)")
  case (Inl m)
  then have "0 \<in> sp_nodePort ` set (svc_ports g)"
    by (force simp: map_ports_Inl dest: find_in_set)
  then show ?thesis using Inl by (simp add: mapService_def)
next
  case (Inr ps)
  then have ps: "0 \<notin> sp_nodePort ` set (svc_ports g)" "ps = map host_port (svc_ports g)"
    by (auto simp: map_ports_Inr)
  show ?thesis
  proof (cases "t = ServiceTypeLoadBalancer")
    case True
    then show ?thesis
      using Inr ps unsupportedFamilyRefusal_Nil [of _ fs]
      by (auto simp: mapService_def families_for_def Let_def split: sum.splits prod.splits)
  next
    case False
    then show ?thesis
      using Inr ps
      by (auto simp: mapService_def families_for_def new_host_service_def Let_def)
  qed
qed

section \<open>Properties\<close>

text \<open>
  Claim C26. A guest Service is carried to the host exactly as documented.  The mapping succeeds
  if and only if the Service has ports, each with a NodePort, and, for a LoadBalancer, its
  family request is well-formed and asks for no family that a host which knows its families
  lacks.  The host Service is then determined completely: the host name of the guest in the
  tenant's host namespace, ownership labels and nothing else of the guest's metadata, the
  tenant's node selector, one port per guest port that keeps name, protocol and number and
  targets the guest's NodePort, the requested families for a LoadBalancer and none for a
  backend, and no other part of the guest's spec.
\<close>

theorem mapService_iff:
  "mapService tc g t fs = Inr h \<longleftrightarrow>
     svc_ports g \<noteq> [] \<and> 0 \<notin> sp_nodePort ` set (svc_ports g) \<and>
     (\<exists>fams pol.
        (if t = ServiceTypeLoadBalancer
         then requestedAddressFamilies g = Inr (fams, pol) \<and> (fs = [] \<or> set fams \<subseteq> set fs)
         else fams = [] \<and> pol = None) \<and>
        h = \<lparr>svc_meta = no_meta\<lparr>
               om_name := HostObjectName (tc_name tc) (om_namespace (svc_meta g)) (om_name (svc_meta g)),
               om_namespace := hostNamespace (tc_spec tc),
               om_labels := [LabelTenantCluster \<mapsto> tc_name tc,
                 LabelTenantClusterNamespace \<mapsto> tc_namespace tc,
                 LabelGuestNamespace \<mapsto> om_namespace (svc_meta g),
                 LabelGuestName \<mapsto> om_name (svc_meta g),
                 LabelGuestUID \<mapsto> om_uid (svc_meta g)]\<rparr>,
             svc_type = t, svc_selector = nodeSelector (tc_spec tc),
             svc_ports = map (\<lambda>p. \<lparr>sp_name = sp_name p, sp_protocol = sp_protocol p,
               sp_port = sp_port p, sp_targetPort = IntVal (sp_nodePort p), sp_nodePort = 0\<rparr>)
               (svc_ports g),
             svc_ipFamilies = fams, svc_ipFamilyPolicy = pol, svc_lbClass = None, svc_rest = [],
             svc_lbIngress = [], svc_conditions = []\<rparr>)"
  unfolding mapService_Inr_iff families_for_def
  by (simp add: new_host_service_def new_host_meta_def ownershipLabels_def host_port_def [abs_def])

text \<open>
  \<open>parseFamilies\<close> accepts an annotation value exactly if its comma-separated parts,
  trimmed, are pairwise different address families, and then returns them in the order written:
  a typo, an empty part or a repetition is an error and never a silent default.
\<close>

theorem parseFamilies_iff:
  "parseFamilies raw = Inr out \<longleftrightarrow>
     out = map trim_space (split_on CHR '','' raw) \<and> distinct out \<and>
     set out \<subseteq> {IPv4Protocol, IPv6Protocol}"
proof
  assume "parseFamilies raw = Inr out"
  then have "parse_parts [] (split_on CHR '','' raw) = Inr out"
    by (auto simp: parseFamilies_def split: sum.splits if_splits)
  from parse_parts_Inr [OF this] show "out = map trim_space (split_on CHR '','' raw) \<and>
      distinct out \<and> set out \<subseteq> {IPv4Protocol, IPv6Protocol}"
    unfolding append_Nil by (metis distinct.simps(1) empty_subsetI list.set(1))
next
  assume "out = map trim_space (split_on CHR '','' raw) \<and> distinct out \<and>
      set out \<subseteq> {IPv4Protocol, IPv6Protocol}"
  then have out: "out = map trim_space (split_on CHR '','' raw)" "distinct out"
    and fams: "set out \<subseteq> {IPv4Protocol, IPv6Protocol}" by blast+
  have "trim_space ` set (split_on CHR '','' raw) \<subseteq> {IPv4Protocol, IPv6Protocol}"
    using fams unfolding out(1) by (simp only: set_map)
  then have "parse_parts [] (split_on CHR '','' raw) = Inr out"
    using parse_parts_complete [of "[]" "split_on CHR '','' raw"] out by simp
  moreover have "out \<noteq> []" using out(1) by simp
  ultimately show "parseFamilies raw = Inr out" by (simp add: parseFamilies_def)
qed

text \<open>
  The family request of a Service: the annotation wins over the guest's own fields and
  fixes the policy with the number of families (one is SingleStack, two are RequireDualStack),
  the policy annotation wins over both and must name one of the three policies, and the request
  of a Service with neither annotation is its own families and policy, unchanged.
\<close>

theorem requestedAddressFamilies_iff:
  "requestedAddressFamilies g = Inr (fams, pol) \<longleftrightarrow>
     (case om_annotations (svc_meta g) IPFamiliesAnnotation of
        None \<Rightarrow> fams = svc_ipFamilies g
      | Some raw \<Rightarrow> parseFamilies raw = Inr fams) \<and>
     (case om_annotations (svc_meta g) IPFamilyPolicyAnnotation of
        Some p \<Rightarrow> p \<in> {PolicySingleStack, PolicyPreferDualStack, PolicyRequireDualStack} \<and> pol = Some p
      | None \<Rightarrow>
          pol = (if om_annotations (svc_meta g) IPFamiliesAnnotation = None then svc_ipFamilyPolicy g
                 else if length fams = 1 then Some PolicySingleStack else Some PolicyRequireDualStack))"
proof -
  have one: "parsed \<noteq> [] \<Longrightarrow> 1 < length parsed \<longleftrightarrow> length parsed \<noteq> 1" for parsed :: "ip_family list"
    by (cases parsed) auto
  have ne: "parseFamilies raw = Inr parsed \<Longrightarrow> parsed \<noteq> []" for raw parsed
    by (auto simp: parseFamilies_def split: sum.splits if_splits)
  show ?thesis
  proof (cases "om_annotations (svc_meta g) IPFamiliesAnnotation")
    case None
    then show ?thesis
      by (cases "om_annotations (svc_meta g) IPFamilyPolicyAnnotation")
        (auto simp: requestedAddressFamilies_def families_step_def)
  next
    case (Some raw)
    show ?thesis
    proof (cases "parseFamilies raw")
      case (Inl e)
      then show ?thesis using Some by (simp add: requestedAddressFamilies_def families_step_def)
    next
      case (Inr parsed)
      then show ?thesis
        using Some ne [OF Inr] one [of parsed]
        by (cases "om_annotations (svc_meta g) IPFamilyPolicyAnnotation")
          (auto simp: requestedAddressFamilies_def families_step_def)
    qed
  qed
qed

end
