(* ===== verification/Hostname.thy ===== *)
theory Hostname
  imports GoStrings
begin

text \<open>
  The hostname authority, internal/hostname/hostname.go: which hostnames a tenant may publish.
  \<open>covers\<close> is the documented rule, stated on the canonical forms without reference to the
  loop; \<open>Allowed_iff_covers\<close> shows that the code's loop decides it.
\<close>

section \<open>The code\<close>

definition canonical :: "string \<Rightarrow> string" where
  "canonical s = to_lower (trim_suffix (trim_space s) ''.'')"

text \<open>The loop over the patterns; \<open>w\<close> is \<open>hostIsWildcard\<close>.\<close>

fun allowed_loop :: "string \<Rightarrow> bool \<Rightarrow> string list \<Rightarrow> bool" where
  "allowed_loop h w [] = False"
| "allowed_loop h w (pat # pats) =
     (let p = canonical pat in
      if p = [] then allowed_loop h w pats
      else if h = p then True
      else if w then allowed_loop h w pats
      else (case cut_prefix p ''*.'' of
              None \<Rightarrow> allowed_loop h w pats
            | Some rest \<Rightarrow>
                (case index_byte h CHR ''.'' of
                   None \<Rightarrow> allowed_loop h w pats
                 | Some dot \<Rightarrow>
                     if 0 < dot \<and> drop (Suc dot) h = rest then True
                     else allowed_loop h w pats)))"

definition Allowed :: "string \<Rightarrow> string list \<Rightarrow> bool" where
  "Allowed hostname patterns =
     (let h = canonical hostname in
      if h = [] then False else allowed_loop h (contains h ''*'') patterns)"

definition Refusal :: "string \<Rightarrow> string list \<Rightarrow> string" where
  "Refusal hostname patterns =
     (if patterns = [] then
        ''hostname '' @ quote hostname @ '' refused: this cluster has no allowed domains configured''
      else
        ''hostname '' @ quote hostname @ '' refused: not covered by this cluster's allowed domains ['' @
        join patterns '', '' @ ''] (wildcards match one label)'')"

section \<open>The rule\<close>

text \<open>
  A pattern covers a hostname if the two are the same name, or if the hostname is not a
  wildcard, the pattern is \<open>*.rest\<close> and the hostname is one nonempty label followed by
  \<open>.rest\<close>.  The empty name is neither covered nor covering.
\<close>

definition covers :: "string \<Rightarrow> string \<Rightarrow> bool" where
  "covers pat host \<longleftrightarrow>
     canonical pat \<noteq> [] \<and> canonical host \<noteq> [] \<and>
     (canonical host = canonical pat \<or>
      (CHR ''*'' \<notin> set (canonical host) \<and>
       (\<exists>label rest. canonical pat = ''*.'' @ rest \<and> canonical host = label @ ''.'' @ rest \<and>
          label \<noteq> [] \<and> CHR ''.'' \<notin> set label)))"

lemma contains_singleton [simp]: "contains s [c] \<longleftrightarrow> c \<in> set s"
  by (auto simp: contains_iff in_set_conv_decomp)

text \<open>The one-label test of the loop: the text after the first dot is \<open>rest\<close>.\<close>

lemma one_label_iff:
  "(\<exists>dot. index_byte h CHR ''.'' = Some dot \<and> 0 < dot \<and> drop (Suc dot) h = rest) \<longleftrightarrow>
   (\<exists>label. h = label @ ''.'' @ rest \<and> label \<noteq> [] \<and> CHR ''.'' \<notin> set label)"
proof
  assume "\<exists>dot. index_byte h CHR ''.'' = Some dot \<and> 0 < dot \<and> drop (Suc dot) h = rest"
  then obtain dot where d: "dot < length h" "h ! dot = CHR ''.''" "CHR ''.'' \<notin> set (take dot h)"
    "0 < dot" "drop (Suc dot) h = rest"
    by (auto simp: index_byte_Some)
  then have "h = take dot h @ ''.'' @ rest" using id_take_nth_drop [of dot h] by simp
  moreover have "take dot h \<noteq> []" using d by (cases h) auto
  ultimately show "\<exists>label. h = label @ ''.'' @ rest \<and> label \<noteq> [] \<and> CHR ''.'' \<notin> set label"
    using d(3) by blast
next
  assume "\<exists>label. h = label @ ''.'' @ rest \<and> label \<noteq> [] \<and> CHR ''.'' \<notin> set label"
  then obtain label where l: "h = label @ ''.'' @ rest" "label \<noteq> []" "CHR ''.'' \<notin> set label"
    by blast
  then have "index_byte h CHR ''.'' = Some (length label)" by (simp add: index_byte_Some)
  moreover have "0 < length label" using l(2) by simp
  moreover have "drop (Suc (length label)) h = rest" using l(1) by simp
  ultimately show "\<exists>dot. index_byte h CHR ''.'' = Some dot \<and> 0 < dot \<and> drop (Suc dot) h = rest"
    by blast
qed

lemma allowed_loop_step:
  assumes "h \<noteq> []"
  shows "allowed_loop h (CHR ''*'' \<in> set h) (pat # pats) \<longleftrightarrow>
     (canonical pat \<noteq> [] \<and>
      (h = canonical pat \<or>
       (CHR ''*'' \<notin> set h \<and>
        (\<exists>label rest. canonical pat = ''*.'' @ rest \<and> h = label @ ''.'' @ rest \<and>
           label \<noteq> [] \<and> CHR ''.'' \<notin> set label)))) \<or>
     allowed_loop h (CHR ''*'' \<in> set h) pats"
proof (cases "cut_prefix (canonical pat) ''*.''")
  case None
  then have "\<nexists>rest. canonical pat = ''*.'' @ rest" by (metis cut_prefix_Some option.distinct(1))
  then show ?thesis using None by (auto simp: Let_def)
next
  case (Some rest)
  then have p: "canonical pat = ''*.'' @ rest" by (simp add: cut_prefix_Some)
  have "(\<exists>label r. canonical pat = ''*.'' @ r \<and> h = label @ ''.'' @ r \<and> label \<noteq> [] \<and>
      CHR ''.'' \<notin> set label) \<longleftrightarrow>
      (\<exists>dot. index_byte h CHR ''.'' = Some dot \<and> 0 < dot \<and> drop (Suc dot) h = rest)"
    unfolding one_label_iff p by auto
  then show ?thesis
    using Some p by (cases "index_byte h CHR ''.''") (auto simp: Let_def)
qed

lemma allowed_loop_iff:
  assumes "canonical host \<noteq> []"
  shows "allowed_loop (canonical host) (CHR ''*'' \<in> set (canonical host)) pats \<longleftrightarrow>
     (\<exists>pat \<in> set pats. covers pat host)"
proof (induction pats)
  case (Cons pat pats)
  show ?case
    unfolding allowed_loop_step [OF assms] Cons covers_def using assms by auto
qed simp

lemma Allowed_covers: "Allowed host patterns = (\<exists>pat \<in> set patterns. covers pat host)"
  by (rule iffI) (auto simp: Allowed_def Let_def allowed_loop_iff covers_def split: if_splits)

text \<open>
  Claim C8. The hostname authority decides exactly the documented rule: \<open>Allowed\<close> accepts a
  hostname if and only if some pattern covers it, that is, is the same name up to case,
  surrounding space and a trailing dot, or is a wildcard \<open>*.rest\<close> of which the hostname (not
  itself a wildcard) is one nonempty dot-free label followed by \<open>.rest\<close>.
\<close>

theorem Allowed_iff_covers:
  "Allowed host patterns \<longleftrightarrow> (\<exists>pat \<in> set patterns. covers pat host)"
  by (rule Allowed_covers)

section \<open>What the rule excludes\<close>

lemma Allowed_empty_patterns [simp]: "\<not> Allowed host []"
  by (simp add: Allowed_covers)

lemma Allowed_empty_host [simp]: "\<not> Allowed [] patterns"
  by (simp add: Allowed_def canonical_def trim_space_def trim_right_def trim_left_def
      trim_suffix_def to_lower_def)

lemma Allowed_canonical_cong:
  "canonical host = canonical host' \<Longrightarrow> Allowed host patterns = Allowed host' patterns"
  by (simp add: Allowed_covers covers_def)

text \<open>The labels of a name, as DNS counts them.\<close>

definition labels :: "string \<Rightarrow> string list" where
  "labels s = split_on CHR ''.'' s"

lemma labels_label: "CHR ''.'' \<notin> set l \<Longrightarrow> labels (l @ ''.'' @ rest) = l # labels rest"
  by (simp add: labels_def split_on_append)

text \<open>
  A grant never reaches further than the operator wrote: whatever pattern covers a
  hostname has exactly as many labels as the hostname and agrees with it on every label but the
  first; where the first labels differ the pattern's is \<open>*\<close> and the hostname is not a wildcard,
  so a wildcard hostname is only authorised by the identical pattern.
\<close>

theorem Allowed_label_by_label:
  assumes "Allowed host patterns"
  shows "\<exists>pat \<in> set patterns.
     length (labels (canonical host)) = length (labels (canonical pat)) \<and>
     tl (labels (canonical host)) = tl (labels (canonical pat)) \<and>
     (hd (labels (canonical host)) \<noteq> hd (labels (canonical pat)) \<longrightarrow>
        hd (labels (canonical pat)) = ''*'' \<and> CHR ''*'' \<notin> set (canonical host)) \<and>
     (CHR ''*'' \<in> set (canonical host) \<longrightarrow> canonical host = canonical pat)"
proof -
  from assms obtain pat where pat: "pat \<in> set patterns" "covers pat host"
    by (auto simp: Allowed_covers)
  show ?thesis
  proof (cases "canonical host = canonical pat")
    case True
    with pat(1) show ?thesis by (intro bexI [of _ pat]) auto
  next
    case False
    with pat(2) obtain label rest where lr: "canonical pat = ''*.'' @ rest"
      "canonical host = label @ ''.'' @ rest" "CHR ''.'' \<notin> set label"
      "CHR ''*'' \<notin> set (canonical host)"
      by (auto simp: covers_def)
    have "labels (canonical pat) = ''*'' # labels rest"
      using labels_label [of "''*''" rest] lr(1) by simp
    moreover have "labels (canonical host) = label # labels rest"
      using labels_label [OF lr(3)] lr(2) by simp
    ultimately show ?thesis using lr(4) pat(1) by (intro bexI [of _ pat]) auto
  qed
qed

theorem Allowed_label_by_label_witness:
  "\<exists>pat \<in> set [''*.apps.example.com''].
     length (labels (canonical ''Web.apps.example.com.'')) = length (labels (canonical pat)) \<and>
     tl (labels (canonical ''Web.apps.example.com.'')) = tl (labels (canonical pat)) \<and>
     (hd (labels (canonical ''Web.apps.example.com.'')) \<noteq> hd (labels (canonical pat)) \<longrightarrow>
        hd (labels (canonical pat)) = ''*'' \<and> CHR ''*'' \<notin> set (canonical ''Web.apps.example.com.'')) \<and>
     (CHR ''*'' \<in> set (canonical ''Web.apps.example.com.'') \<longrightarrow>
        canonical ''Web.apps.example.com.'' = canonical pat)"
proof -
  have "Allowed ''Web.apps.example.com.'' [''*.apps.example.com'']" by code_simp
  from Allowed_label_by_label [OF this] show ?thesis .
qed

lemma Refusal_not_Nil [simp]: "Refusal host patterns \<noteq> []"
  by (simp add: Refusal_def)

end
