(* ===== verification/IngressMap.thy ===== *)
theory IngressMap
  imports Ownership Hostname
begin

text \<open>
  The Ingress syncer, internal/syncer/ingress.go: the host Ingress a guest Ingress becomes, the
  guest Services it needs as backends, and a refusal for everything that is not carried.  The
  loops collect their results as triples of carried items, backend names and refusals.
\<close>

record ingress_result =
  ir_host_ingress :: "ingress option"
  ir_backends :: "string list"
  ir_refusals :: "string list"

section \<open>Messages\<close>

definition msg_default_backend :: string where
  "msg_default_backend = ''defaultBackend refused: it would receive traffic for every hostname, '' @
     ''which cannot be authorized per-domain''"

definition msg_not_service :: "string \<Rightarrow> string \<Rightarrow> string" where
  "msg_not_service path host = ''path '' @ quote path @ '' on host '' @ quote host @
     '' refused: only Service backends can be carried to the host''"

definition msg_path_backend :: "string \<Rightarrow> string \<Rightarrow> string \<Rightarrow> string \<Rightarrow> string" where
  "msg_path_backend path host name msg = ''path '' @ quote path @ '' on host '' @ quote host @
     '': backend service '' @ quote name @ '': '' @ msg"

section \<open>The mapping\<close>

definition newHostIngress :: "tenant_cluster \<Rightarrow> ingress \<Rightarrow> ingress" where
  "newHostIngress tc guest = \<lparr>
     ing_meta = no_meta\<lparr>
       om_name := HostObjectName (tc_name tc) (om_namespace (ing_meta guest)) (om_name (ing_meta guest)),
       om_namespace := host_ns tc,
       om_labels := ownershipLabels tc (ing_meta guest)\<rparr>,
     ing_spec = \<lparr>
       ins_class = (if ingressClassName (tc_spec tc) \<noteq> [] then Some (ingressClassName (tc_spec tc)) else None),
       ins_defaultBackend = None, ins_rules = [], ins_tls = []\<rparr>,
     ing_lbStatus = []\<rparr>"

text \<open>The host path of a guest path whose backend is the guest Service \<open>b\<close>.\<close>

definition host_path :: "tenant_cluster \<Rightarrow> string \<Rightarrow> ingress_backend \<Rightarrow> http_path \<Rightarrow> http_path" where
  "host_path tc ns b path = path\<lparr>hp_service :=
     Some \<lparr>ib_name = HostObjectName (tc_name tc) ns (ib_name b), ib_port = ib_port b\<rparr>\<rparr>"

fun map_paths ::
  "tenant_cluster \<Rightarrow> string \<Rightarrow> (string \<Rightarrow> string) \<Rightarrow> string \<Rightarrow> http_path list \<Rightarrow>
     http_path list \<times> string list \<times> string list" where
  "map_paths tc ns resolveBackend host [] = ([], [], [])"
| "map_paths tc ns resolveBackend host (path # paths) =
     (let (out, backends, refusals) = map_paths tc ns resolveBackend host paths in
      case hp_service path of
        None \<Rightarrow> (out, backends, msg_not_service (hp_path path) host # refusals)
      | Some b \<Rightarrow>
          let msg = resolveBackend (ib_name b) in
          if msg \<noteq> [] then
            (out, backends, msg_path_backend (hp_path path) host (ib_name b) msg # refusals)
          else (host_path tc ns b path # out, ib_name b # backends, refusals))"

fun map_rules ::
  "tenant_cluster \<Rightarrow> string \<Rightarrow> (string \<Rightarrow> string) \<Rightarrow> ingress_rule list \<Rightarrow>
     ingress_rule list \<times> string list \<times> string list" where
  "map_rules tc ns resolveBackend [] = ([], [], [])"
| "map_rules tc ns resolveBackend (rule # rules) =
     (let (out, backends, refusals) = map_rules tc ns resolveBackend rules in
      if \<not> Allowed (ir_host rule) (domains tc) then
        (out, backends, Refusal (ir_host rule) (domains tc) # refusals)
      else case ir_http rule of
        None \<Rightarrow> (out, backends, refusals)
      | Some paths \<Rightarrow>
          let (ps, bs, rs) = map_paths tc ns resolveBackend (ir_host rule) paths in
          ((if ps \<noteq> [] then \<lparr>ir_host = ir_host rule, ir_http = Some ps\<rparr> # out else out),
           bs @ backends, rs @ refusals))"

fun map_tls :: "tenant_cluster \<Rightarrow> ingress_tls list \<Rightarrow> ingress_tls list \<times> string list" where
  "map_tls tc [] = ([], [])"
| "map_tls tc (tls # rest) =
     (let (out, refusals) = map_tls tc rest;
          hosts = filter (\<lambda>h. Allowed h (domains tc)) (it_hosts tls);
          rs = map (\<lambda>h. ''tls: '' @ Refusal h (domains tc))
                 (filter (\<lambda>h. \<not> Allowed h (domains tc)) (it_hosts tls))
      in ((if hosts \<noteq> [] then \<lparr>it_hosts = hosts, it_secretName = []\<rparr> # out else out), rs @ refusals))"

definition mapIngress ::
  "tenant_cluster \<Rightarrow> ingress \<Rightarrow> (string \<Rightarrow> string) \<Rightarrow> ingress_result" where
  "mapIngress tc guest resolveBackend =
     (let spec = ing_spec guest;
          r0 = (if ins_defaultBackend spec \<noteq> None then [msg_default_backend] else []);
          (rules, backends, rs) =
            map_rules tc (om_namespace (ing_meta guest)) resolveBackend (ins_rules spec);
          (tls, ts) = (if rules \<noteq> [] then map_tls tc (ins_tls spec) else ([], []));
          h = newHostIngress tc guest
      in \<lparr>ir_host_ingress =
            (if rules \<noteq> [] then Some (h\<lparr>ing_spec := (ing_spec h)\<lparr>ins_rules := rules, ins_tls := tls\<rparr>\<rparr>)
             else None),
          ir_backends = sort (remdups backends),
          ir_refusals = r0 @ rs @ ts\<rparr>)"

section \<open>Facts\<close>

text \<open>The references of host rules: the backend Service names their paths carry.\<close>

definition path_backend :: "http_path \<Rightarrow> string option" where
  "path_backend p = map_option ib_name (hp_service p)"

definition rule_paths :: "ingress_rule \<Rightarrow> http_path list" where
  "rule_paths r = (case ir_http r of None \<Rightarrow> [] | Some ps \<Rightarrow> ps)"

definition carried_path :: "tenant_cluster \<Rightarrow> string \<Rightarrow> (string \<Rightarrow> string) \<Rightarrow> http_path \<Rightarrow> bool" where
  "carried_path tc ns resolve p \<longleftrightarrow> (\<exists>b. hp_service p = Some b \<and> resolve (ib_name b) = [])"

lemma map_paths_out:
  "fst (map_paths tc ns resolve host paths) =
     map (\<lambda>p. host_path tc ns (the (hp_service p)) p) (filter (carried_path tc ns resolve) paths)"
  "fst (snd (map_paths tc ns resolve host paths)) =
     map (\<lambda>p. ib_name (the (hp_service p))) (filter (carried_path tc ns resolve) paths)"
proof (induction paths)
  case (Cons p ps)
  obtain out bs rf where eq: "map_paths tc ns resolve host ps = (out, bs, rf)" by (metis prod_cases3)
  case 1
  then show ?case using Cons eq by (cases "hp_service p") (simp_all add: carried_path_def)
  case 2
  then show ?case using Cons eq by (cases "hp_service p") (simp_all add: carried_path_def)
qed simp_all

lemma map_paths_refusals:
  "length (snd (snd (map_paths tc ns resolve host paths))) =
     length (filter (\<lambda>p. \<not> carried_path tc ns resolve p) paths)"
proof (induction paths)
  case (Cons p ps)
  obtain out bs rf where eq: "map_paths tc ns resolve host ps = (out, bs, rf)" by (metis prod_cases3)
  then show ?case using Cons by (cases "hp_service p") (simp_all add: carried_path_def)
qed simp

text \<open>A guest rule as the host carries it: only its carried paths, rewritten.\<close>

definition host_rule :: "tenant_cluster \<Rightarrow> string \<Rightarrow> (string \<Rightarrow> string) \<Rightarrow> ingress_rule \<Rightarrow> ingress_rule" where
  "host_rule tc ns resolve r = \<lparr>ir_host = ir_host r,
     ir_http = Some (map (\<lambda>p. host_path tc ns (the (hp_service p)) p)
       (filter (carried_path tc ns resolve) (rule_paths r)))\<rparr>"

definition carried_rule :: "tenant_cluster \<Rightarrow> string \<Rightarrow> (string \<Rightarrow> string) \<Rightarrow> ingress_rule \<Rightarrow> bool" where
  "carried_rule tc ns resolve r \<longleftrightarrow>
     Allowed (ir_host r) (domains tc) \<and> filter (carried_path tc ns resolve) (rule_paths r) \<noteq> []"

lemma map_rules_out:
  "fst (map_rules tc ns resolve rules) =
     map (host_rule tc ns resolve) (filter (carried_rule tc ns resolve) rules)"
proof (induction rules)
  case (Cons r rs)
  obtain out bs rf where eq: "map_rules tc ns resolve rs = (out, bs, rf)" by (metis prod_cases3)
  show ?case
  proof (cases "ir_http r")
    case None
    then show ?thesis using Cons eq by (simp add: carried_rule_def rule_paths_def)
  next
    case (Some paths)
    obtain ps b' r' where mp: "map_paths tc ns resolve (ir_host r) paths = (ps, b', r')"
      by (metis prod_cases3)
    have "ps = map (\<lambda>p. host_path tc ns (the (hp_service p)) p) (filter (carried_path tc ns resolve) paths)"
      using map_paths_out(1) [of tc ns resolve "ir_host r" paths] mp by simp
    then show ?thesis
      using Cons eq mp Some by (simp add: carried_rule_def rule_paths_def host_rule_def)
  qed
qed simp

definition carried_names :: "tenant_cluster \<Rightarrow> string \<Rightarrow> (string \<Rightarrow> string) \<Rightarrow> ingress_rule list \<Rightarrow> string list" where
  "carried_names tc ns resolve rules =
     concat (map (\<lambda>r. map (\<lambda>p. ib_name (the (hp_service p)))
       (filter (carried_path tc ns resolve) (rule_paths r))) (filter (carried_rule tc ns resolve) rules))"

lemma map_rules_backends:
  "fst (snd (map_rules tc ns resolve rules)) = carried_names tc ns resolve rules"
proof (induction rules)
  case (Cons r rs)
  obtain out bs rf where eq: "map_rules tc ns resolve rs = (out, bs, rf)" by (metis prod_cases3)
  show ?case
  proof (cases "ir_http r")
    case None
    then show ?thesis using Cons eq by (simp add: carried_rule_def rule_paths_def carried_names_def)
  next
    case (Some paths)
    obtain ps b' r' where mp: "map_paths tc ns resolve (ir_host r) paths = (ps, b', r')"
      by (metis prod_cases3)
    have "b' = map (\<lambda>p. ib_name (the (hp_service p))) (filter (carried_path tc ns resolve) paths)"
      using map_paths_out(2) [of tc ns resolve "ir_host r" paths] mp by simp
    then show ?thesis
      using Cons eq mp Some by (simp add: carried_rule_def rule_paths_def carried_names_def)
  qed
qed (simp add: carried_names_def)

lemma map_rules_no_refusals:
  "snd (snd (map_rules tc ns resolve rules)) = [] \<longleftrightarrow>
     (\<forall>r \<in> set rules. Allowed (ir_host r) (domains tc) \<and>
        (\<forall>p \<in> set (rule_paths r). carried_path tc ns resolve p))"
proof (induction rules)
  case (Cons r rs)
  obtain out bs rf where eq: "map_rules tc ns resolve rs = (out, bs, rf)" by (metis prod_cases3)
  show ?case
  proof (cases "ir_http r")
    case None
    then show ?thesis using Cons eq by (simp add: rule_paths_def)
  next
    case (Some paths)
    obtain ps b' r' where mp: "map_paths tc ns resolve (ir_host r) paths = (ps, b', r')"
      by (metis prod_cases3)
    have "r' = [] \<longleftrightarrow> (\<forall>p \<in> set paths. carried_path tc ns resolve p)"
      using map_paths_refusals [of tc ns resolve "ir_host r" paths] mp
      by (metis (mono_tags, lifting) filter_False length_0_conv filter_empty_conv snd_conv)
    then show ?thesis using Cons eq mp Some by (auto simp: rule_paths_def)
  qed
qed simp

lemma map_tls_out:
  "fst (map_tls tc tls) =
     map (\<lambda>t. \<lparr>it_hosts = filter (\<lambda>h. Allowed h (domains tc)) (it_hosts t), it_secretName = []\<rparr>)
       (filter (\<lambda>t. \<exists>h \<in> set (it_hosts t). Allowed h (domains tc)) tls)"
proof (induction tls)
  case (Cons t ts)
  then show ?case
    by (cases "map_tls tc ts") (auto simp: Let_def filter_empty_conv)
qed simp

lemma map_tls_no_refusals:
  "snd (map_tls tc tls) = [] \<longleftrightarrow> (\<forall>t \<in> set tls. \<forall>h \<in> set (it_hosts t). Allowed h (domains tc))"
proof (induction tls)
  case (Cons t ts)
  then show ?case
    by (cases "map_tls tc ts") (auto simp: Let_def filter_empty_conv)
qed simp

text \<open>The whole mapping in closed form.\<close>

lemma mapIngress_host:
  "ir_host_ingress (mapIngress tc g resolve) =
     (let ns = om_namespace (ing_meta g);
          rules = filter (carried_rule tc ns resolve) (ins_rules (ing_spec g));
          h = newHostIngress tc g
      in if rules = [] then None
         else Some (h\<lparr>ing_spec := (ing_spec h)\<lparr>
           ins_rules := map (host_rule tc ns resolve) rules,
           ins_tls := fst (map_tls tc (ins_tls (ing_spec g)))\<rparr>\<rparr>))"
proof -
  let ?m = "map_rules tc (om_namespace (ing_meta g)) resolve (ins_rules (ing_spec g))"
  obtain rules bs rs where m: "?m = (rules, bs, rs)" by (metis prod_cases3)
  obtain tls ts where t: "map_tls tc (ins_tls (ing_spec g)) = (tls, ts)" by (metis surj_pair)
  have "rules = map (host_rule tc (om_namespace (ing_meta g)) resolve)
      (filter (carried_rule tc (om_namespace (ing_meta g)) resolve) (ins_rules (ing_spec g)))"
    using map_rules_out [of tc "om_namespace (ing_meta g)" resolve "ins_rules (ing_spec g)"] m by simp
  then show ?thesis using m t by (simp add: mapIngress_def Let_def)
qed

lemma mapIngress_backends:
  "ir_backends (mapIngress tc g resolve) =
     sort (remdups (carried_names tc (om_namespace (ing_meta g)) resolve (ins_rules (ing_spec g))))"
proof -
  let ?m = "map_rules tc (om_namespace (ing_meta g)) resolve (ins_rules (ing_spec g))"
  obtain rules bs rs where m: "?m = (rules, bs, rs)" by (metis prod_cases3)
  then have "bs = carried_names tc (om_namespace (ing_meta g)) resolve (ins_rules (ing_spec g))"
    using map_rules_backends [of tc "om_namespace (ing_meta g)" resolve "ins_rules (ing_spec g)"] by simp
  with m show ?thesis by (simp add: mapIngress_def Let_def split: prod.split)
qed

lemma mapIngress_refusals:
  "ir_refusals (mapIngress tc g resolve) =
     (if ins_defaultBackend (ing_spec g) \<noteq> None then [msg_default_backend] else []) @
     snd (snd (map_rules tc (om_namespace (ing_meta g)) resolve (ins_rules (ing_spec g)))) @
     (if ir_host_ingress (mapIngress tc g resolve) \<noteq> None then snd (map_tls tc (ins_tls (ing_spec g)))
      else [])"
  by (simp add: mapIngress_def Let_def split: prod.split)

section \<open>What a host Ingress publishes\<close>

text \<open>Every hostname an Ingress serves traffic for: those of its rules and of its TLS sections.\<close>

definition published_hosts :: "ingress \<Rightarrow> string set" where
  "published_hosts h =
     ir_host ` set (ins_rules (ing_spec h)) \<union> (\<Union>t \<in> set (ins_tls (ing_spec h)). set (it_hosts t))"

text \<open>The Services an Ingress sends traffic to; \<^const>\<open>None\<close> stands for a path with no Service.\<close>

definition routed_services :: "ingress \<Rightarrow> string option set" where
  "routed_services h = path_backend ` (\<Union>r \<in> set (ins_rules (ing_spec h)). set (rule_paths r))"

lemma newHostIngress_simps [simp]:
  "om_name (ing_meta (newHostIngress tc g)) =
     HostObjectName (tc_name tc) (om_namespace (ing_meta g)) (om_name (ing_meta g))"
  "om_namespace (ing_meta (newHostIngress tc g)) = host_ns tc"
  "om_labels (ing_meta (newHostIngress tc g)) = ownershipLabels tc (ing_meta g)"
  "om_annotations (ing_meta (newHostIngress tc g)) = Map.empty"
  "ins_defaultBackend (ing_spec (newHostIngress tc g)) = None"
  by (simp_all add: newHostIngress_def no_meta_def)

lemma mapIngress_host_Some:
  "ir_host_ingress (mapIngress tc g resolve) = Some h \<longleftrightarrow>
     (\<exists>rules. rules = filter (carried_rule tc (om_namespace (ing_meta g)) resolve) (ins_rules (ing_spec g)) \<and>
        rules \<noteq> [] \<and>
        h = (newHostIngress tc g)\<lparr>ing_spec := (ing_spec (newHostIngress tc g))\<lparr>
          ins_rules := map (host_rule tc (om_namespace (ing_meta g)) resolve) rules,
          ins_tls := fst (map_tls tc (ins_tls (ing_spec g)))\<rparr>\<rparr>)"
  unfolding mapIngress_host Let_def by auto

lemma mapIngress_published:
  assumes "ir_host_ingress (mapIngress tc g resolve) = Some h"
  shows "published_hosts h \<subseteq> {x. Allowed x (domains tc)}"
  using assms unfolding mapIngress_host_Some published_hosts_def
  by (auto simp: map_tls_out host_rule_def carried_rule_def)

lemma rule_paths_host_rule:
  "rule_paths (host_rule tc ns resolve r) =
     map (\<lambda>p. host_path tc ns (the (hp_service p)) p) (filter (carried_path tc ns resolve) (rule_paths r))"
  by (simp add: host_rule_def rule_paths_def)

lemma path_backend_host_path [simp]:
  "path_backend (host_path tc ns b p) = Some (HostObjectName (tc_name tc) ns (ib_name b))"
  by (simp add: path_backend_def host_path_def)

lemma mapIngress_routed:
  assumes "ir_host_ingress (mapIngress tc g resolve) = Some h"
  shows "routed_services h =
     (\<lambda>n. Some (HostObjectName (tc_name tc) (om_namespace (ing_meta g)) n)) `
       set (ir_backends (mapIngress tc g resolve))"
proof -
  let ?ns = "om_namespace (ing_meta g)"
  let ?rules = "filter (carried_rule tc ?ns resolve) (ins_rules (ing_spec g))"
  have "set (ins_rules (ing_spec h)) = host_rule tc ?ns resolve ` set ?rules"
    using assms unfolding mapIngress_host_Some by auto
  then have "routed_services h =
      (\<lambda>p. Some (HostObjectName (tc_name tc) ?ns (ib_name (the (hp_service p))))) `
        (\<Union>r \<in> set ?rules. set (filter (carried_path tc ?ns resolve) (rule_paths r)))"
    by (simp add: routed_services_def rule_paths_host_rule image_UN image_image)
  moreover have "set (ir_backends (mapIngress tc g resolve)) =
      (\<lambda>p. ib_name (the (hp_service p))) `
        (\<Union>r \<in> set ?rules. set (filter (carried_path tc ?ns resolve) (rule_paths r)))"
    unfolding mapIngress_backends set_sort set_remdups carried_names_def set_concat set_map image_UN
    by simp
  ultimately show ?thesis by (simp add: image_image)
qed

lemma mapIngress_backends_reachable:
  "n \<in> set (ir_backends (mapIngress tc g resolve)) \<Longrightarrow> resolve n = []"
  unfolding mapIngress_backends by (auto simp: carried_names_def carried_path_def)

lemma mapIngress_no_host_no_backends:
  "ir_host_ingress (mapIngress tc g resolve) = None \<Longrightarrow> ir_backends (mapIngress tc g resolve) = []"
  unfolding mapIngress_host mapIngress_backends
  by (simp add: Let_def carried_names_def split: if_splits)

lemma mapIngress_meta:
  assumes "ir_host_ingress (mapIngress tc g resolve) = Some h"
  shows "ing_meta h = ing_meta (newHostIngress tc g)"
  using assms unfolding mapIngress_host_Some by auto

text \<open>
  Claim C21. An Ingress is published on the host only under hostnames the operator's
  \<open>allowedDomains\<close> cover: every hostname of a rule or of a TLS section is \<open>Allowed\<close>, no default
  backend catches the rest, no Secret of the guest is named for a certificate, no annotation of
  the guest is carried, and the class is the operator's.  (No host Ingress is the set \<open>None\<close>.)
\<close>

theorem mapIngress_publishes_only_allowed:
  "set_option (ir_host_ingress (mapIngress tc g resolve)) \<subseteq>
     {h. published_hosts h \<subseteq> {x. Allowed x (domains tc)} \<and>
         ins_defaultBackend (ing_spec h) = None \<and>
         it_secretName ` set (ins_tls (ing_spec h)) \<subseteq> {[]} \<and>
         om_annotations (ing_meta h) = Map.empty \<and> om_labels (ing_meta h) = ownershipLabels tc (ing_meta g) \<and>
         om_namespace (ing_meta h) = host_ns tc \<and>
         ins_class (ing_spec h) =
           (if ingressClassName (tc_spec tc) = [] then None else Some (ingressClassName (tc_spec tc)))}"
proof (clarify, goal_cases)
  case (1 h)
  then have s: "ir_host_ingress (mapIngress tc g resolve) = Some h" by simp
  then have "it_secretName ` set (ins_tls (ing_spec h)) \<subseteq> {[]}"
    unfolding mapIngress_host_Some by (auto simp: map_tls_out)
  moreover have "ins_defaultBackend (ing_spec h) = None \<and> ins_class (ing_spec h) =
      (if ingressClassName (tc_spec tc) = [] then None else Some (ingressClassName (tc_spec tc)))"
    using s unfolding mapIngress_host_Some by (auto simp: newHostIngress_def)
  ultimately show ?case using mapIngress_published [OF s] mapIngress_meta [OF s] by simp
qed

text \<open>
  Traffic of a host Ingress goes to the tenant's own mapped backends and nowhere else:
  the Services its paths name are exactly the host names of the guest Services the mapping asks
  backends for, every one of which the resolver accepts, and that list is sorted and without
  repetition, so that the pass is the same whatever order a map was iterated in.
\<close>

theorem mapIngress_backends_exact:
  "sorted (ir_backends (mapIngress tc g resolve)) \<and> distinct (ir_backends (mapIngress tc g resolve)) \<and>
   resolve ` set (ir_backends (mapIngress tc g resolve)) \<subseteq> {[]} \<and>
   (case ir_host_ingress (mapIngress tc g resolve) of
      None \<Rightarrow> ir_backends (mapIngress tc g resolve) = []
    | Some h \<Rightarrow> routed_services h =
        (\<lambda>n. Some (HostObjectName (tc_name tc) (om_namespace (ing_meta g)) n)) `
          set (ir_backends (mapIngress tc g resolve)))"
proof -
  have "sorted (ir_backends (mapIngress tc g resolve))" "distinct (ir_backends (mapIngress tc g resolve))"
    unfolding mapIngress_backends by simp_all
  then show ?thesis
    using mapIngress_backends_reachable mapIngress_routed mapIngress_no_host_no_backends
    by (auto split: option.split)
qed

text \<open>
  Nothing of an Ingress is dropped without a word: the mapping reports no refusal
  exactly if there is no default backend, every rule's hostname is allowed and each of its paths
  has a Service backend the host can reach, and (when anything is published) every TLS hostname
  is allowed.
\<close>

theorem mapIngress_refuses_iff:
  "ir_refusals (mapIngress tc g resolve) = [] \<longleftrightarrow>
     ins_defaultBackend (ing_spec g) = None \<and>
     set (ins_rules (ing_spec g)) \<subseteq>
       {r. Allowed (ir_host r) (domains tc) \<and>
           set (rule_paths r) \<subseteq> {p. \<exists>b. hp_service p = Some b \<and> resolve (ib_name b) = []}} \<and>
     (ir_host_ingress (mapIngress tc g resolve) = None \<or>
      (\<Union>t \<in> set (ins_tls (ing_spec g)). set (it_hosts t)) \<subseteq> {h. Allowed h (domains tc)})"
  unfolding mapIngress_refusals append_is_Nil_conv map_rules_no_refusals
  by (cases "ir_host_ingress (mapIngress tc g resolve) = None")
    (auto simp: map_tls_no_refusals carried_path_def)

end
