(* ===== verification/GatewayMap.thy ===== *)
theory GatewayMap
  imports Ownership Hostname
begin

text \<open>
  The Gateway API syncer, internal/syncer/gateway.go: the GatewayClass mirrored into a guest,
  and the host Gateway and HTTPRoute a guest Gateway and HTTPRoute become.  The body of each
  loop is one function that returns what one element adds to the results.
\<close>

section \<open>Constants and messages\<close>

definition ManagedByLabel :: string where "ManagedByLabel = ''app.kubernetes.io/managed-by''"
definition ManagedByValue :: string where "ManagedByValue = FieldManager"

definition GuestGatewayControllerName :: string where
  "GuestGatewayControllerName = ''vcluster.the-it-dept.io/tenant-syncer''"

definition FilterExtensionRef :: string where "FilterExtensionRef = ''ExtensionRef''"
definition FilterRequestMirror :: string where "FilterRequestMirror = ''RequestMirror''"
definition FilterExternalAuth :: string where "FilterExternalAuth = ''ExternalAuth''"
definition KindGateway :: string where "KindGateway = ''Gateway''"
definition KindService :: string where "KindService = ''Service''"

lemma filter_type_neq [simp]: "FilterExtensionRef \<noteq> FilterRequestMirror" "FilterRequestMirror \<noteq> FilterExtensionRef"
  by (simp_all add: FilterExtensionRef_def FilterRequestMirror_def)

definition msg_no_class :: string where
  "msg_no_class = ''Gateway sync is not configured for this cluster: the operator has set no '' @
     ''gatewayClassName on its TenantCluster registration''"

definition msg_addresses :: "string list \<Rightarrow> string" where
  "msg_addresses asked = ''spec.addresses '' @ show_list asked @ '' refused: the host cluster chooses '' @
     ''the address (and therefore the address family) for a Gateway; the assigned addresses are '' @
     ''reported in status.addresses''"

definition msg_listener :: "string \<Rightarrow> string" where
  "msg_listener name = ''listener '' @ quote name @ '' refused: a listener without a hostname accepts '' @
     ''every hostname, which cannot be authorized per-domain''"

definition msg_parent_kind :: "string \<Rightarrow> string" where
  "msg_parent_kind name = ''parentRef '' @ quote name @
     '' refused: only Gateway parents can be carried to the host''"

definition msg_no_parents :: string where
  "msg_no_parents = ''route has no usable Gateway parentRefs; nothing to attach to on the host''"

definition msg_backend_kind :: "string \<Rightarrow> string \<Rightarrow> string" where
  "msg_backend_kind what name = what @ quote name @
     '' refused: only Service backends can be carried to the host''"

definition msg_backend_namespace :: "string \<Rightarrow> string \<Rightarrow> string" where
  "msg_backend_namespace what name = what @ quote name @
     '' refused: cross-namespace backends are not carried to the host''"

definition msg_backend_service :: "string \<Rightarrow> string \<Rightarrow> string \<Rightarrow> string" where
  "msg_backend_service what name msg = what @ quote name @ '': '' @ msg"

definition msg_extension :: "string \<Rightarrow> string \<Rightarrow> string" where
  "msg_extension loc name = loc @ '': ExtensionRef filter '' @ quote name @
     '' refused: host cluster extensions cannot be referenced from a guest route''"

section \<open>The mirrored GatewayClass\<close>

definition describeDomains :: "string list \<Rightarrow> string" where
  "describeDomains ds =
     (if ds = [] then ''(none configured: every Gateway hostname will be refused)''
      else join ds '','')"

definition mirrorGatewayClass :: "tenant_cluster \<Rightarrow> gateway_class" where
  "mirrorGatewayClass tc = \<lparr>
     gc_meta = no_meta\<lparr>
       om_name := gatewayClassName (tc_spec tc),
       om_labels := [ManagedByLabel \<mapsto> ManagedByValue],
       om_annotations := [AllowedDomainsAnnotation \<mapsto> describeDomains (domains tc)]\<rparr>,
     gc_controllerName = GuestGatewayControllerName,
     gc_description = Some ''Published on the host cluster by the tenant syncer.'',
     gc_conditions = []\<rparr>"

definition gatewayClassAcceptedCondition :: "int \<Rightarrow> condition" where
  "gatewayClassAcceptedCondition generation = \<lparr>
     cond_type = ''Accepted'', cond_status = ''True'', cond_reason = ''Accepted'',
     cond_message = ''the host cluster's tenant syncer serves Gateways on this class'',
     cond_generation = generation\<rparr>"

section \<open>Gateways\<close>

text \<open>One listener of the loop: the listener carried, or the refusal.\<close>

definition map_listener :: "tenant_cluster \<Rightarrow> listener \<Rightarrow> string + listener" where
  "map_listener tc l =
     (case l_hostname l of
        None \<Rightarrow> Inl (msg_listener (l_name l))
      | Some h \<Rightarrow>
          if h = [] then Inl (msg_listener (l_name l))
          else if \<not> Allowed h (domains tc) then Inl (Refusal h (domains tc))
          else Inr (l\<lparr>l_tls := map_option (\<lambda>t. t\<lparr>lt_certificateRefs := []\<rparr>) (l_tls l)\<rparr>))"

fun lefts :: "('a + 'b) list \<Rightarrow> 'a list" where
  "lefts [] = []"
| "lefts (Inl x # xs) = x # lefts xs"
| "lefts (Inr _ # xs) = lefts xs"

fun rights :: "('a + 'b) list \<Rightarrow> 'b list" where
  "rights [] = []"
| "rights (Inl _ # xs) = rights xs"
| "rights (Inr y # xs) = y # rights xs"

lemma set_lefts: "x \<in> set (lefts xs) \<longleftrightarrow> Inl x \<in> set xs"
  by (induction xs rule: lefts.induct) auto

lemma set_rights: "y \<in> set (rights xs) \<longleftrightarrow> Inr y \<in> set xs"
  by (induction xs rule: rights.induct) auto

definition mapGateway :: "tenant_cluster \<Rightarrow> gateway \<Rightarrow> gateway option \<times> string list" where
  "mapGateway tc guest =
     (if gatewayClassName (tc_spec tc) = [] then (None, [msg_no_class])
      else
        let addrs = gs_addresses (gw_spec guest);
            r0 = (if addrs \<noteq> [] then [msg_addresses (filter (\<lambda>a. a \<noteq> []) addrs)] else []);
            mapped = map (map_listener tc) (gs_listeners (gw_spec guest));
            listeners = rights mapped;
            refusals = r0 @ lefts mapped
        in if listeners = [] then (None, refusals)
           else (Some \<lparr>
             gw_meta = no_meta\<lparr>
               om_name := HostObjectName (tc_name tc) (om_namespace (gw_meta guest)) (om_name (gw_meta guest)),
               om_namespace := host_ns tc,
               om_labels := ownershipLabels tc (gw_meta guest)\<rparr>,
             gw_spec = \<lparr>gs_className = gatewayClassName (tc_spec tc), gs_listeners = listeners,
               gs_addresses = [], gs_rest = []\<rparr>,
             gw_addresses = []\<rparr>, refusals))"

section \<open>HTTPRoutes\<close>

text \<open>
  What one element of a loop adds: the items carried, the guest Services they need as backends,
  and the refusals.  \<open>collect\<close> joins the contributions in order.
\<close>

type_synonym 'a carried = "'a list \<times> string list \<times> string list"

abbreviation carry :: "'a \<Rightarrow> string list \<Rightarrow> 'a carried" where
  "carry x backends \<equiv> ([x], backends, [])"

abbreviation refused :: "string \<Rightarrow> 'a carried" where
  "refused m \<equiv> ([], [], [m])"

definition collect :: "'a carried list \<Rightarrow> 'a carried" where
  "collect rs = (concat (map fst rs), concat (map (fst \<circ> snd) rs), concat (map (snd \<circ> snd) rs))"

definition not_kind :: "string option \<Rightarrow> string \<Rightarrow> bool" where
  "not_kind k want = (case k of None \<Rightarrow> False | Some v \<Rightarrow> v \<noteq> want)"

definition host_ref :: "tenant_cluster \<Rightarrow> string \<Rightarrow> object_ref \<Rightarrow> object_ref" where
  "host_ref tc guestNS b =
     b\<lparr>or_name := HostObjectName (tc_name tc) guestNS (or_name b), or_namespace := None\<rparr>"

text \<open>The switch of \<open>mapFilters\<close> for one filter; \<open>loc\<close> is its parameter \<open>where\<close>.\<close>

definition map_filter_one ::
  "tenant_cluster \<Rightarrow> string \<Rightarrow> string \<Rightarrow> (string \<Rightarrow> string) \<Rightarrow> http_filter \<Rightarrow> http_filter carried" where
  "map_filter_one tc guestNS loc resolveBackend f =
     (if hf_type f = FilterExtensionRef then
        refused (msg_extension loc (case hf_extensionRef f of None \<Rightarrow> [] | Some n \<Rightarrow> n))
      else if hf_type f = FilterRequestMirror then
        (case hf_requestMirror f of
           None \<Rightarrow> ([], [], [])
         | Some b \<Rightarrow>
             if not_kind (or_kind b) KindService then
               refused (msg_backend_kind (loc @ '': RequestMirror backendRef '') (or_name b))
             else if not_kind (or_namespace b) guestNS then
               refused (msg_backend_namespace (loc @ '': RequestMirror backendRef '') (or_name b))
             else let msg = resolveBackend (or_name b) in
               if msg \<noteq> [] then
                 refused (msg_backend_service (loc @ '': RequestMirror backend service '') (or_name b) msg)
               else carry (f\<lparr>hf_requestMirror := Some (host_ref tc guestNS b)\<rparr>) [or_name b])
      else carry f [])"

definition mapFilters ::
  "tenant_cluster \<Rightarrow> string \<Rightarrow> http_filter list \<Rightarrow> string \<Rightarrow> (string \<Rightarrow> string) \<Rightarrow> http_filter carried" where
  "mapFilters tc guestNS filters loc resolveBackend =
     collect (map (map_filter_one tc guestNS loc resolveBackend) filters)"

text \<open>The body of the loop over the \<open>backendRefs\<close> of rule \<open>i\<close>.\<close>

definition map_backend_ref ::
  "tenant_cluster \<Rightarrow> string \<Rightarrow> nat \<Rightarrow> (string \<Rightarrow> string) \<Rightarrow> backend_ref \<Rightarrow> backend_ref carried" where
  "map_backend_ref tc ns i resolveBackend b =
     (let ref = br_ref b; n = or_name ref; rule = ''rule '' @ show_nat i in
      if not_kind (or_kind ref) KindService then
        refused (msg_backend_kind (rule @ '': backendRef '') n)
      else if not_kind (or_namespace ref) ns then
        refused (msg_backend_namespace (rule @ '': backendRef '') n)
      else let msg = resolveBackend n in
        if msg \<noteq> [] then refused (msg_backend_service (rule @ '': backend service '') n msg)
        else let (bFilters, bRefs, bRefusals) =
               mapFilters tc ns (br_filters b) (rule @ '' backendRef '' @ quote n) resolveBackend
             in ([b\<lparr>br_ref := host_ref tc ns ref, br_filters := bFilters\<rparr>], bRefs @ [n], bRefusals))"

text \<open>The body of the loop over the rules.\<close>

definition map_route_rule ::
  "tenant_cluster \<Rightarrow> string \<Rightarrow> (string \<Rightarrow> string) \<Rightarrow> nat \<times> route_rule \<Rightarrow> route_rule carried" where
  "map_route_rule tc ns resolveBackend ir =
     (let (i, rule) = ir;
          (filters, fRefs, fRefusals) =
            mapFilters tc ns (rr_filters rule) (''rule '' @ show_nat i) resolveBackend;
          (refs, bRefs, bRefusals) =
            collect (map (map_backend_ref tc ns i resolveBackend) (rr_backendRefs rule));
          out = rule\<lparr>rr_filters := filters, rr_backendRefs := refs\<rparr>
      in (if refs \<noteq> [] \<or> rr_backendRefs rule = [] then [out] else [], fRefs @ bRefs, fRefusals @ bRefusals))"

text \<open>The body of the loop over the \<open>parentRefs\<close>.\<close>

definition map_parent :: "tenant_cluster \<Rightarrow> string \<Rightarrow> parent_ref \<Rightarrow> string + parent_ref" where
  "map_parent tc guestNS p =
     (if not_kind (pr_kind p) KindGateway then Inl (msg_parent_kind (pr_name p))
      else let ns = (case pr_namespace p of None \<Rightarrow> guestNS | Some n \<Rightarrow> n)
           in Inr (p\<lparr>pr_name := HostObjectName (tc_name tc) ns (pr_name p), pr_namespace := None\<rparr>))"

record route_result =
  rt_host_route :: "http_route option"
  rt_backends :: "string list"
  rt_refusals :: "string list"

definition mapHTTPRoute ::
  "tenant_cluster \<Rightarrow> http_route \<Rightarrow> (string \<Rightarrow> string) \<Rightarrow> route_result" where
  "mapHTTPRoute tc guest resolveBackend =
     (let ns = om_namespace (rt_meta guest);
          spec = rt_spec guest;
          hostnames = filter (\<lambda>h. Allowed h (domains tc)) (rs_hostnames spec);
          r1 = map (\<lambda>h. Refusal h (domains tc)) (filter (\<lambda>h. \<not> Allowed h (domains tc)) (rs_hostnames spec))
      in if rs_hostnames spec \<noteq> [] \<and> hostnames = [] then
           \<lparr>rt_host_route = None, rt_backends = [], rt_refusals = r1\<rparr>
         else
           let mapped = map (map_parent tc ns) (rs_parentRefs spec);
               parents = rights mapped;
               r2 = r1 @ lefts mapped
           in if parents = [] then
                \<lparr>rt_host_route = None, rt_backends = [], rt_refusals = r2 @ [msg_no_parents]\<rparr>
              else
                let (rules, backends, r3) =
                      collect (map (map_route_rule tc ns resolveBackend) (enumerate 0 (rs_rules spec)))
                in if rules = [] then
                     \<lparr>rt_host_route = None, rt_backends = [], rt_refusals = r2 @ r3\<rparr>
                   else \<lparr>
                     rt_host_route = Some \<lparr>
                       rt_meta = no_meta\<lparr>
                         om_name := HostObjectName (tc_name tc) ns (om_name (rt_meta guest)),
                         om_namespace := host_ns tc,
                         om_labels := ownershipLabels tc (rt_meta guest)\<rparr>,
                       rt_spec = \<lparr>rs_parentRefs = parents, rs_hostnames = hostnames, rs_rules = rules\<rparr>\<rparr>,
                     rt_backends = sort (remdups backends),
                     rt_refusals = r2 @ r3\<rparr>)"

section \<open>Facts on the loops\<close>

lemma set_collect:
  "x \<in> set (fst (collect rs)) \<longleftrightarrow> (\<exists>r \<in> set rs. x \<in> set (fst r))"
  "n \<in> set (fst (snd (collect rs))) \<longleftrightarrow> (\<exists>r \<in> set rs. n \<in> set (fst (snd r)))"
  "m \<in> set (snd (snd (collect rs))) \<longleftrightarrow> (\<exists>r \<in> set rs. m \<in> set (snd (snd r)))"
  by (auto simp: collect_def)

lemma collect_item:
  assumes "collect (map f ys) = (out, names, refusals)" and "x \<in> set out"
  obtains y where "y \<in> set ys" "x \<in> set (fst (f y))" "set (fst (snd (f y))) \<subseteq> set names"
proof -
  have "x \<in> set (fst (collect (map f ys)))" and n: "names = fst (snd (collect (map f ys)))"
    using assms by simp_all
  then obtain y where y: "y \<in> set ys" "x \<in> set (fst (f y))"
    unfolding set_collect by (metis (no_types, lifting) imageE list.set_map)
  moreover have "set (fst (snd (f y))) \<subseteq> set names"
    unfolding n using y(1) set_collect(2) [of _ "map f ys"] by auto
  ultimately show thesis by (rule that)
qed

lemma collect_name:
  assumes "collect (map f ys) = (out, names, refusals)" and "n \<in> set names"
  obtains y where "y \<in> set ys" "n \<in> set (fst (snd (f y)))"
proof -
  have "n \<in> set (fst (snd (collect (map f ys))))" using assms by simp
  then show thesis unfolding set_collect using that by (metis (no_types, lifting) imageE list.set_map)
qed

text \<open>
  The object references a filter follows on the host, and those of a whole route.  Only a filter
  of type \<open>RequestMirror\<close> reads its \<open>requestMirror\<close> field.
\<close>

definition filter_refs :: "http_filter \<Rightarrow> object_ref set" where
  "filter_refs f = (if hf_type f = FilterRequestMirror then set_option (hf_requestMirror f) else {})"

definition backend_refs :: "backend_ref \<Rightarrow> object_ref set" where
  "backend_refs b = insert (br_ref b) (\<Union>f \<in> set (br_filters b). filter_refs f)"

definition rule_refs :: "route_rule \<Rightarrow> object_ref set" where
  "rule_refs r = (\<Union>f \<in> set (rr_filters r). filter_refs f) \<union> (\<Union>b \<in> set (rr_backendRefs r). backend_refs b)"

definition route_refs :: "http_route \<Rightarrow> object_ref set" where
  "route_refs h = (\<Union>r \<in> set (rs_rules (rt_spec h)). rule_refs r)"

definition route_filters :: "http_route \<Rightarrow> http_filter set" where
  "route_filters h = (\<Union>r \<in> set (rs_rules (rt_spec h)).
     set (rr_filters r) \<union> (\<Union>b \<in> set (rr_backendRefs r). set (br_filters b)))"

text \<open>Every other filter crosses as it is; an \<open>ExternalAuth\<close> filter follows a reference too.\<close>

definition crosses_verbatim :: "http_filter \<Rightarrow> bool" where
  "crosses_verbatim f \<longleftrightarrow> hf_type f \<noteq> FilterExtensionRef \<and> hf_type f \<noteq> FilterRequestMirror"

definition auth_refs :: "http_route \<Rightarrow> object_ref set" where
  "auth_refs h = (\<Union>f \<in> route_filters h.
     if hf_type f = FilterExternalAuth then set_option (hf_externalAuth f) else {})"

text \<open>The references a mapping may emit: the tenant's own name of a reachable Service it reports.\<close>

definition mapped_refs :: "tenant_cluster \<Rightarrow> string \<Rightarrow> (string \<Rightarrow> string) \<Rightarrow> string set \<Rightarrow> object_ref set" where
  "mapped_refs tc ns resolve names =
     {r. or_namespace r = None \<and> or_kind r \<in> {None, Some KindService} \<and>
         or_name r \<in> HostObjectName (tc_name tc) ns ` {n \<in> names. resolve n = []}}"

lemma mapped_refs_mono: "A \<subseteq> B \<Longrightarrow> mapped_refs tc ns resolve A \<subseteq> mapped_refs tc ns resolve B"
  by (auto simp: mapped_refs_def)

lemma mapped_refs_weaken:
  "R \<subseteq> mapped_refs tc ns resolve A \<Longrightarrow> A \<subseteq> B \<Longrightarrow> R \<subseteq> mapped_refs tc ns resolve B"
  using mapped_refs_mono by blast

lemma host_ref_mapped:
  "\<not> not_kind (or_kind b) KindService \<Longrightarrow> resolve (or_name b) = [] \<Longrightarrow> or_name b \<in> names \<Longrightarrow>
   host_ref tc ns b \<in> mapped_refs tc ns resolve names"
  by (auto simp: mapped_refs_def host_ref_def not_kind_def split: option.splits)

lemma map_filter_one_out:
  assumes "map_filter_one tc ns loc resolve f = r"
  shows "x \<in> set (fst r) \<Longrightarrow> hf_type x \<noteq> FilterExtensionRef \<and>
     filter_refs x \<subseteq> mapped_refs tc ns resolve (set (fst (snd r)))"
    and "n \<in> set (fst (snd r)) \<Longrightarrow> resolve n = []"
  using assms
  by (auto simp: map_filter_one_def Let_def filter_refs_def intro!: host_ref_mapped
      split: if_splits option.splits)

lemma mapFilters_out:
  assumes "mapFilters tc ns fs loc resolve = (out, bs, rs)"
  shows "x \<in> set out \<Longrightarrow> hf_type x \<noteq> FilterExtensionRef \<and> filter_refs x \<subseteq> mapped_refs tc ns resolve (set bs)"
    and "n \<in> set bs \<Longrightarrow> resolve n = []"
proof -
  have c: "collect (map (map_filter_one tc ns loc resolve) fs) = (out, bs, rs)"
    using assms by (simp add: mapFilters_def)
  { assume "x \<in> set out"
    then obtain f where f: "x \<in> set (fst (map_filter_one tc ns loc resolve f))"
      "set (fst (snd (map_filter_one tc ns loc resolve f))) \<subseteq> set bs" by (rule collect_item [OF c])
    show "hf_type x \<noteq> FilterExtensionRef \<and> filter_refs x \<subseteq> mapped_refs tc ns resolve (set bs)"
      using map_filter_one_out(1) [OF refl f(1)] mapped_refs_weaken [OF _ f(2)] by blast }
  assume "n \<in> set bs"
  then obtain f where "n \<in> set (fst (snd (map_filter_one tc ns loc resolve f)))"
    by (rule collect_name [OF c])
  then show "resolve n = []" by (rule map_filter_one_out(2) [OF refl])
qed

lemma map_backend_ref_out:
  assumes "map_backend_ref tc ns i resolve b = r"
  shows "x \<in> set (fst r) \<Longrightarrow> backend_refs x \<subseteq> mapped_refs tc ns resolve (set (fst (snd r))) \<and>
     FilterExtensionRef \<notin> hf_type ` set (br_filters x)"
    and "n \<in> set (fst (snd r)) \<Longrightarrow> resolve n = []"
proof -
  let ?n = "or_name (br_ref b)"
  obtain fs bs rs where m: "mapFilters tc ns (br_filters b)
      ((''rule '' @ show_nat i) @ '' backendRef '' @ quote ?n) resolve = (fs, bs, rs)"
    by (metis prod_cases3)
  have r: "r = (if not_kind (or_kind (br_ref b)) KindService \<or> not_kind (or_namespace (br_ref b)) ns \<or>
      resolve ?n \<noteq> [] then ([], [], snd (snd r))
      else ([b\<lparr>br_ref := host_ref tc ns (br_ref b), br_filters := fs\<rparr>], bs @ [?n], rs))"
    using assms m by (auto simp: map_backend_ref_def Let_def)
  note out = mapFilters_out [OF m]
  { assume x: "x \<in> set (fst r)"
    have c: "\<not> (not_kind (or_kind (br_ref b)) KindService \<or> not_kind (or_namespace (br_ref b)) ns \<or>
        resolve ?n \<noteq> [])"
    proof
      assume "not_kind (or_kind (br_ref b)) KindService \<or> not_kind (or_namespace (br_ref b)) ns \<or> resolve ?n \<noteq> []"
      then have "r = ([], [], snd (snd r))" by (subst r) (simp only: if_True)
      then have "fst r = []" by (metis fst_conv)
      with x show False by simp
    qed
    then have ok: "\<not> not_kind (or_kind (br_ref b)) KindService" "resolve ?n = []" by blast+
    have r': "r = ([b\<lparr>br_ref := host_ref tc ns (br_ref b), br_filters := fs\<rparr>], bs @ [?n], rs)"
      by (subst r) (simp only: c if_False)
    then have xr: "x = b\<lparr>br_ref := host_ref tc ns (br_ref b), br_filters := fs\<rparr>" "fst (snd r) = bs @ [?n]"
      using x by simp_all
    have ext: "FilterExtensionRef \<notin> hf_type ` set fs" using out(1) by (metis imageE)
    have "(\<Union>f \<in> set fs. filter_refs f) \<subseteq> mapped_refs tc ns resolve (set bs)" using out(1) by blast
    then have "(\<Union>f \<in> set fs. filter_refs f) \<subseteq> mapped_refs tc ns resolve (set (bs @ [?n]))"
      by (rule mapped_refs_weaken) auto
    then show "backend_refs x \<subseteq> mapped_refs tc ns resolve (set (fst (snd r))) \<and>
        FilterExtensionRef \<notin> hf_type ` set (br_filters x)"
      using ok ext host_ref_mapped [of "br_ref b" resolve "set (bs @ [?n])" tc ns] by (auto simp: xr backend_refs_def) }
  assume "n \<in> set (fst (snd r))"
  moreover have "fst (snd r) = [] \<or> fst (snd r) = bs @ [?n] \<and> resolve ?n = []"
  proof (cases "not_kind (or_kind (br_ref b)) KindService \<or> not_kind (or_namespace (br_ref b)) ns \<or> resolve ?n \<noteq> []")
    case True
    then have "r = ([], [], snd (snd r))" by (subst r) (simp only: if_True)
    then show ?thesis by (metis fst_conv snd_conv)
  next
    case False
    then show ?thesis by (subst (1 2) r) simp
  qed
  ultimately show "resolve n = []" using out(2) by auto
qed

lemma map_route_rule_out:
  assumes "map_route_rule tc ns resolve ir = r"
  shows "x \<in> set (fst r) \<Longrightarrow> rule_refs x \<subseteq> mapped_refs tc ns resolve (set (fst (snd r))) \<and>
     FilterExtensionRef \<notin> hf_type ` (set (rr_filters x) \<union> (\<Union>b \<in> set (rr_backendRefs x). set (br_filters b)))"
    and "n \<in> set (fst (snd r)) \<Longrightarrow> resolve n = []"
proof -
  obtain i rule where ir: "ir = (i, rule)" by (cases ir)
  obtain fs fb fr where f: "mapFilters tc ns (rr_filters rule) (''rule '' @ show_nat i) resolve = (fs, fb, fr)"
    by (metis prod_cases3)
  obtain bs bb br where b: "collect (map (map_backend_ref tc ns i resolve) (rr_backendRefs rule)) = (bs, bb, br)"
    by (metis prod_cases3)
  have r: "r = (if bs \<noteq> [] \<or> rr_backendRefs rule = [] then [rule\<lparr>rr_filters := fs, rr_backendRefs := bs\<rparr>] else [],
      fb @ bb, fr @ br)"
    using assms f b by (auto simp: map_route_rule_def ir Let_def)
  note fo = mapFilters_out [OF f]
  have bo: "backend_refs y \<subseteq> mapped_refs tc ns resolve (set bb) \<and> FilterExtensionRef \<notin> hf_type ` set (br_filters y)"
    if elem: "y \<in> set bs" for y
  proof -
    obtain q where q: "y \<in> set (fst (map_backend_ref tc ns i resolve q))"
      "set (fst (snd (map_backend_ref tc ns i resolve q))) \<subseteq> set bb" by (rule collect_item [OF b elem])
    show ?thesis using map_backend_ref_out(1) [OF refl q(1)] mapped_refs_weaken [OF _ q(2)] by blast
  qed
  have bn: "resolve n = []" if elem: "n \<in> set bb" for n
  proof -
    obtain q where "n \<in> set (fst (snd (map_backend_ref tc ns i resolve q)))" by (rule collect_name [OF b elem])
    then show ?thesis by (rule map_backend_ref_out(2) [OF refl])
  qed
  { assume "x \<in> set (fst r)"
    then have x: "x = rule\<lparr>rr_filters := fs, rr_backendRefs := bs\<rparr>" by (auto simp: r split: if_splits)
    have ext: "FilterExtensionRef \<notin> hf_type ` set fs" using fo(1) by (metis imageE)
    have "(\<Union>f \<in> set fs. filter_refs f) \<subseteq> mapped_refs tc ns resolve (set fb)" using fo(1) by blast
    moreover have "(\<Union>y \<in> set bs. backend_refs y) \<subseteq> mapped_refs tc ns resolve (set bb)" using bo by blast
    ultimately have "rule_refs x \<subseteq> mapped_refs tc ns resolve (set (fb @ bb))"
      using mapped_refs_mono [of "set fb" "set (fb @ bb)" tc ns resolve]
        mapped_refs_mono [of "set bb" "set (fb @ bb)" tc ns resolve]
      by (auto simp: rule_refs_def x)
    then show "rule_refs x \<subseteq> mapped_refs tc ns resolve (set (fst (snd r))) \<and> FilterExtensionRef \<notin>
        hf_type ` (set (rr_filters x) \<union> (\<Union>b \<in> set (rr_backendRefs x). set (br_filters b)))"
      using ext bo by (simp add: x r image_Un image_UN) }
  assume "n \<in> set (fst (snd r))"
  then show "resolve n = []" using fo(2) bn by (auto simp: r)
qed

text \<open>Filters that are not rewritten.\<close>

lemma mapFilters_verbatim:
  "filter crosses_verbatim (fst (mapFilters tc ns fs loc resolve)) = filter crosses_verbatim fs"
proof (induction fs)
  case Nil
  then show ?case by (simp add: mapFilters_def collect_def)
next
  case (Cons f fs)
  have "fst (mapFilters tc ns (f # fs) loc resolve) =
      fst (map_filter_one tc ns loc resolve f) @ fst (mapFilters tc ns fs loc resolve)"
    by (simp add: mapFilters_def collect_def)
  moreover have "filter crosses_verbatim (fst (map_filter_one tc ns loc resolve f)) = (if crosses_verbatim f then [f] else [])"
    by (auto simp: map_filter_one_def crosses_verbatim_def Let_def split: option.split)
  ultimately show ?case using Cons by simp
qed

definition rule_filters :: "route_rule \<Rightarrow> http_filter set" where
  "rule_filters r = set (rr_filters r) \<union> (\<Union>b \<in> set (rr_backendRefs r). set (br_filters b))"

lemma route_filters_rules: "route_filters h = (\<Union>r \<in> set (rs_rules (rt_spec h)). rule_filters r)"
  by (simp add: route_filters_def rule_filters_def)

lemma mapFilters_verbatim_subset:
  "mapFilters tc ns fs loc resolve = (out, bs, rs) \<Longrightarrow> x \<in> set out \<Longrightarrow> crosses_verbatim x \<Longrightarrow> x \<in> set fs"
proof -
  assume "mapFilters tc ns fs loc resolve = (out, bs, rs)" and x: "x \<in> set out" "crosses_verbatim x"
  then have "filter crosses_verbatim out = filter crosses_verbatim fs"
    using mapFilters_verbatim [of tc ns fs loc resolve] by simp
  moreover have "x \<in> set (filter crosses_verbatim out)" using x by simp
  ultimately show "x \<in> set fs" by (metis filter_is_subset subsetD)
qed

lemma map_backend_ref_verbatim:
  "x \<in> set (fst (map_backend_ref tc ns i resolve b)) \<Longrightarrow> f \<in> set (br_filters x) \<Longrightarrow> crosses_verbatim f \<Longrightarrow>
   f \<in> set (br_filters b)"
  by (auto simp: map_backend_ref_def Let_def split: if_splits prod.splits dest: mapFilters_verbatim_subset)

lemma map_route_rule_verbatim:
  assumes "x \<in> set (fst (map_route_rule tc ns resolve (i, rule)))"
  shows "{f \<in> rule_filters x. crosses_verbatim f} \<subseteq> rule_filters rule \<and>
     filter crosses_verbatim (rr_filters x) = filter crosses_verbatim (rr_filters rule)"
proof -
  obtain fs fb fr where f: "mapFilters tc ns (rr_filters rule) (''rule '' @ show_nat i) resolve = (fs, fb, fr)"
    by (metis prod_cases3)
  obtain bs bb br where b: "collect (map (map_backend_ref tc ns i resolve) (rr_backendRefs rule)) = (bs, bb, br)"
    by (metis prod_cases3)
  have x: "x = rule\<lparr>rr_filters := fs, rr_backendRefs := bs\<rparr>"
    using assms f b by (auto simp: map_route_rule_def Let_def split: if_splits)
  have "f \<in> (\<Union>b \<in> set (rr_backendRefs rule). set (br_filters b))"
    if y: "y \<in> set bs" and fy: "f \<in> set (br_filters y)" "crosses_verbatim f" for y f
  proof -
    obtain q where q: "q \<in> set (rr_backendRefs rule)" "y \<in> set (fst (map_backend_ref tc ns i resolve q))"
      by (rule collect_item [OF b y])
    note map_backend_ref_verbatim [OF q(2) fy]
    then show ?thesis using q(1) by (simp only: UN_iff) (rule bexI)
  qed
  note inner = this
  have x': "rr_filters x = fs" "rr_backendRefs x = bs" by (simp_all add: x)
  have "c \<in> rule_filters rule" if c: "c \<in> rule_filters x" "crosses_verbatim c" for c
  proof (cases "c \<in> set fs")
    case True
    then show ?thesis using mapFilters_verbatim_subset [OF f True c(2)] by (simp add: rule_filters_def)
  next
    case False
    then obtain y where "y \<in> set bs" "c \<in> set (br_filters y)" using c(1) by (auto simp: rule_filters_def x')
    then show ?thesis using inner c(2) by (simp add: rule_filters_def)
  qed
  then have "{c \<in> rule_filters x. crosses_verbatim c} \<subseteq> rule_filters rule" by blast
  moreover have "filter crosses_verbatim fs = filter crosses_verbatim (rr_filters rule)"
    using mapFilters_verbatim [of tc ns "rr_filters rule" "''rule '' @ show_nat i" resolve] by (simp only: f fst_conv)
  ultimately show ?thesis unfolding x'(1) by (rule conjI)
qed

text \<open>When a route is carried, and what it is then.\<close>

lemma mapHTTPRoute_Some:
  assumes "rt_host_route (mapHTTPRoute tc g resolve) = Some h"
  shows "rs_hostnames (rt_spec h) = filter (\<lambda>x. Allowed x (domains tc)) (rs_hostnames (rt_spec g))"
    and "rs_hostnames (rt_spec h) = [] \<Longrightarrow> rs_hostnames (rt_spec g) = []"
    and "rs_parentRefs (rt_spec h) =
      rights (map (map_parent tc (om_namespace (rt_meta g))) (rs_parentRefs (rt_spec g)))"
    and "rs_parentRefs (rt_spec h) \<noteq> []"
    and "\<exists>backends r3. collect (map (map_route_rule tc (om_namespace (rt_meta g)) resolve)
        (enumerate 0 (rs_rules (rt_spec g)))) = (rs_rules (rt_spec h), backends, r3) \<and>
      rt_backends (mapHTTPRoute tc g resolve) = sort (remdups backends)"
    and "rt_meta h = no_meta\<lparr>
       om_name := HostObjectName (tc_name tc) (om_namespace (rt_meta g)) (om_name (rt_meta g)),
       om_namespace := host_ns tc, om_labels := ownershipLabels tc (rt_meta g)\<rparr>"
  using assms by (auto simp: mapHTTPRoute_def Let_def split: if_splits prod.splits)

lemma mapHTTPRoute_refs:
  assumes "rt_host_route (mapHTTPRoute tc g resolve) = Some h"
  shows "route_refs h \<subseteq> mapped_refs tc (om_namespace (rt_meta g)) resolve (set (rt_backends (mapHTTPRoute tc g resolve)))"
    and "FilterExtensionRef \<notin> hf_type ` route_filters h"
proof -
  let ?ns = "om_namespace (rt_meta g)"
  obtain bs r3 where c: "collect (map (map_route_rule tc ?ns resolve) (enumerate 0 (rs_rules (rt_spec g)))) =
      (rs_rules (rt_spec h), bs, r3)"
    and bs: "set (rt_backends (mapHTTPRoute tc g resolve)) = set bs"
    using mapHTTPRoute_Some(5) [OF assms] by auto
  have *: "rule_refs x \<subseteq> mapped_refs tc ?ns resolve (set bs) \<and> FilterExtensionRef \<notin>
      hf_type ` (set (rr_filters x) \<union> (\<Union>b \<in> set (rr_backendRefs x). set (br_filters b)))"
    if elem: "x \<in> set (rs_rules (rt_spec h))" for x
  proof -
    obtain q where q: "x \<in> set (fst (map_route_rule tc ?ns resolve q))"
      "set (fst (snd (map_route_rule tc ?ns resolve q))) \<subseteq> set bs" by (rule collect_item [OF c elem])
    show ?thesis using map_route_rule_out(1) [OF refl q(1)] mapped_refs_weaken [OF _ q(2)] by blast
  qed
  then show "route_refs h \<subseteq> mapped_refs tc ?ns resolve (set (rt_backends (mapHTTPRoute tc g resolve)))"
    unfolding bs route_refs_def by blast
  show "FilterExtensionRef \<notin> hf_type ` route_filters h"
    using * unfolding route_filters_def by blast
qed

lemma mapHTTPRoute_verbatim:
  assumes "rt_host_route (mapHTTPRoute tc g resolve) = Some h"
  shows "{f \<in> route_filters h. crosses_verbatim f} \<subseteq> route_filters g"
proof -
  obtain bs r3 where c: "collect (map (map_route_rule tc (om_namespace (rt_meta g)) resolve)
      (enumerate 0 (rs_rules (rt_spec g)))) = (rs_rules (rt_spec h), bs, r3)"
    using mapHTTPRoute_Some(5) [OF assms] by auto
  have "f \<in> route_filters g" if x: "x \<in> set (rs_rules (rt_spec h))" and f: "f \<in> rule_filters x" "crosses_verbatim f" for x f
  proof -
    obtain q where q: "q \<in> set (enumerate 0 (rs_rules (rt_spec g)))"
      "x \<in> set (fst (map_route_rule tc (om_namespace (rt_meta g)) resolve q))" by (rule collect_item [OF c x])
    obtain i rule where ir: "q = (i, rule)" by (cases q)
    have "rule \<in> set (rs_rules (rt_spec g))" using q(1) ir by (auto simp: in_set_enumerate_eq)
    then show ?thesis using map_route_rule_verbatim [OF q(2) [unfolded ir]] f by (auto simp: route_filters_rules)
  qed
  then show ?thesis by (auto simp: route_filters_rules [of h])
qed

lemma mapHTTPRoute_backends_reachable:
  assumes "n \<in> set (rt_backends (mapHTTPRoute tc g resolve))"
  shows "resolve n = []"
proof -
  let ?f = "map_route_rule tc (om_namespace (rt_meta g)) resolve"
  obtain rules bs r3 where c: "collect (map ?f (enumerate 0 (rs_rules (rt_spec g)))) = (rules, bs, r3)"
    by (metis prod_cases3)
  have "n \<in> set bs" using assms c by (simp add: mapHTTPRoute_def Let_def split: if_splits)
  then obtain q where "n \<in> set (fst (snd (?f q)))" by (rule collect_name [OF c])
  then show ?thesis by (rule map_route_rule_out(2) [OF refl])
qed

lemma mapHTTPRoute_backends:
  "sorted (rt_backends (mapHTTPRoute tc g resolve)) \<and> distinct (rt_backends (mapHTTPRoute tc g resolve))"
  by (simp add: mapHTTPRoute_def Let_def split: prod.split)

section \<open>Properties\<close>

lemma mapGateway_eq:
  "mapGateway tc g =
     (let mapped = map (map_listener tc) (gs_listeners (gw_spec g));
          refusals = (if gs_addresses (gw_spec g) \<noteq> []
            then [msg_addresses (filter (\<lambda>a. a \<noteq> []) (gs_addresses (gw_spec g)))] else []) @ lefts mapped
      in if gatewayClassName (tc_spec tc) = [] then (None, [msg_no_class])
         else (if rights mapped = [] then None else Some \<lparr>
             gw_meta = no_meta\<lparr>
               om_name := HostObjectName (tc_name tc) (om_namespace (gw_meta g)) (om_name (gw_meta g)),
               om_namespace := host_ns tc, om_labels := ownershipLabels tc (gw_meta g)\<rparr>,
             gw_spec = \<lparr>gs_className = gatewayClassName (tc_spec tc), gs_listeners = rights mapped,
               gs_addresses = [], gs_rest = []\<rparr>,
             gw_addresses = []\<rparr>, refusals))"
  by (simp add: mapGateway_def Let_def)

lemma map_listener_Inr:
  "map_listener tc l = Inr l' \<longleftrightarrow>
     (\<exists>h. l_hostname l = Some h \<and> Allowed h (domains tc)) \<and>
     l' = l\<lparr>l_tls := map_option (\<lambda>t. t\<lparr>lt_certificateRefs := []\<rparr>) (l_tls l)\<rparr>"
  by (auto simp: map_listener_def split: option.splits)

lemma lefts_map_listener:
  "lefts (map (map_listener tc) ls) = [] \<longleftrightarrow> l_hostname ` set ls \<subseteq> Some ` {h. Allowed h (domains tc)}"
proof (induction ls)
  case (Cons l ls)
  have "map_listener tc l \<in> range Inr \<longleftrightarrow> l_hostname l \<in> Some ` {h. Allowed h (domains tc)}"
    by (auto simp: map_listener_Inr image_iff eq_commute [of "Inr _"])
  then show ?case using Cons by (cases "map_listener tc l") auto
qed simp

lemma mapGateway_host_Some:
  assumes "fst (mapGateway tc g) = Some h"
  shows "set (gs_listeners (gw_spec h)) \<subseteq> {l'. \<exists>l \<in> set (gs_listeners (gw_spec g)). map_listener tc l = Inr l'}"
    and "gs_listeners (gw_spec h) \<noteq> []"
    and "gw_spec h = \<lparr>gs_className = gatewayClassName (tc_spec tc),
      gs_listeners = gs_listeners (gw_spec h), gs_addresses = [], gs_rest = []\<rparr>"
    and "gw_meta h = no_meta\<lparr>
       om_name := HostObjectName (tc_name tc) (om_namespace (gw_meta g)) (om_name (gw_meta g)),
       om_namespace := host_ns tc, om_labels := ownershipLabels tc (gw_meta g)\<rparr>"
  using assms unfolding mapGateway_eq
  by (auto simp: Let_def set_rights split: if_splits) blast

text \<open>
  Claim C22. A Gateway is published on the host only with listeners for hostnames the operator's
  \<open>allowedDomains\<close> cover: every listener has an \<open>Allowed\<close> hostname (a listener without one is
  never carried), names no guest certificate, and the host Gateway has the operator's class, asks
  for no particular address and carries no annotation.
\<close>

theorem mapGateway_publishes_only_allowed:
  "set_option (fst (mapGateway tc g)) \<subseteq>
     {h. gs_listeners (gw_spec h) \<noteq> [] \<and>
         l_hostname ` set (gs_listeners (gw_spec h)) \<subseteq> Some ` {x. Allowed x (domains tc)} \<and>
         (\<Union>l \<in> set (gs_listeners (gw_spec h)). lt_certificateRefs ` set_option (l_tls l)) \<subseteq> {[]} \<and>
         gs_className (gw_spec h) = gatewayClassName (tc_spec tc) \<and> gs_addresses (gw_spec h) = [] \<and>
         om_annotations (gw_meta h) = Map.empty \<and> om_namespace (gw_meta h) = host_ns tc \<and>
         om_labels (gw_meta h) = ownershipLabels tc (gw_meta g)}"
proof (clarify, goal_cases)
  case (1 h)
  then have s: "fst (mapGateway tc g) = Some h" by simp
  note h = mapGateway_host_Some [OF s]
  have ls: "\<And>l'. l' \<in> set (gs_listeners (gw_spec h)) \<Longrightarrow>
      l_hostname l' \<in> Some ` {x. Allowed x (domains tc)} \<and> lt_certificateRefs ` set_option (l_tls l') \<subseteq> {[]}"
    using h(1) by (fastforce simp: map_listener_Inr elem_set)
  have "gs_className (gw_spec h) = gatewayClassName (tc_spec tc)" "gs_addresses (gw_spec h) = []"
    by (subst h(3), simp)+
  moreover have "(\<Union>l \<in> set (gs_listeners (gw_spec h)). lt_certificateRefs ` set_option (l_tls l)) \<subseteq> {[]}"
    "l_hostname ` set (gs_listeners (gw_spec h)) \<subseteq> Some ` {x. Allowed x (domains tc)}"
    using ls by blast+
  ultimately show ?case using h(2,4) by (simp add: no_meta_def)
qed

text \<open>
  Nothing of a Gateway is dropped without a word: the mapping reports no refusal
  exactly if the operator configured a class, the guest asks for no address of its own, and every
  listener has an allowed hostname.
\<close>

theorem mapGateway_refuses_iff:
  "snd (mapGateway tc g) = [] \<longleftrightarrow>
     gatewayClassName (tc_spec tc) \<noteq> [] \<and> gs_addresses (gw_spec g) = [] \<and>
     l_hostname ` set (gs_listeners (gw_spec g)) \<subseteq> Some ` {h. Allowed h (domains tc)}"
  unfolding mapGateway_eq Let_def by (simp add: lefts_map_listener)

text \<open>
  Claim C28. Every backend and mirror reference of the host HTTPRoute, in rules and in the filters
  of rules and of backends, is rewritten: its kind is Service, it has no namespace, and its name is
  the mapped name of a guest Service the resolver accepts and that is listed among the route's
  backends (its API group, which the code does not look at, is the guest's).  No ExtensionRef
  filter is carried.  The one other reference a filter follows, the backendRef of an ExternalAuth
  filter, is not rewritten: those of the host route are the guest route's own.  Every hostname is
  allowed, and a route that named hostnames never inherits its listeners' names instead; of the
  guest's metadata only the ownership labels and the namespace of the tenant are on it.
\<close>

theorem mapHTTPRoute_references_rewritten:
  "set_option (rt_host_route (mapHTTPRoute tc g resolve)) \<subseteq>
     {h. route_refs h \<subseteq> {r. or_namespace r = None \<and> or_kind r \<in> {None, Some KindService} \<and>
           or_name r \<in> HostObjectName (tc_name tc) (om_namespace (rt_meta g)) `
             {n \<in> set (rt_backends (mapHTTPRoute tc g resolve)). resolve n = []}} \<and>
         FilterExtensionRef \<notin> hf_type ` route_filters h \<and> auth_refs h \<subseteq> auth_refs g \<and>
         set (rs_hostnames (rt_spec h)) \<subseteq> {x. Allowed x (domains tc)} \<and>
         (rs_hostnames (rt_spec h) = [] \<longleftrightarrow> rs_hostnames (rt_spec g) = []) \<and>
         om_annotations (rt_meta h) = Map.empty \<and> om_namespace (rt_meta h) = host_ns tc \<and>
         om_labels (rt_meta h) = ownershipLabels tc (rt_meta g)}"
proof (clarify, goal_cases)
  case (1 h)
  then have s: "rt_host_route (mapHTTPRoute tc g resolve) = Some h" by simp
  note h = mapHTTPRoute_Some [OF s]
  have "rs_hostnames (rt_spec h) = [] \<longleftrightarrow> rs_hostnames (rt_spec g) = []" using h(1,2) by auto
  moreover have "set (rs_hostnames (rt_spec h)) \<subseteq> {x. Allowed x (domains tc)}" using h(1) by auto
  moreover have "om_annotations (rt_meta h) = Map.empty \<and> om_namespace (rt_meta h) = host_ns tc \<and>
      om_labels (rt_meta h) = ownershipLabels tc (rt_meta g)" using h(6) by (simp add: no_meta_def)
  moreover have "auth_refs h \<subseteq> auth_refs g"
    using mapHTTPRoute_verbatim [OF s] by (fastforce simp: auth_refs_def crosses_verbatim_def FilterExternalAuth_def
        FilterExtensionRef_def FilterRequestMirror_def split: if_splits)
  ultimately show ?case using mapHTTPRoute_refs [OF s] unfolding mapped_refs_def by blast
qed

text \<open>
  The filters mapFilters does not rewrite or refuse cross as they are, in order: every filter of
  a rule that is neither an ExtensionRef nor a RequestMirror, an ExternalAuth filter with its
  backendRef (name, namespace and all) among them, is in the host rule, whatever the resolver
  says of that name.
\<close>

theorem mapHTTPRoute_filters_cross_verbatim:
  "set (fst (map_route_rule tc ns resolve (i, rule))) \<subseteq>
     {r. filter crosses_verbatim (rr_filters r) = filter crosses_verbatim (rr_filters rule)} \<and>
   crosses_verbatim \<lparr>hf_type = FilterExternalAuth, hf_extensionRef = None, hf_requestMirror = None,
     hf_externalAuth = Some b, hf_rest = x\<rparr>"
  using map_route_rule_verbatim
  by (auto simp: crosses_verbatim_def FilterExternalAuth_def FilterExtensionRef_def FilterRequestMirror_def)

text \<open>
  The parents of a host HTTPRoute are the host names of the Gateways its guest route
  names, in order and without a namespace: exactly the parent references whose kind is Gateway
  (the default), resolved in the route's own namespace unless they name another one.
\<close>

theorem mapHTTPRoute_parents:
  "set_option (rt_host_route (mapHTTPRoute tc g resolve)) \<subseteq>
     {h. rs_parentRefs (rt_spec h) \<noteq> [] \<and> rs_parentRefs (rt_spec h) =
       map (\<lambda>p. p\<lparr>pr_name := HostObjectName (tc_name tc)
                   (case pr_namespace p of None \<Rightarrow> om_namespace (rt_meta g) | Some n \<Rightarrow> n) (pr_name p),
                 pr_namespace := None\<rparr>)
         (filter (\<lambda>p. pr_kind p \<in> {None, Some KindGateway}) (rs_parentRefs (rt_spec g)))}"
proof (clarify, goal_cases)
  case (1 h)
  then have s: "rt_host_route (mapHTTPRoute tc g resolve) = Some h" by simp
  have "rights (map (map_parent tc ns) ps) =
      map (\<lambda>p. p\<lparr>pr_name := HostObjectName (tc_name tc)
             (case pr_namespace p of None \<Rightarrow> ns | Some n \<Rightarrow> n) (pr_name p), pr_namespace := None\<rparr>)
        (filter (\<lambda>p. pr_kind p \<in> {None, Some KindGateway}) ps)" for ns ps
    by (induction ps) (auto simp: map_parent_def not_kind_def Let_def split: option.splits)
  then show ?case using mapHTTPRoute_Some(3,4) [OF s] by auto
qed

end
