(* ===== verification/PassState.thy ===== *)
theory PassState
  imports Effects ServiceMap IngressMap GatewayMap
begin

text \<open>
  The state of one pass, the \<open>pass\<close> struct of internal/syncer/pass.go with the
  \<open>storageState\<close> of storage_pass.go, its constructor and small helpers, and the contract that
  every phase of a pass is proved to meet.

  Guest objects are shared pointers in the code: one listed object is reached from
  \<open>guestSvcs\<close>, \<open>guestObjs\<close>, the write-back pairs and the finalizer holders, and mutated
  through any of them.  The model keeps the objects in one store \<open>p_heap\<close> and references to
  it everywhere else.  A reference is the kind, namespace and name, which identify a listed object
  because the API server never lists two objects of a kind under one name.
\<close>

section \<open>Types\<close>

type_synonym guest_ref = "kind \<times> string \<times> string"

abbreviation ref_kind :: "guest_ref \<Rightarrow> kind" where "ref_kind r \<equiv> fst r"
abbreviation ref_ns :: "guest_ref \<Rightarrow> string" where "ref_ns r \<equiv> fst (snd r)"
abbreviation ref_name :: "guest_ref \<Rightarrow> string" where "ref_name r \<equiv> snd (snd r)"

definition ref_of :: "kind \<Rightarrow> obj_meta \<Rightarrow> guest_ref" where
  "ref_of k m = (k, om_namespace m, om_name m)"

record node_plugin_images =
  img_Node :: string
  img_Registrar :: string

text \<open>\<open>vaStatusWrite\<close>; the attachment is its index in \<open>st_attachments\<close>.\<close>

record va_status_write =
  vs_va :: nat
  vs_attached :: bool
  vs_metadata :: "(string \<times> string) list"
  vs_errMsg :: string

record storage_state =
  st_offerable :: "(string \<times> storage_class) list"
  st_guestSCs :: "storage_class list"
  st_guestPVs :: "(string \<times> pv) list"
  st_pvcUIDs :: "string list"
  st_provisionable :: "guest_ref list"
  st_deleting :: "guest_ref list"
  st_attachments :: "volume_attachment list"
  st_hostPVCs :: "pvc list"
  st_vms :: vm_volumes
  st_vaStatus :: "va_status_write list"
  st_pluginWanted :: bool

record pass =
  p_tc :: tenant_cluster
  p_gatewayAPIOnHost :: bool
  p_hostFamilies :: "ip_family list"
  p_hot :: bool
  p_images :: node_plugin_images
  p_storage :: "storage_state option"
  p_services :: "(string \<times> service) list"
  p_ingresses :: "(string \<times> ingress) list"
  p_gateways :: "(string \<times> gateway) list"
  p_routes :: "(string \<times> http_route) list"
  p_guestSvcs :: "guest_ref list"
  p_backendNeeded :: "string list"
  p_hostOwner :: "(string \<times> guest_ref) list"
  p_guestObjs :: "guest_ref list"
  p_lbPairs :: "(guest_ref \<times> string) list"
  p_ingressPairs :: "(guest_ref \<times> string) list"
  p_gatewayPairs :: "(guest_ref \<times> string) list"
  p_wantFinalizer :: "guest_ref list"
  p_seenFinalizer :: "guest_ref list"
  p_refusals :: "guest_ref \<Rightarrow> string list"
  p_counts :: resource_counts
  p_problems :: "string list"
  p_pruneFailed :: bool
  p_heap :: "guest_ref \<Rightarrow> obj option"
  p_trace :: "event list"

definition newPass ::
  "tenant_cluster \<Rightarrow> bool \<Rightarrow> ip_family list \<Rightarrow> bool \<Rightarrow> node_plugin_images \<Rightarrow> event list \<Rightarrow> pass" where
  "newPass tc gatewayAPIOnHost hostFamilies hot images tr = \<lparr>
     p_tc = tc, p_gatewayAPIOnHost = gatewayAPIOnHost, p_hostFamilies = hostFamilies,
     p_hot = hot, p_images = images, p_storage = None,
     p_services = [], p_ingresses = [], p_gateways = [], p_routes = [],
     p_guestSvcs = [], p_backendNeeded = [], p_hostOwner = [], p_guestObjs = [],
     p_lbPairs = [], p_ingressPairs = [], p_gatewayPairs = [],
     p_wantFinalizer = [], p_seenFinalizer = [], p_refusals = (\<lambda>_. []), p_counts = no_counts,
     p_problems = [], p_pruneFailed = False, p_heap = Map.empty, p_trace = tr\<rparr>"

section \<open>Helpers\<close>

text \<open>One request: the answer, and the pass with the event on its trace.\<close>

definition call :: "env \<Rightarrow> request \<Rightarrow> pass \<Rightarrow> response \<times> pass" where
  "call env r p = (let resp = api env (p_trace p) r in (resp, p\<lparr>p_trace := (r, resp) # p_trace p\<rparr>))"

definition problem :: "string \<Rightarrow> pass \<Rightarrow> pass" where
  "problem m p = p\<lparr>p_problems := p_problems p @ [m]\<rparr>"

definition refuse :: "guest_ref \<Rightarrow> string \<Rightarrow> pass \<Rightarrow> pass" where
  "refuse ref msg p = p\<lparr>p_refusals := (p_refusals p)(ref := p_refusals p ref @ [msg])\<rparr>"

definition noteFinalizerHolder :: "obj_meta \<Rightarrow> guest_ref \<Rightarrow> pass \<Rightarrow> pass" where
  "noteFinalizerHolder m ref p =
     (if GuestFinalizer \<in> set (om_finalizers m)
      then p\<lparr>p_seenFinalizer := p_seenFinalizer p @ [ref]\<rparr> else p)"

definition wantFinalizer :: "guest_ref \<Rightarrow> pass \<Rightarrow> pass" where
  "wantFinalizer ref p = p\<lparr>p_wantFinalizer := add_key ref (p_wantFinalizer p)\<rparr>"

definition store :: "guest_ref \<Rightarrow> obj \<Rightarrow> pass \<Rightarrow> pass" where
  "store ref x p = p\<lparr>p_heap := (p_heap p)(ref \<mapsto> x)\<rparr>"

definition heap_as :: "(obj \<Rightarrow> 'a option) \<Rightarrow> pass \<Rightarrow> guest_ref \<Rightarrow> 'a option" where
  "heap_as f p ref = (case p_heap p ref of None \<Rightarrow> None | Some x \<Rightarrow> f x)"

text \<open>\<open>p.guestSvcs[guestKey{ns, name}]\<close>.\<close>

definition guestSvc :: "pass \<Rightarrow> string \<Rightarrow> string \<Rightarrow> service option" where
  "guestSvc p ns name = heap_as to_service p (KService, ns, name)"

definition summarize :: "string list \<Rightarrow> nat \<Rightarrow> string" where
  "summarize msgs n =
     (if length msgs \<le> n then join msgs ''; ''
      else join (take n msgs) ''; '' @ ''; and '' @ show_nat (length msgs - n) @ '' more'')"

text \<open>The label selector that scopes every list of host objects to one tenant.\<close>

definition tenantSelector :: "tenant_cluster \<Rightarrow> selector" where
  "tenantSelector tc = [(LabelTenantCluster, tc_name tc), (LabelTenantClusterNamespace, tc_namespace tc)]"

definition managedSelector :: selector where
  "managedSelector = [(ManagedByLabel, ManagedByValue)]"

section \<open>The contract of a phase\<close>

text \<open>
  \<open>keeps I Q f\<close>: from a pass satisfying \<open>I\<close> the operation \<open>f\<close> leads to one satisfying \<open>I\<close>,
  and every request it makes satisfies the guard \<open>Q\<close> in its history.
\<close>

definition keeps :: "(pass \<Rightarrow> bool) \<Rightarrow> (event list \<Rightarrow> request \<Rightarrow> bool) \<Rightarrow> (pass \<Rightarrow> pass) \<Rightarrow> bool" where
  "keeps I Q f \<longleftrightarrow> (\<forall>p. I p \<longrightarrow> I (f p) \<and> trace_ext Q (p_trace p) (p_trace (f p)))"

lemma keepsI [intro?]:
  "(\<And>p. I p \<Longrightarrow> I (f p) \<and> trace_ext Q (p_trace p) (p_trace (f p))) \<Longrightarrow> keeps I Q f"
  by (simp add: keeps_def)

lemma keepsD: "keeps I Q f \<Longrightarrow> I p \<Longrightarrow> I (f p)" "keeps I Q f \<Longrightarrow> I p \<Longrightarrow> trace_ext Q (p_trace p) (p_trace (f p))"
  by (simp_all add: keeps_def)

lemma keeps_comp: "keeps I Q f \<Longrightarrow> keeps I Q g \<Longrightarrow> keeps I Q (\<lambda>p. g (f p))"
  by (auto simp: keeps_def intro: trace_ext_trans)

lemma keeps_id [simp]: "keeps I Q (\<lambda>p. p)"
  by (simp add: keeps_def)

lemma keeps_if: "keeps I Q f \<Longrightarrow> keeps I Q g \<Longrightarrow> keeps I Q (\<lambda>p. if c p then f p else g p)"
  by (simp add: keeps_def)

lemma keeps_fold: "(\<And>x. x \<in> set xs \<Longrightarrow> keeps I Q (f x)) \<Longrightarrow> keeps I Q (fold f xs)"
proof (induction xs)
  case (Cons x xs)
  then have "keeps I Q (f x)" "keeps I Q (fold f xs)" by simp_all
  then show ?case by (auto simp: keeps_def intro: trace_ext_trans)
qed (simp add: keeps_def)

text \<open>
  A phase under contract, and what its users draw from the contract: the invariant holds
  afterwards, the history is still there, and each new request was guarded.
\<close>

locale guarded_phase =
  fixes I :: "pass \<Rightarrow> bool"
    and Q :: "event list \<Rightarrow> request \<Rightarrow> bool"
    and phase :: "pass \<Rightarrow> pass"
  assumes phase_keeps: "keeps I Q phase"
begin

lemma invariant: "I p \<Longrightarrow> I (phase p)"
  by (rule keepsD(1) [OF phase_keeps])

lemma extends: "I p \<Longrightarrow> trace_ext Q (p_trace p) (p_trace (phase p))"
  by (rule keepsD(2) [OF phase_keeps])

lemma history: "I p \<Longrightarrow> set (p_trace p) \<subseteq> set (p_trace (phase p))"
  by (rule trace_ext_subset [OF extends])

lemma requests:
  assumes "I p" and "p_trace p = []" and "(r, resp) \<in> set (p_trace (phase p))"
    and "\<And>h h' r. Q h r \<Longrightarrow> set h \<subseteq> set h' \<Longrightarrow> R h' r"
  shows "R (p_trace (phase p)) r"
proof -
  have "trace_ext Q [] (p_trace (phase p))" using extends [OF assms(1)] assms(2) by simp
  then show ?thesis using trace_ext_all [of Q "p_trace (phase p)" R r resp] assms(3,4) by blast
qed

end

text \<open>The fields a phase leaves alone.\<close>

lemma call_simps [simp]:
  "fst (call env r p) = api env (p_trace p) r"
  "p_trace (snd (call env r p)) = (r, api env (p_trace p) r) # p_trace p"
  "p_tc (snd (call env r p)) = p_tc p"
  "p_gatewayAPIOnHost (snd (call env r p)) = p_gatewayAPIOnHost p"
  "p_hostFamilies (snd (call env r p)) = p_hostFamilies p"
  "p_hot (snd (call env r p)) = p_hot p"
  "p_images (snd (call env r p)) = p_images p"
  "p_storage (snd (call env r p)) = p_storage p"
  "p_services (snd (call env r p)) = p_services p"
  "p_ingresses (snd (call env r p)) = p_ingresses p"
  "p_gateways (snd (call env r p)) = p_gateways p"
  "p_routes (snd (call env r p)) = p_routes p"
  "p_guestSvcs (snd (call env r p)) = p_guestSvcs p"
  "p_backendNeeded (snd (call env r p)) = p_backendNeeded p"
  "p_hostOwner (snd (call env r p)) = p_hostOwner p"
  "p_guestObjs (snd (call env r p)) = p_guestObjs p"
  "p_lbPairs (snd (call env r p)) = p_lbPairs p"
  "p_ingressPairs (snd (call env r p)) = p_ingressPairs p"
  "p_gatewayPairs (snd (call env r p)) = p_gatewayPairs p"
  "p_wantFinalizer (snd (call env r p)) = p_wantFinalizer p"
  "p_seenFinalizer (snd (call env r p)) = p_seenFinalizer p"
  "p_refusals (snd (call env r p)) = p_refusals p"
  "p_counts (snd (call env r p)) = p_counts p"
  "p_problems (snd (call env r p)) = p_problems p"
  "p_pruneFailed (snd (call env r p)) = p_pruneFailed p"
  "p_heap (snd (call env r p)) = p_heap p"
  by (simp_all add: call_def Let_def)

end
