(* ===== verification/Examples.thy ===== *)
theory Examples
  imports PassState
begin

text \<open>
  Concrete inputs on which the hypotheses of the properties are seen to hold: a tenant, the
  controller-runtime helpers as they are documented, servers that answer every request alike, and
  an empty pass.
\<close>

definition ex_tc :: tenant_cluster where
  "ex_tc = \<lparr>tc_meta = no_meta\<lparr>om_name := ''t'', om_namespace := ''tenants''\<rparr>,
     tc_spec = \<lparr>kubeconfigSecretRef = \<lparr>skr_name = ''kc'', skr_key = []\<rparr>, hostNamespace = ''host-t'',
       nodeSelector = Map.empty, allowedDomains = [''example.com''], ingressClassName = [],
       gatewayClassName = [], limit_loadBalancers = None,
       sync = \<lparr>sync_services = None, sync_ingresses = None, sync_gateways = None, sync_storage = None,
         sync_lb_class = []\<rparr>\<rparr>,
     tc_status = \<lparr>ts_connected = False, ts_lastSyncTime = None, ts_observed = no_counts, ts_usage = 0,
       ts_families = [], ts_conditions = []\<rparr>\<rparr>"

text \<open>An environment around given servers.\<close>

definition ex_env :: "(event list \<Rightarrow> request \<Rightarrow> response) \<Rightarrow> env" where
  "ex_env servers = \<lparr>api = servers, map_order = (\<lambda>_ _ _. 0),
     add_finalizer = (\<lambda>f fs. if f \<in> set fs then (False, fs) else (True, fs @ [f])),
     remove_finalizer = (\<lambda>f fs. if f \<in> set fs then (True, removeAll f fs) else (False, fs)),
     contains_finalizer = (\<lambda>f fs. f \<in> set fs),
     set_condition = (\<lambda>c cs. if c \<in> set cs then (False, cs)
       else (True, filter (\<lambda>d. cond_type d \<noteq> cond_type c) cs @ [c]))\<rparr>"

definition ex_pass :: pass where
  "ex_pass = newPass ex_tc True [] True \<lparr>img_Node = ''node'', img_Registrar = ''registrar''\<rparr> []"

definition ex_meta :: "string \<Rightarrow> obj_meta" where
  "ex_meta n = no_meta\<lparr>om_name := n, om_namespace := ''shop'', om_uid := ''uid-'' @ n\<rparr>"

definition ex_service :: "string \<Rightarrow> service" where
  "ex_service n = \<lparr>svc_meta = ex_meta n, svc_type = ''LoadBalancer'', svc_selector = [''app'' \<mapsto> n],
     svc_ports = [\<lparr>sp_name = ''web'', sp_protocol = ''TCP'', sp_port = 80, sp_targetPort = IntVal 80,
       sp_nodePort = 0\<rparr>],
     svc_ipFamilies = [], svc_ipFamilyPolicy = None, svc_lbClass = None, svc_rest = [],
     svc_lbIngress = [], svc_conditions = []\<rparr>"

lemma ex_env_simps [simp]:
  "api (ex_env f) = f" "map_order (ex_env f) = (\<lambda>_ _ _. 0)"
  "remove_finalizer (ex_env f) x fs = (if x \<in> set fs then (True, removeAll x fs) else (False, fs))"
  "add_finalizer (ex_env f) x fs = (if x \<in> set fs then (False, fs) else (True, fs @ [x]))"
  "contains_finalizer (ex_env f) x fs = (x \<in> set fs)"
  by (simp_all add: ex_env_def)

end
