(* ===== verification/Gather.thy ===== *)
theory Gather
  imports Examples
begin

text \<open>
  The gather phase of pass.go: the guest's Services, Ingresses, Gateways and HTTPRoutes are
  listed, mapped, and collected into the desired host state, with the guest objects, backends and
  finalizers each of them needs.  A gather that fails returns the error.
\<close>

section \<open>Backends\<close>

definition backendResolver :: "pass \<Rightarrow> string \<Rightarrow> string \<Rightarrow> string" where
  "backendResolver p ns name =
     (case guestSvc p ns name of
        None \<Rightarrow> ''not found in the guest cluster''
      | Some svc \<Rightarrow>
          if om_deleting (svc_meta svc) then ''is being deleted in the guest cluster''
          else refusal_of (mapService (p_tc p) svc ServiceTypeClusterIP (p_hostFamilies p)))"

definition add_backend :: "string \<Rightarrow> string \<Rightarrow> pass \<Rightarrow> pass" where
  "add_backend ns name p =
     (case guestSvc p ns name of
        None \<Rightarrow> p
      | Some svc \<Rightarrow>
          let hostName = HostObjectName (tc_name (p_tc p)) ns name;
              p = p\<lparr>p_backendNeeded := add_key hostName (p_backendNeeded p)\<rparr>
          in if hostName \<in> keys (p_services p) then p
             else case mapService (p_tc p) svc ServiceTypeClusterIP (p_hostFamilies p) of
               Inl refusal \<Rightarrow> p
             | Inr hostSvc \<Rightarrow>
                 let ref = (KService, ns, name)
                 in wantFinalizer ref (p\<lparr>p_services := put hostName hostSvc (p_services p),
                                        p_guestObjs := add_key ref (p_guestObjs p)\<rparr>))"

definition addBackends :: "string \<Rightarrow> string list \<Rightarrow> pass \<Rightarrow> pass" where
  "addBackends ns names = fold (add_backend ns) names"

section \<open>Services\<close>

text \<open>\<open>p.guestObjs[ref] = obj\<close> with the counter of its kind.\<close>

definition inScope :: "guest_ref \<Rightarrow> (resource_counts \<Rightarrow> resource_counts) \<Rightarrow> pass \<Rightarrow> pass" where
  "inScope ref bump p =
     p\<lparr>p_guestObjs := add_key ref (p_guestObjs p), p_counts := bump (p_counts p)\<rparr>"

definition gather_service :: "guest_ref \<Rightarrow> pass \<Rightarrow> pass" where
  "gather_service ref p =
     (case heap_as to_service p ref of
        None \<Rightarrow> p
      | Some svc \<Rightarrow>
          if \<not> wantsLoadBalancer (p_tc p) svc then p
          else
            let p = noteFinalizerHolder (svc_meta svc) ref p
            in if om_deleting (svc_meta svc) then p
               else
                 let p = inScope ref (\<lambda>c. c\<lparr>n_services := n_services c + 1\<rparr>) p
                 in case mapService (p_tc p) svc ServiceTypeLoadBalancer (p_hostFamilies p) of
                      Inl refusal \<Rightarrow> refuse ref refusal p
                    | Inr hostSvc \<Rightarrow>
                        let hostName = om_name (svc_meta hostSvc)
                        in wantFinalizer ref
                             (p\<lparr>p_services := put hostName hostSvc (p_services p),
                                p_lbPairs := p_lbPairs p @ [(ref, hostName)],
                                p_hostOwner := put hostName ref (p_hostOwner p)\<rparr>))"

text \<open>The listed Services enter \<open>guestSvcs\<close>.\<close>

definition list_service :: "service \<Rightarrow> pass \<Rightarrow> pass" where
  "list_service svc p =
     (let ref = ref_of KService (svc_meta svc)
      in (store ref (OService svc) p)\<lparr>p_guestSvcs := add_key ref (p_guestSvcs p)\<rparr>)"

definition gatherServices :: "env \<Rightarrow> pass \<Rightarrow> api_error option \<times> pass" where
  "gatherServices env p =
     (let (resp, p) = call env (GuestList KService []) p in
      case decode_list to_service resp of
        Inl e \<Rightarrow> (Some e, p)
      | Inr items \<Rightarrow>
          let p = fold list_service items p
          in if \<not> SyncServices (p_tc p) then (None, p)
             else (None, fold gather_service
                     (go_range (map_order env (p_trace p) ''gatherServices'') (p_guestSvcs p)) p))"

section \<open>Ingresses\<close>

text \<open>A listed object: it enters the store, and is noted if it carries the finalizer.\<close>

definition observe :: "obj \<Rightarrow> pass \<Rightarrow> pass" where
  "observe x p =
     (let ref = ref_of (kind_of x) (meta_of x)
      in noteFinalizerHolder (meta_of x) ref (store ref x p))"

definition desire_ingress :: "guest_ref \<Rightarrow> ingress \<Rightarrow> pass \<Rightarrow> pass" where
  "desire_ingress ref ing p =
     (let ns = om_namespace (ing_meta ing);
          res = mapIngress (p_tc p) ing (backendResolver p ns);
          p = fold (refuse ref) (ir_refusals res) p
      in case ir_host_ingress res of
           None \<Rightarrow> p
         | Some host \<Rightarrow>
             let hostName = om_name (ing_meta host)
             in addBackends ns (ir_backends res)
                  (wantFinalizer ref
                    (p\<lparr>p_ingresses := put hostName host (p_ingresses p),
                       p_ingressPairs := p_ingressPairs p @ [(ref, hostName)]\<rparr>)))"

definition gather_ingress :: "ingress \<Rightarrow> pass \<Rightarrow> pass" where
  "gather_ingress ing p =
     (let ref = ref_of KIngress (ing_meta ing);
          p = observe (OIngress ing) p
      in if om_deleting (ing_meta ing) then p
         else desire_ingress ref ing
           (inScope ref (\<lambda>c. c\<lparr>n_ingresses := n_ingresses c + 1\<rparr>) p))"

definition gatherIngresses :: "env \<Rightarrow> pass \<Rightarrow> api_error option \<times> pass" where
  "gatherIngresses env p =
     (let (resp, p) = call env (GuestList KIngress []) p in
      case decode_list to_ingress resp of
        Inl e \<Rightarrow> (Some e, p)
      | Inr items \<Rightarrow> (None, fold gather_ingress items p))"

section \<open>Gateways and HTTPRoutes\<close>

definition desire_gateway :: "guest_ref \<Rightarrow> gateway \<Rightarrow> pass \<Rightarrow> pass" where
  "desire_gateway ref gw p =
     (let (host, refusals) = mapGateway (p_tc p) gw;
          p = fold (refuse ref) refusals p
      in case host of
           None \<Rightarrow> p
         | Some host \<Rightarrow>
             let hostName = om_name (gw_meta host)
             in wantFinalizer ref
                  (p\<lparr>p_gateways := put hostName host (p_gateways p),
                     p_gatewayPairs := p_gatewayPairs p @ [(ref, hostName)],
                     p_hostOwner := put hostName ref (p_hostOwner p)\<rparr>))"

definition gather_gateway :: "gateway \<Rightarrow> pass \<Rightarrow> pass" where
  "gather_gateway gw p =
     (let ref = ref_of KGateway (gw_meta gw);
          p = observe (OGateway gw) p
      in if om_deleting (gw_meta gw) then p
         else desire_gateway ref gw
           (inScope ref (\<lambda>c. c\<lparr>n_gateways := n_gateways c + 1\<rparr>) p))"

definition desire_route :: "guest_ref \<Rightarrow> http_route \<Rightarrow> pass \<Rightarrow> pass" where
  "desire_route ref rt p =
     (let ns = om_namespace (rt_meta rt);
          res = mapHTTPRoute (p_tc p) rt (backendResolver p ns);
          p = fold (refuse ref) (rt_refusals res) p
      in case rt_host_route res of
           None \<Rightarrow> p
         | Some host \<Rightarrow>
             addBackends ns (rt_backends res)
               (wantFinalizer ref
                 (p\<lparr>p_routes := put (om_name (rt_meta host)) host (p_routes p)\<rparr>)))"

definition gather_route :: "http_route \<Rightarrow> pass \<Rightarrow> pass" where
  "gather_route rt p =
     (let ref = ref_of KHTTPRoute (rt_meta rt);
          p = observe (OHTTPRoute rt) p
      in if om_deleting (rt_meta rt) then p
         else desire_route ref rt
           (inScope ref (\<lambda>c. c\<lparr>n_httpRoutes := n_httpRoutes c + 1\<rparr>) p))"

definition gatherGateways :: "env \<Rightarrow> pass \<Rightarrow> api_error option \<times> pass" where
  "gatherGateways env p =
     (let (resp, p) = call env (GuestList KGateway []) p in
      case decode_list to_gateway resp of
        Inl e \<Rightarrow> if IsNoMatchError e then (None, p) else (Some e, p)
      | Inr gws \<Rightarrow>
          let p = fold gather_gateway gws p;
              (resp, p) = call env (GuestList KHTTPRoute []) p
          in case decode_list to_route resp of
               Inl e \<Rightarrow> if IsNoMatchError e then (None, p) else (Some e, p)
             | Inr rts \<Rightarrow> (None, fold gather_route rts p))"

end
