(* ===== verification/GatherInv.thy ===== *)
theory GatherInv
  imports Gather
begin

text \<open>
  What the gather phase establishes, operation by operation: every desired host object carries
  the tenant's labels in the tenant's host namespace under its own name, every host Service that
  a desired Ingress or HTTPRoute routes to is itself desired, every address claim comes from a
  Service that maps, and every desired object has its guest object pinned.
\<close>

section \<open>Frames\<close>

lemma helper_frames [simp]:
  "p_tc (refuse ref m p) = p_tc p" "p_tc (noteFinalizerHolder om ref p) = p_tc p"
  "p_tc (wantFinalizer ref p) = p_tc p" "p_tc (store ref x p) = p_tc p" "p_tc (problem m p) = p_tc p"
  "p_hostFamilies (refuse ref m p) = p_hostFamilies p"
  "p_hostFamilies (noteFinalizerHolder om ref p) = p_hostFamilies p"
  "p_hostFamilies (wantFinalizer ref p) = p_hostFamilies p"
  "p_hostFamilies (store ref x p) = p_hostFamilies p" "p_hostFamilies (problem m p) = p_hostFamilies p"
  "p_trace (refuse ref m p) = p_trace p" "p_trace (noteFinalizerHolder om ref p) = p_trace p"
  "p_trace (wantFinalizer ref p) = p_trace p" "p_trace (store ref x p) = p_trace p"
  "p_trace (problem m p) = p_trace p"
  "p_heap (refuse ref m p) = p_heap p" "p_heap (noteFinalizerHolder om ref p) = p_heap p"
  "p_heap (wantFinalizer ref p) = p_heap p" "p_heap (problem m p) = p_heap p"
  "p_services (refuse ref m p) = p_services p" "p_services (noteFinalizerHolder om ref p) = p_services p"
  "p_services (wantFinalizer ref p) = p_services p" "p_services (store ref x p) = p_services p"
  "p_services (problem m p) = p_services p"
  "p_ingresses (refuse ref m p) = p_ingresses p" "p_ingresses (noteFinalizerHolder om ref p) = p_ingresses p"
  "p_ingresses (wantFinalizer ref p) = p_ingresses p" "p_ingresses (store ref x p) = p_ingresses p"
  "p_ingresses (problem m p) = p_ingresses p"
  "p_gateways (refuse ref m p) = p_gateways p" "p_gateways (noteFinalizerHolder om ref p) = p_gateways p"
  "p_gateways (wantFinalizer ref p) = p_gateways p" "p_gateways (store ref x p) = p_gateways p"
  "p_gateways (problem m p) = p_gateways p"
  "p_routes (refuse ref m p) = p_routes p" "p_routes (noteFinalizerHolder om ref p) = p_routes p"
  "p_routes (wantFinalizer ref p) = p_routes p" "p_routes (store ref x p) = p_routes p"
  "p_routes (problem m p) = p_routes p"
  "p_lbPairs (refuse ref m p) = p_lbPairs p" "p_lbPairs (noteFinalizerHolder om ref p) = p_lbPairs p"
  "p_lbPairs (wantFinalizer ref p) = p_lbPairs p" "p_lbPairs (store ref x p) = p_lbPairs p"
  "p_lbPairs (problem m p) = p_lbPairs p"
  "p_gatewayPairs (refuse ref m p) = p_gatewayPairs p"
  "p_gatewayPairs (noteFinalizerHolder om ref p) = p_gatewayPairs p"
  "p_gatewayPairs (wantFinalizer ref p) = p_gatewayPairs p"
  "p_gatewayPairs (store ref x p) = p_gatewayPairs p" "p_gatewayPairs (problem m p) = p_gatewayPairs p"
  "p_backendNeeded (refuse ref m p) = p_backendNeeded p"
  "p_backendNeeded (noteFinalizerHolder om ref p) = p_backendNeeded p"
  "p_backendNeeded (wantFinalizer ref p) = p_backendNeeded p"
  "p_backendNeeded (store ref x p) = p_backendNeeded p" "p_backendNeeded (problem m p) = p_backendNeeded p"
  "p_wantFinalizer (refuse ref m p) = p_wantFinalizer p"
  "p_wantFinalizer (noteFinalizerHolder om ref p) = p_wantFinalizer p"
  "p_wantFinalizer (store ref x p) = p_wantFinalizer p" "p_wantFinalizer (problem m p) = p_wantFinalizer p"
  "p_gatewayAPIOnHost (refuse ref m p) = p_gatewayAPIOnHost p"
  "p_gatewayAPIOnHost (noteFinalizerHolder om ref p) = p_gatewayAPIOnHost p"
  "p_gatewayAPIOnHost (wantFinalizer ref p) = p_gatewayAPIOnHost p"
  "p_gatewayAPIOnHost (store ref x p) = p_gatewayAPIOnHost p"
  "p_gatewayAPIOnHost (problem m p) = p_gatewayAPIOnHost p"
  by (simp_all add: refuse_def noteFinalizerHolder_def wantFinalizer_def store_def problem_def)

lemma inScope_frames [simp]:
  "p_tc (inScope ref c p) = p_tc p" "p_hostFamilies (inScope ref c p) = p_hostFamilies p"
  "p_trace (inScope ref c p) = p_trace p" "p_heap (inScope ref c p) = p_heap p"
  "p_services (inScope ref c p) = p_services p" "p_ingresses (inScope ref c p) = p_ingresses p"
  "p_gateways (inScope ref c p) = p_gateways p" "p_routes (inScope ref c p) = p_routes p"
  "p_lbPairs (inScope ref c p) = p_lbPairs p" "p_gatewayPairs (inScope ref c p) = p_gatewayPairs p"
  "p_backendNeeded (inScope ref c p) = p_backendNeeded p"
  "p_wantFinalizer (inScope ref c p) = p_wantFinalizer p"
  by (simp_all add: inScope_def)

lemma p_wantFinalizer_want [simp]: "set (p_wantFinalizer (wantFinalizer ref p)) = insert ref (set (p_wantFinalizer p))"
  by (simp add: wantFinalizer_def)

lemma p_heap_store [simp]: "p_heap (store ref x p) = (p_heap p)(ref \<mapsto> x)"
  by (simp add: store_def)

lemma fold_refuse_frames [simp]:
  "p_tc (fold (refuse ref) ms p) = p_tc p" "p_hostFamilies (fold (refuse ref) ms p) = p_hostFamilies p"
  "p_trace (fold (refuse ref) ms p) = p_trace p" "p_heap (fold (refuse ref) ms p) = p_heap p"
  "p_services (fold (refuse ref) ms p) = p_services p"
  "p_ingresses (fold (refuse ref) ms p) = p_ingresses p"
  "p_gateways (fold (refuse ref) ms p) = p_gateways p" "p_routes (fold (refuse ref) ms p) = p_routes p"
  "p_lbPairs (fold (refuse ref) ms p) = p_lbPairs p"
  "p_gatewayPairs (fold (refuse ref) ms p) = p_gatewayPairs p"
  "p_backendNeeded (fold (refuse ref) ms p) = p_backendNeeded p"
  "p_wantFinalizer (fold (refuse ref) ms p) = p_wantFinalizer p"
  "p_gatewayAPIOnHost (fold (refuse ref) ms p) = p_gatewayAPIOnHost p"
  by (simp_all add: fold_frame)

lemma guestSvc_heap: "p_heap p = p_heap q \<Longrightarrow> guestSvc p = guestSvc q"
  by (simp add: guestSvc_def heap_as_def fun_eq_iff)

lemma backendResolver_cong:
  "p_heap p = p_heap q \<Longrightarrow> p_tc p = p_tc q \<Longrightarrow> p_hostFamilies p = p_hostFamilies q \<Longrightarrow>
   backendResolver p ns = backendResolver q ns"
  by (rule ext) (simp add: backendResolver_def guestSvc_heap [of p q] split: option.split)

text \<open>The fields no gather touches.\<close>

definition kept :: "pass \<Rightarrow> storage_state option \<times> bool \<times> bool" where
  "kept p = (p_storage p, p_pruneFailed p, p_gatewayAPIOnHost p)"

lemma kept_simps [simp]:
  "kept (refuse ref m p) = kept p" "kept (noteFinalizerHolder om ref p) = kept p"
  "kept (wantFinalizer ref p) = kept p" "kept (store ref x p) = kept p" "kept (problem m p) = kept p"
  "kept (inScope ref c p) = kept p" "kept (snd (call env r p)) = kept p"
  "kept (p\<lparr>p_services := a1\<rparr>) = kept p" "kept (p\<lparr>p_ingresses := a2\<rparr>) = kept p"
  "kept (p\<lparr>p_gateways := a3\<rparr>) = kept p" "kept (p\<lparr>p_routes := a4\<rparr>) = kept p"
  "kept (p\<lparr>p_guestSvcs := a5\<rparr>) = kept p" "kept (p\<lparr>p_backendNeeded := a6\<rparr>) = kept p"
  "kept (p\<lparr>p_hostOwner := a7\<rparr>) = kept p" "kept (p\<lparr>p_guestObjs := a8\<rparr>) = kept p"
  "kept (p\<lparr>p_lbPairs := a9\<rparr>) = kept p" "kept (p\<lparr>p_ingressPairs := a10\<rparr>) = kept p"
  "kept (p\<lparr>p_gatewayPairs := a11\<rparr>) = kept p" "kept (p\<lparr>p_wantFinalizer := a12\<rparr>) = kept p"
  "kept (p\<lparr>p_counts := a13\<rparr>) = kept p"
  by (simp_all add: kept_def refuse_def noteFinalizerHolder_def wantFinalizer_def store_def problem_def
      inScope_def)

lemma kept_fold: "(\<And>x q. x \<in> set xs \<Longrightarrow> kept (f x q) = kept q) \<Longrightarrow> kept (fold f xs p) = kept p"
  by (induction xs arbitrary: p) simp_all

lemma kept_fold_refuse [simp]: "kept (fold (refuse ref) ms p) = kept p"
  by (rule kept_fold) simp

section \<open>Backend resolution as an interface\<close>

text \<open>
  The host Service a guest Service can be reached by, if any; the resolver of a pass accepts a
  name exactly if there is one.
\<close>

definition hostBackend :: "pass \<Rightarrow> string \<Rightarrow> string \<Rightarrow> service option" where
  "hostBackend p ns name =
     (case guestSvc p ns name of
        None \<Rightarrow> None
      | Some svc \<Rightarrow>
          if om_deleting (svc_meta svc) then None
          else (case mapService (p_tc p) svc ServiceTypeClusterIP (p_hostFamilies p) of
                  Inl _ \<Rightarrow> None | Inr h \<Rightarrow> Some h))"

locale backend_resolver =
  fixes resolve :: "string \<Rightarrow> string"
    and backend :: "string \<Rightarrow> service option"
  assumes accepts_iff: "resolve n = [] \<longleftrightarrow> backend n \<noteq> None"
begin

lemma ingress_backend_exists: "n \<in> set (ir_backends (mapIngress tc g resolve)) \<Longrightarrow> \<exists>h. backend n = Some h"
  using mapIngress_backends_reachable accepts_iff by blast

lemma route_reference_exists:
  "rt_host_route (mapHTTPRoute tc g resolve) = Some h \<Longrightarrow> r \<in> route_refs h \<Longrightarrow>
   \<exists>n \<in> set (rt_backends (mapHTTPRoute tc g resolve)).
     or_name r = HostObjectName (tc_name tc) (om_namespace (rt_meta g)) n \<and> backend n \<noteq> None"
  using mapHTTPRoute_refs(1) accepts_iff unfolding mapped_refs_def by blast

end

interpretation br: backend_resolver "backendResolver p ns" "hostBackend p ns" for p ns
  by unfold_locales
    (auto simp: backendResolver_def hostBackend_def refusal_of_def
      dest: mapService_refusal_not_Nil split: option.splits sum.splits)

section \<open>The invariant of the desired state\<close>

text \<open>Metadata as every mapping stamps it: the key as name, the tenant's namespace and labels.\<close>

definition mapped_meta :: "tenant_cluster \<Rightarrow> string \<Rightarrow> obj_meta \<Rightarrow> bool" where
  "mapped_meta tc k m \<longleftrightarrow> om_name m = k \<and> om_namespace m = host_ns tc \<and>
     om_labels m \<in> range (ownershipLabels tc)"

definition desired_ok :: "pass \<Rightarrow> bool" where
  "desired_ok p \<longleftrightarrow>
     (\<forall>x \<in> set (p_services p). mapped_meta (p_tc p) (fst x) (svc_meta (snd x))) \<and>
     (\<forall>x \<in> set (p_ingresses p). mapped_meta (p_tc p) (fst x) (ing_meta (snd x))) \<and>
     (\<forall>x \<in> set (p_gateways p). mapped_meta (p_tc p) (fst x) (gw_meta (snd x))) \<and>
     (\<forall>x \<in> set (p_routes p). mapped_meta (p_tc p) (fst x) (rt_meta (snd x))) \<and>
     distinct (map fst (p_services p)) \<and> distinct (map fst (p_ingresses p)) \<and>
     distinct (map fst (p_gateways p)) \<and> distinct (map fst (p_routes p))"

text \<open>Store entries are filed under their own kind, namespace and name.\<close>

definition heap_ok :: "pass \<Rightarrow> bool" where
  "heap_ok p \<longleftrightarrow> (\<forall>ref x. p_heap p ref = Some x \<longrightarrow> ref = ref_of (kind_of x) (meta_of x))"

text \<open>The host object name of a guest object.\<close>

definition host_name_of :: "pass \<Rightarrow> guest_ref \<Rightarrow> string" where
  "host_name_of p ref = HostObjectName (tc_name (p_tc p)) (ref_ns ref) (ref_name ref)"

definition claim_ok :: "pass \<Rightarrow> guest_ref \<times> string \<Rightarrow> bool" where
  "claim_ok p c \<longleftrightarrow> ref_kind (fst c) = KService \<and> snd c = host_name_of p (fst c) \<and>
     (\<exists>svc h. p_heap p (fst c) = Some (OService svc) \<and>
        mapService (p_tc p) svc ServiceTypeLoadBalancer (p_hostFamilies p) = Inr h)"

definition claims_ok :: "pass \<Rightarrow> bool" where
  "claims_ok p \<longleftrightarrow> (\<forall>c \<in> set (p_lbPairs p). claim_ok p c) \<and>
     (\<forall>c \<in> set (p_gatewayPairs p). ref_kind (fst c) = KGateway \<and> snd c = host_name_of p (fst c))"

text \<open>Everything an Ingress or HTTPRoute sends traffic to is a needed backend, and desired.\<close>

definition routed :: "pass \<Rightarrow> bool" where
  "routed p \<longleftrightarrow>
     (\<forall>x \<in> set (p_ingresses p). routed_services (snd x) \<subseteq> Some ` set (p_backendNeeded p)) \<and>
     (\<forall>x \<in> set (p_routes p). or_name ` route_refs (snd x) \<subseteq> set (p_backendNeeded p))"

definition backed :: "pass \<Rightarrow> bool" where
  "backed p \<longleftrightarrow> set (p_backendNeeded p) \<subseteq> keys (p_services p)"

text \<open>Every desired host object comes from a guest object that is to carry the finalizer.\<close>

definition pins :: "pass \<Rightarrow> kind \<Rightarrow> string set" where
  "pins p k = host_name_of p ` {r \<in> set (p_wantFinalizer p). ref_kind r = k}"

definition pinned :: "pass \<Rightarrow> bool" where
  "pinned p \<longleftrightarrow> keys (p_services p) \<subseteq> pins p KService \<and> keys (p_ingresses p) \<subseteq> pins p KIngress \<and>
     keys (p_gateways p) \<subseteq> pins p KGateway \<and> keys (p_routes p) \<subseteq> pins p KHTTPRoute"

definition core_inv :: "pass \<Rightarrow> bool" where
  "core_inv p \<longleftrightarrow> desired_ok p \<and> heap_ok p \<and> claims_ok p \<and> backed p \<and> pinned p"

definition gather_inv :: "pass \<Rightarrow> bool" where
  "gather_inv p \<longleftrightarrow> core_inv p \<and> routed p"

lemma newPass_inv [simp]: "gather_inv (newPass tc gw fams hot images tr)"
  by (simp add: gather_inv_def core_inv_def desired_ok_def heap_ok_def claims_ok_def routed_def
      backed_def pinned_def newPass_def)

section \<open>Preservation\<close>

lemma set_put_subset: "set (put k v m) \<subseteq> insert (k, v) (set m)"
  by (induction m) auto

lemma in_putD: "x \<in> set (put k v m) \<Longrightarrow> x = (k, v) \<or> x \<in> set m"
  using set_put_subset [of k v m] by blast

lemma mapService_mapped_meta:
  assumes "mapService tc svc t fams = Inr h"
  shows "mapped_meta tc (HostObjectName (tc_name tc) (om_namespace (svc_meta svc)) (om_name (svc_meta svc))) (svc_meta h)"
  by (simp add: mapped_meta_def mapService_Inr_shape(1) [OF assms])

lemma heap_ok_service:
  assumes "heap_ok p" "p_heap p ref = Some (OService svc)"
  shows "ref = (KService, om_namespace (svc_meta svc), om_name (svc_meta svc))"
proof -
  have "ref = ref_of (kind_of (OService svc)) (meta_of (OService svc))"
    using assms unfolding heap_ok_def by blast
  then show ?thesis by (simp add: ref_of_def)
qed

lemma guestSvc_Some: "guestSvc p ns n = Some svc \<longleftrightarrow> p_heap p (KService, ns, n) = Some (OService svc)"
  unfolding guestSvc_def heap_as_def
  by (auto split: option.splits elim: to_service.elims)

lemma heap_as_service: "heap_as to_service p ref = Some svc \<longleftrightarrow> p_heap p ref = Some (OService svc)"
  unfolding heap_as_def by (auto split: option.splits elim: to_service.elims)

lemma pins_insert:
  "set (p_wantFinalizer q) = insert r (set (p_wantFinalizer p)) \<Longrightarrow> p_tc q = p_tc p \<Longrightarrow>
   pins q k = (if ref_kind r = k then insert (host_name_of p r) (pins p k) else pins p k)"
  by (auto simp: pins_def host_name_of_def)

lemma pins_same:
  "set (p_wantFinalizer q) = set (p_wantFinalizer p) \<Longrightarrow> p_tc q = p_tc p \<Longrightarrow> pins q k = pins p k"
  by (simp add: pins_def host_name_of_def)

text \<open>
  The invariant after the desired state and the pins changed: a bundle for the operations that
  add one desired object together with its pin.
\<close>

lemma core_inv_more:
  assumes "core_inv p"
    and "p_tc q = p_tc p" "p_hostFamilies q = p_hostFamilies p" "p_heap q = p_heap p"
      "p_lbPairs q = p_lbPairs p" "p_gatewayPairs q = p_gatewayPairs p"
    and "desired_ok q" "backed q" "pinned q"
  shows "core_inv q"
  using assms by (simp add: core_inv_def heap_ok_def claims_ok_def claim_ok_def host_name_of_def)

lemma add_backend_frames [simp]:
  "p_tc (add_backend ns n p) = p_tc p" "p_hostFamilies (add_backend ns n p) = p_hostFamilies p"
  "p_heap (add_backend ns n p) = p_heap p" "p_trace (add_backend ns n p) = p_trace p"
  "p_ingresses (add_backend ns n p) = p_ingresses p" "p_gateways (add_backend ns n p) = p_gateways p"
  "p_routes (add_backend ns n p) = p_routes p" "p_lbPairs (add_backend ns n p) = p_lbPairs p"
  "p_gatewayPairs (add_backend ns n p) = p_gatewayPairs p"
  by (simp_all add: add_backend_def Let_def split: option.split sum.split)

lemma addBackends_frames [simp]:
  "p_tc (addBackends ns ms p) = p_tc p" "p_hostFamilies (addBackends ns ms p) = p_hostFamilies p"
  "p_heap (addBackends ns ms p) = p_heap p" "p_trace (addBackends ns ms p) = p_trace p"
  "p_ingresses (addBackends ns ms p) = p_ingresses p" "p_gateways (addBackends ns ms p) = p_gateways p"
  "p_routes (addBackends ns ms p) = p_routes p" "p_lbPairs (addBackends ns ms p) = p_lbPairs p"
  "p_gatewayPairs (addBackends ns ms p) = p_gatewayPairs p"
  by (simp_all add: addBackends_def fold_frame)

lemma hostBackend_Some:
  "hostBackend p ns n = Some h \<longleftrightarrow>
     (\<exists>svc. p_heap p (KService, ns, n) = Some (OService svc) \<and> \<not> om_deleting (svc_meta svc) \<and>
        mapService (p_tc p) svc ServiceTypeClusterIP (p_hostFamilies p) = Inr h)"
  by (auto simp: hostBackend_def guestSvc_Some split: option.splits sum.splits)
    (auto simp flip: guestSvc_Some)

lemma hostBackend_frame:
  "p_tc q = p_tc p \<Longrightarrow> p_hostFamilies q = p_hostFamilies p \<Longrightarrow> p_heap q = p_heap p \<Longrightarrow>
   hostBackend q = hostBackend p"
  by (rule ext)+ (simp add: hostBackend_def guestSvc_heap [of q p] split: option.split)

lemma add_backend_Some:
  assumes "hostBackend p ns n = Some h"
  shows "add_backend ns n p =
     (let hn = HostObjectName (tc_name (p_tc p)) ns n;
          p' = p\<lparr>p_backendNeeded := add_key hn (p_backendNeeded p)\<rparr>
      in if hn \<in> keys (p_services p) then p'
         else wantFinalizer (KService, ns, n)
           (p'\<lparr>p_services := put hn h (p_services p), p_guestObjs := add_key (KService, ns, n) (p_guestObjs p)\<rparr>))"
proof -
  from assms obtain svc where svc: "guestSvc p ns n = Some svc"
    "mapService (p_tc p) svc ServiceTypeClusterIP (p_hostFamilies p) = Inr h"
    by (auto simp: hostBackend_Some guestSvc_Some)
  then show ?thesis by (simp add: add_backend_def Let_def)
qed

lemma add_backend_inv:
  assumes "core_inv p" and b: "hostBackend p ns n = Some h"
  shows "core_inv (add_backend ns n p) \<and>
     set (p_backendNeeded (add_backend ns n p)) =
       insert (HostObjectName (tc_name (p_tc p)) ns n) (set (p_backendNeeded p))"
proof -
  let ?hn = "HostObjectName (tc_name (p_tc p)) ns n" and ?q = "add_backend ns n p"
  obtain svc where svc: "p_heap p (KService, ns, n) = Some (OService svc)"
    "mapService (p_tc p) svc ServiceTypeClusterIP (p_hostFamilies p) = Inr h"
    using b by (auto simp: hostBackend_Some)
  have "ns = om_namespace (svc_meta svc)" "n = om_name (svc_meta svc)"
    using heap_ok_service [OF _ svc(1)] assms(1) by (auto simp: core_inv_def)
  then have meta: "mapped_meta (p_tc p) ?hn (svc_meta h)"
    using mapService_mapped_meta [OF svc(2)] by simp
  have inv: "desired_ok p" "backed p" "pinned p" using assms(1) by (simp_all add: core_inv_def)
  have need: "set (p_backendNeeded ?q) = insert ?hn (set (p_backendNeeded p))"
    unfolding add_backend_Some [OF b] by (simp add: Let_def)
  have svcs: "p_services ?q = (if ?hn \<in> keys (p_services p) then p_services p else put ?hn h (p_services p))"
    and fin: "set (p_wantFinalizer ?q) =
      (if ?hn \<in> keys (p_services p) then set (p_wantFinalizer p) else insert (KService, ns, n) (set (p_wantFinalizer p)))"
    unfolding add_backend_Some [OF b] by (simp_all add: Let_def)
  have "desired_ok ?q"
    using inv(1) meta unfolding desired_ok_def svcs by (auto dest!: in_putD)
  moreover have "backed ?q" using inv(2) unfolding backed_def need svcs by auto
  moreover have "pinned ?q"
  proof (cases "?hn \<in> keys (p_services p)")
    case True
    then have "pins ?q k = pins p k" for k using fin by (intro pins_same) simp_all
    then show ?thesis using inv(3) True by (simp add: pinned_def svcs)
  next
    case False
    then have "pins ?q k = (if KService = k then insert ?hn (pins p k) else pins p k)" for k
      using fin pins_insert [of ?q "(KService, ns, n)" p k] by (simp add: host_name_of_def)
    then show ?thesis using inv(3) False by (auto simp: pinned_def svcs)
  qed
  ultimately have "core_inv ?q" by (intro core_inv_more [OF assms(1)]) simp_all
  then show ?thesis using need by simp
qed

lemma addBackends_inv:
  assumes "core_inv p" and "\<And>n. n \<in> set ns' \<Longrightarrow> hostBackend p ns n \<noteq> None"
  shows "core_inv (addBackends ns ns' p) \<and>
     set (p_backendNeeded (addBackends ns ns' p)) =
       HostObjectName (tc_name (p_tc p)) ns ` set ns' \<union> set (p_backendNeeded p)"
  using assms
proof (induction ns' arbitrary: p)
  case (Cons n ns')
  then obtain h where "hostBackend p ns n = Some h" by fastforce
  note step = add_backend_inv [OF Cons.prems(1) this]
  have "hostBackend (add_backend ns n p) ns m \<noteq> None" if "m \<in> set ns'" for m
    using Cons.prems(2) that hostBackend_frame [of "add_backend ns n p" p] by simp
  then show ?case
    using Cons.IH [of "add_backend ns n p"] step by (simp add: addBackends_def)
qed (simp add: addBackends_def)

section \<open>Each gather keeps the invariant\<close>

text \<open>The fields the invariant reads.\<close>

definition same_desired :: "pass \<Rightarrow> pass \<Rightarrow> bool" where
  "same_desired q p \<longleftrightarrow>
     p_tc q = p_tc p \<and> p_hostFamilies q = p_hostFamilies p \<and> p_heap q = p_heap p \<and>
     p_services q = p_services p \<and> p_ingresses q = p_ingresses p \<and> p_gateways q = p_gateways p \<and>
     p_routes q = p_routes p \<and> p_lbPairs q = p_lbPairs p \<and> p_gatewayPairs q = p_gatewayPairs p \<and>
     p_backendNeeded q = p_backendNeeded p \<and> p_wantFinalizer q = p_wantFinalizer p \<and>
     kept q = kept p"

lemma same_desired_simps [simp]:
  "same_desired p p"
  "same_desired (refuse ref m q) p = same_desired q p"
  "same_desired (noteFinalizerHolder om ref q) p = same_desired q p"
  "same_desired (problem m q) p = same_desired q p"
  "same_desired (fold (refuse ref) ms q) p = same_desired q p"
  "same_desired (inScope ref c q) p = same_desired q p"
  "same_desired (snd (call env r q)) p = same_desired q p"
  by (simp_all add: same_desired_def)

lemma same_desired_trans: "same_desired r q \<Longrightarrow> same_desired q p \<Longrightarrow> same_desired r p"
  by (simp add: same_desired_def)

lemma same_desired_tc: "same_desired q p \<Longrightarrow> p_tc q = p_tc p \<and> p_heap q = p_heap p"
  by (simp add: same_desired_def)

lemma same_desired_inv:
  assumes "same_desired q p"
  shows "gather_inv q = gather_inv p" "core_inv q = core_inv p" "routed q = routed p"
  using assms
  by (simp_all add: same_desired_def gather_inv_def core_inv_def desired_ok_def heap_ok_def
      claims_ok_def claim_ok_def host_name_of_def backed_def pinned_def pins_def routed_def)

lemma gather_mapped_service:
  assumes inv: "gather_inv p" and svc: "heap_as to_service p ref = Some svc"
    and want: "wantsLoadBalancer (p_tc p) svc" "\<not> om_deleting (svc_meta svc)"
    and h: "mapService (p_tc p) svc ServiceTypeLoadBalancer (p_hostFamilies p) = Inr h"
  shows "gather_inv (gather_service ref p) \<and> p_tc (gather_service ref p) = p_tc p \<and>
     p_heap (gather_service ref p) = p_heap p \<and> p_trace (gather_service ref p) = p_trace p"
proof -
  let ?hn = "om_name (svc_meta h)" and ?q = "gather_service ref p"
  have i: "desired_ok p" "heap_ok p" "claims_ok p" "backed p" "pinned p" "routed p"
    using inv by (simp_all add: gather_inv_def core_inv_def)
  have heap: "p_heap p ref = Some (OService svc)" using svc by (simp add: heap_as_service)
  have ref: "ref = (KService, om_namespace (svc_meta svc), om_name (svc_meta svc))"
    by (rule heap_ok_service [OF i(2) heap])
  have hn: "?hn = host_name_of p ref"
    using mapService_mapped_meta [OF h] ref by (simp add: mapped_meta_def host_name_of_def)
  have meta: "mapped_meta (p_tc p) ?hn (svc_meta h)"
    using mapService_mapped_meta [OF h] by (simp add: mapped_meta_def)
  have q: "p_tc ?q = p_tc p" "p_hostFamilies ?q = p_hostFamilies p" "p_heap ?q = p_heap p"
    "p_services ?q = put ?hn h (p_services p)" "p_ingresses ?q = p_ingresses p"
    "p_gateways ?q = p_gateways p" "p_routes ?q = p_routes p"
    "p_lbPairs ?q = p_lbPairs p @ [(ref, ?hn)]" "p_gatewayPairs ?q = p_gatewayPairs p"
    "p_backendNeeded ?q = p_backendNeeded p" "p_trace ?q = p_trace p"
    "set (p_wantFinalizer ?q) = insert ref (set (p_wantFinalizer p))"
    using svc want h by (simp_all add: gather_service_def Let_def)
  have "desired_ok ?q" using i(1) meta unfolding desired_ok_def q by (auto dest!: in_putD)
  moreover have "heap_ok ?q" using i(2) unfolding heap_ok_def q .
  moreover have "claims_ok ?q"
    using i(3) h heap ref hn unfolding claims_ok_def claim_ok_def q host_name_of_def by auto
  moreover have "backed ?q" using i(4) unfolding backed_def q by auto
  moreover have "pins ?q k = (if ref_kind ref = k then insert ?hn (pins p k) else pins p k)" for k
    using pins_insert [OF q(12) q(1)] hn by simp
  then have "pinned ?q" using i(5) ref unfolding pinned_def q by auto
  moreover have "routed ?q" using i(6) unfolding routed_def q .
  ultimately show ?thesis using q by (simp add: gather_inv_def core_inv_def)
qed

lemma gather_service_inv:
  assumes "gather_inv p"
  shows "gather_inv (gather_service ref p) \<and> p_tc (gather_service ref p) = p_tc p \<and>
     p_heap (gather_service ref p) = p_heap p \<and> p_trace (gather_service ref p) = p_trace p"
proof (cases "heap_as to_service p ref")
  case None
  then show ?thesis using assms by (simp add: gather_service_def)
next
  case (Some svc)
  let ?r = "mapService (p_tc p) svc ServiceTypeLoadBalancer (p_hostFamilies p)"
  show ?thesis
  proof (cases "wantsLoadBalancer (p_tc p) svc \<and> \<not> om_deleting (svc_meta svc) \<and> (\<exists>h. ?r = Inr h)")
    case False
    have "same_desired (gather_service ref p) p" "p_trace (gather_service ref p) = p_trace p"
      using Some False by (cases ?r; simp add: gather_service_def Let_def)+
    then show ?thesis using assms same_desired_inv(1) same_desired_tc by metis
  next
    case True
    then show ?thesis using gather_mapped_service [OF assms Some] by blast
  qed
qed

lemma store_inv:
  assumes "gather_inv p" and ref: "ref = ref_of (kind_of x) (meta_of x)"
    and ok: "kind_of x \<noteq> KService \<or> p_lbPairs p = []"
  shows "gather_inv (store ref x p)"
proof -
  let ?q = "store ref x p"
  have inv: "desired_ok p" "heap_ok p" "claims_ok p" "backed p" "pinned p" "routed p"
    using assms by (simp_all add: gather_inv_def core_inv_def)
  have "claim_ok ?q c" if "c \<in> set (p_lbPairs p)" for c
  proof -
    have c: "claim_ok p c" using that inv(3) by (simp add: claims_ok_def)
    then have "fst c \<noteq> ref" using ok that ref by (auto simp: claim_ok_def ref_of_def)
    then show ?thesis using c by (simp add: claim_ok_def host_name_of_def)
  qed
  then have "claims_ok ?q" using inv(3) by (simp add: claims_ok_def host_name_of_def)
  moreover have "heap_ok ?q" using inv(2) ref by (auto simp: heap_ok_def)
  moreover have "pins ?q k = pins p k" for k by (rule pins_same) simp_all
  then have "pinned ?q" using inv(5) by (simp add: pinned_def)
  ultimately show ?thesis
    using inv by (simp add: gather_inv_def core_inv_def desired_ok_def backed_def routed_def)
qed

lemma list_services_inv:
  "gather_inv p \<Longrightarrow> p_lbPairs p = [] \<Longrightarrow>
   gather_inv (fold list_service items p) \<and> p_lbPairs (fold list_service items p) = [] \<and>
   p_tc (fold list_service items p) = p_tc p \<and> p_trace (fold list_service items p) = p_trace p"
proof (induction items arbitrary: p)
  case (Cons svc items)
  have "gather_inv (store (ref_of KService (svc_meta svc)) (OService svc) p)"
    using Cons.prems by (intro store_inv) simp_all
  moreover have "same_desired (list_service svc p) (store (ref_of KService (svc_meta svc)) (OService svc) p)"
    by (simp add: list_service_def Let_def same_desired_def)
  ultimately have "gather_inv (list_service svc p)" using same_desired_inv(1) by blast
  moreover have "p_lbPairs (list_service svc p) = []" "p_tc (list_service svc p) = p_tc p"
    "p_trace (list_service svc p) = p_trace p"
    using Cons.prems by (simp_all add: list_service_def Let_def)
  ultimately show ?case using Cons.IH by simp
qed simp

lemma fold_gather_services_inv:
  "gather_inv p \<Longrightarrow> gather_inv (fold gather_service refs p) \<and>
   p_tc (fold gather_service refs p) = p_tc p \<and> p_trace (fold gather_service refs p) = p_trace p"
  by (induction refs arbitrary: p) (simp_all add: gather_service_inv)

lemma observe_inv:
  assumes "gather_inv p" and "kind_of x \<noteq> KService \<or> p_lbPairs p = []"
  shows "gather_inv (observe x p)"
proof -
  have "gather_inv (store (ref_of (kind_of x) (meta_of x)) x p)" using assms by (intro store_inv) simp_all
  moreover have "same_desired (observe x p) (store (ref_of (kind_of x) (meta_of x)) x p)"
    by (simp add: observe_def Let_def)
  ultimately show ?thesis using same_desired_inv(1) by blast
qed

lemma observe_frames [simp]: "p_tc (observe x p) = p_tc p" "p_trace (observe x p) = p_trace p"
  by (simp_all add: observe_def Let_def)

lemma inScope_inv: "gather_inv p \<Longrightarrow> gather_inv (inScope ref c p)"
  using same_desired_inv(1) [of "inScope ref c p" p] by simp

lemma fold_refuse_inv: "gather_inv p \<Longrightarrow> gather_inv (fold (refuse ref) ms p)"
  using same_desired_inv(1) [of "fold (refuse ref) ms p" p] by simp

text \<open>
  One more desired object with its pin and the backends it routes to: the common step of
  \<open>desire_ingress\<close> and \<open>desire_route\<close>.
\<close>

lemma desire_with_backends:
  assumes "gather_inv p" and reach: "\<And>n. n \<in> set ns' \<Longrightarrow> hostBackend p ns n \<noteq> None"
    and q: "p_tc q = p_tc p" "p_hostFamilies q = p_hostFamilies p" "p_heap q = p_heap p"
      "p_services q = p_services p" "p_lbPairs q = p_lbPairs p" "p_gatewayPairs q = p_gatewayPairs p"
      "p_backendNeeded q = p_backendNeeded p" "p_trace q = p_trace p"
    and q_ok: "desired_ok q" "pinned q"
    and ing: "\<And>x. x \<in> set (p_ingresses q) \<Longrightarrow> x \<in> set (p_ingresses p) \<or>
      routed_services (snd x) \<subseteq> Some ` HostObjectName (tc_name (p_tc p)) ns ` set ns'"
    and rts: "\<And>x. x \<in> set (p_routes q) \<Longrightarrow> x \<in> set (p_routes p) \<or>
      or_name ` route_refs (snd x) \<subseteq> HostObjectName (tc_name (p_tc p)) ns ` set ns'"
  shows "gather_inv (addBackends ns ns' q) \<and> p_tc (addBackends ns ns' q) = p_tc p \<and>
     p_trace (addBackends ns ns' q) = p_trace p"
proof -
  have inv: "core_inv p" "routed p" using assms(1) by (simp_all add: gather_inv_def)
  have "backed q" using inv(1) by (simp add: core_inv_def backed_def q)
  then have "core_inv q" using q q_ok by (intro core_inv_more [OF inv(1)]) simp_all
  moreover have "hostBackend q = hostBackend p" by (rule hostBackend_frame) (simp_all add: q)
  ultimately have r: "core_inv (addBackends ns ns' q)"
    "set (p_backendNeeded (addBackends ns ns' q)) =
       HostObjectName (tc_name (p_tc p)) ns ` set ns' \<union> set (p_backendNeeded p)"
    using addBackends_inv [of q ns' ns] reach q by simp_all
  have "routed (addBackends ns ns' q)"
    unfolding routed_def r addBackends_frames
  proof (intro conjI ballI)
    fix x assume "x \<in> set (p_ingresses q)"
    then have "x \<in> set (p_ingresses p) \<or> routed_services (snd x) \<subseteq>
        Some ` HostObjectName (tc_name (p_tc p)) ns ` set ns'" by (rule ing)
    then show "routed_services (snd x) \<subseteq>
        Some ` (HostObjectName (tc_name (p_tc p)) ns ` set ns' \<union> set (p_backendNeeded p))"
      using inv(2) unfolding routed_def image_Un by blast
  next
    fix x assume "x \<in> set (p_routes q)"
    then have "x \<in> set (p_routes p) \<or> or_name ` route_refs (snd x) \<subseteq>
        HostObjectName (tc_name (p_tc p)) ns ` set ns'" by (rule rts)
    then show "or_name ` route_refs (snd x) \<subseteq>
        HostObjectName (tc_name (p_tc p)) ns ` set ns' \<union> set (p_backendNeeded p)"
      using inv(2) unfolding routed_def by blast
  qed
  then show ?thesis using r q by (simp add: gather_inv_def)
qed

lemma desire_ingress_inv:
  assumes "gather_inv p"
  shows "gather_inv (desire_ingress (ref_of KIngress (ing_meta ing)) ing p) \<and>
     p_tc (desire_ingress (ref_of KIngress (ing_meta ing)) ing p) = p_tc p \<and>
     p_trace (desire_ingress (ref_of KIngress (ing_meta ing)) ing p) = p_trace p"
proof -
  let ?ref = "ref_of KIngress (ing_meta ing)" and ?ns = "om_namespace (ing_meta ing)"
  let ?res = "mapIngress (p_tc p) ing (backendResolver p ?ns)"
  show ?thesis
  proof (cases "ir_host_ingress ?res")
    case None
    then show ?thesis using fold_refuse_inv [OF assms] by (simp add: desire_ingress_def Let_def)
  next
    case (Some h)
    let ?hn = "om_name (ing_meta h)" and ?p1 = "fold (refuse ?ref) (ir_refusals ?res) p"
    let ?q = "wantFinalizer ?ref (?p1\<lparr>p_ingresses := put ?hn h (p_ingresses ?p1),
      p_ingressPairs := p_ingressPairs ?p1 @ [(?ref, ?hn)]\<rparr>)"
    have inv: "desired_ok p" "pinned p" using assms by (simp_all add: gather_inv_def core_inv_def)
    have meta: "mapped_meta (p_tc p) ?hn (ing_meta h)" and hn: "?hn = host_name_of p ?ref"
      by (simp_all add: mapIngress_meta [OF Some] mapped_meta_def host_name_of_def ref_of_def)
    have "desired_ok ?q" using inv(1) meta by (auto simp: desired_ok_def dest!: in_putD)
    moreover have "pins ?q k = (if KIngress = k then insert ?hn (pins p k) else pins p k)" for k
      using pins_insert [of ?q ?ref p k] hn by (simp add: ref_of_def)
    then have "pinned ?q" using inv(2) by (auto simp: pinned_def)
    moreover have "routed_services h =
        Some ` HostObjectName (tc_name (p_tc p)) ?ns ` set (ir_backends ?res)"
      using mapIngress_routed [OF Some] by (simp add: image_image)
    then have "x \<in> set (p_ingresses ?q) \<Longrightarrow> x \<in> set (p_ingresses p) \<or>
        routed_services (snd x) \<subseteq> Some ` HostObjectName (tc_name (p_tc p)) ?ns ` set (ir_backends ?res)" for x
      by (auto dest!: in_putD)
    moreover have "desire_ingress ?ref ing p = addBackends ?ns (ir_backends ?res) ?q"
      using Some by (simp add: desire_ingress_def Let_def)
    ultimately show ?thesis
      using desire_with_backends [OF assms, of "ir_backends ?res" ?ns ?q]
        br.ingress_backend_exists [of _ "p_tc p" ing p ?ns] by auto
  qed
qed

lemma gather_ingress_inv:
  assumes "gather_inv p"
  shows "gather_inv (gather_ingress ing p) \<and> p_tc (gather_ingress ing p) = p_tc p \<and>
     p_trace (gather_ingress ing p) = p_trace p"
proof -
  have o: "gather_inv (observe (OIngress ing) p)" using assms by (intro observe_inv) simp_all
  then have "gather_inv (inScope r c (observe (OIngress ing) p))" for r c by (rule inScope_inv)
  from desire_ingress_inv [OF this] o show ?thesis by (simp add: gather_ingress_def Let_def)
qed

lemma desire_route_inv:
  assumes "gather_inv p"
  shows "gather_inv (desire_route (ref_of KHTTPRoute (rt_meta rt)) rt p) \<and>
     p_tc (desire_route (ref_of KHTTPRoute (rt_meta rt)) rt p) = p_tc p \<and>
     p_trace (desire_route (ref_of KHTTPRoute (rt_meta rt)) rt p) = p_trace p"
proof -
  let ?ref = "ref_of KHTTPRoute (rt_meta rt)" and ?ns = "om_namespace (rt_meta rt)"
  let ?res = "mapHTTPRoute (p_tc p) rt (backendResolver p ?ns)"
  show ?thesis
  proof (cases "rt_host_route ?res")
    case None
    then show ?thesis using fold_refuse_inv [OF assms] by (simp add: desire_route_def Let_def)
  next
    case (Some h)
    let ?hn = "om_name (rt_meta h)" and ?p1 = "fold (refuse ?ref) (rt_refusals ?res) p"
    let ?q = "wantFinalizer ?ref (?p1\<lparr>p_routes := put ?hn h (p_routes ?p1)\<rparr>)"
    have inv: "desired_ok p" "pinned p" using assms by (simp_all add: gather_inv_def core_inv_def)
    have meta: "mapped_meta (p_tc p) ?hn (rt_meta h)" and hn: "?hn = host_name_of p ?ref"
      by (simp_all add: mapHTTPRoute_Some(6) [OF Some] mapped_meta_def host_name_of_def ref_of_def)
    have "desired_ok ?q" using inv(1) meta by (auto simp: desired_ok_def dest!: in_putD)
    moreover have "pins ?q k = (if KHTTPRoute = k then insert ?hn (pins p k) else pins p k)" for k
      using pins_insert [of ?q ?ref p k] hn by (simp add: ref_of_def)
    then have "pinned ?q" using inv(2) by (auto simp: pinned_def)
    moreover have refs: "or_name ` route_refs h \<subseteq> HostObjectName (tc_name (p_tc p)) ?ns ` set (rt_backends ?res)"
      using br.route_reference_exists [OF Some] by blast
    then have "x \<in> set (p_routes ?q) \<Longrightarrow> x \<in> set (p_routes p) \<or>
        or_name ` route_refs (snd x) \<subseteq> HostObjectName (tc_name (p_tc p)) ?ns ` set (rt_backends ?res)" for x
      by (auto dest!: in_putD)
    moreover have "desire_route ?ref rt p = addBackends ?ns (rt_backends ?res) ?q"
      using Some by (simp add: desire_route_def Let_def)
    ultimately show ?thesis
      using desire_with_backends [OF assms, of "rt_backends ?res" ?ns ?q]
        mapHTTPRoute_backends_reachable [of _ "p_tc p" rt "backendResolver p ?ns"] br.accepts_iff [of p ?ns] by auto
  qed
qed

lemma gather_route_inv:
  assumes "gather_inv p"
  shows "gather_inv (gather_route rt p) \<and> p_tc (gather_route rt p) = p_tc p \<and>
     p_trace (gather_route rt p) = p_trace p"
proof -
  have o: "gather_inv (observe (OHTTPRoute rt) p)" using assms by (intro observe_inv) simp_all
  then have "gather_inv (inScope r c (observe (OHTTPRoute rt) p))" for r c by (rule inScope_inv)
  from desire_route_inv [OF this] o show ?thesis by (simp add: gather_route_def Let_def)
qed

lemma desire_gateway_inv:
  assumes "gather_inv p"
  shows "gather_inv (desire_gateway (ref_of KGateway (gw_meta gw)) gw p) \<and>
     p_tc (desire_gateway (ref_of KGateway (gw_meta gw)) gw p) = p_tc p \<and>
     p_trace (desire_gateway (ref_of KGateway (gw_meta gw)) gw p) = p_trace p"
proof -
  let ?ref = "ref_of KGateway (gw_meta gw)"
  obtain host ms where m: "mapGateway (p_tc p) gw = (host, ms)" by (cases "mapGateway (p_tc p) gw")
  show ?thesis
  proof (cases host)
    case None
    then show ?thesis using fold_refuse_inv [OF assms] m by (simp add: desire_gateway_def Let_def)
  next
    case (Some h)
    let ?hn = "om_name (gw_meta h)" and ?p1 = "fold (refuse ?ref) ms p"
    let ?q = "desire_gateway ?ref gw p"
    have inv: "desired_ok p" "pinned p" "heap_ok p" "claims_ok p" "backed p" "routed p"
      using assms by (simp_all add: gather_inv_def core_inv_def)
    have gm: "gw_meta h = no_meta\<lparr>
       om_name := HostObjectName (tc_name (p_tc p)) (om_namespace (gw_meta gw)) (om_name (gw_meta gw)),
       om_namespace := host_ns (p_tc p), om_labels := ownershipLabels (p_tc p) (gw_meta gw)\<rparr>"
      by (rule mapGateway_host_Some(4)) (simp add: m Some)
    then have meta: "mapped_meta (p_tc p) ?hn (gw_meta h)" and hn: "?hn = host_name_of p ?ref"
      by (simp_all add: mapped_meta_def host_name_of_def ref_of_def)
    have q: "p_tc ?q = p_tc p" "p_hostFamilies ?q = p_hostFamilies p" "p_heap ?q = p_heap p"
      "p_services ?q = p_services p" "p_ingresses ?q = p_ingresses p" "p_routes ?q = p_routes p"
      "p_gateways ?q = put ?hn h (p_gateways p)" "p_lbPairs ?q = p_lbPairs p"
      "p_gatewayPairs ?q = p_gatewayPairs p @ [(?ref, ?hn)]" "p_backendNeeded ?q = p_backendNeeded p"
      "p_trace ?q = p_trace p" "set (p_wantFinalizer ?q) = insert ?ref (set (p_wantFinalizer p))"
      using Some by (simp_all add: desire_gateway_def m Let_def)
    have "desired_ok ?q" using inv(1) meta unfolding desired_ok_def q by (auto dest!: in_putD)
    moreover have "pins ?q k = (if KGateway = k then insert ?hn (pins p k) else pins p k)" for k
      using pins_insert [OF q(12) q(1)] hn by (simp add: ref_of_def)
    then have "pinned ?q" using inv(2) unfolding pinned_def q by auto
    moreover have "claims_ok ?q"
      using inv(4) hn unfolding claims_ok_def claim_ok_def q host_name_of_def by (auto simp: ref_of_def)
    moreover have "heap_ok ?q" using inv(3) by (simp add: heap_ok_def q)
    moreover have "backed ?q" "routed ?q" using inv(5,6) by (simp_all add: backed_def routed_def q)
    ultimately show ?thesis using q by (simp add: gather_inv_def core_inv_def)
  qed
qed

lemma gather_gateway_inv:
  assumes "gather_inv p"
  shows "gather_inv (gather_gateway gw p) \<and> p_tc (gather_gateway gw p) = p_tc p \<and>
     p_trace (gather_gateway gw p) = p_trace p"
proof -
  have o: "gather_inv (observe (OGateway gw) p)" using assms by (intro observe_inv) simp_all
  then have "gather_inv (inScope r c (observe (OGateway gw) p))" for r c by (rule inScope_inv)
  from desire_gateway_inv [OF this] o show ?thesis by (simp add: gather_gateway_def Let_def)
qed

lemma fold_gather_inv:
  assumes "\<And>x p. gather_inv p \<Longrightarrow> gather_inv (f x p) \<and> p_tc (f x p) = p_tc p \<and> p_trace (f x p) = p_trace p"
  shows "gather_inv p \<Longrightarrow> gather_inv (fold f xs p) \<and> p_tc (fold f xs p) = p_tc p \<and>
    p_trace (fold f xs p) = p_trace p"
proof (induction xs arbitrary: p)
  case (Cons x xs)
  then show ?case using assms [of p x] by simp
qed simp

section \<open>The gather phase asks for guest lists only\<close>

definition guest_lists :: "event list \<Rightarrow> request \<Rightarrow> bool" where
  "guest_lists h r \<longleftrightarrow> (\<exists>k sel. r = GuestList k sel)"

lemma call_inv [simp]: "gather_inv (snd (call env r p)) = gather_inv p"
  by (rule same_desired_inv(1)) simp

lemma guest_lists_step [simp]: "trace_ext guest_lists t ((GuestList k sel, resp) # t)"
  by (rule trace_ext_one) (simp add: guest_lists_def)

lemma gatherServices_phase:
  assumes "gather_inv p" and "p_lbPairs p = []"
  shows "gather_inv (snd (gatherServices env p)) \<and> p_tc (snd (gatherServices env p)) = p_tc p \<and>
     trace_ext guest_lists (p_trace p) (p_trace (snd (gatherServices env p)))"
proof (cases "decode_list to_service (api env (p_trace p) (GuestList KService []))")
  case (Inl e)
  then show ?thesis using assms by (simp add: gatherServices_def split_beta Let_def)
next
  case (Inr items)
  let ?p1 = "fold list_service items (snd (call env (GuestList KService []) p))"
  have "gather_inv ?p1 \<and> p_tc ?p1 = p_tc p \<and> p_trace ?p1 = p_trace (snd (call env (GuestList KService []) p))"
    using list_services_inv [of "snd (call env (GuestList KService []) p)" items] assms by simp
  then show ?thesis
    using Inr fold_gather_services_inv [of ?p1] by (simp add: gatherServices_def split_beta Let_def)
qed

lemma gatherIngresses_phase:
  assumes "gather_inv p"
  shows "gather_inv (snd (gatherIngresses env p)) \<and> p_tc (snd (gatherIngresses env p)) = p_tc p \<and>
     trace_ext guest_lists (p_trace p) (p_trace (snd (gatherIngresses env p)))"
proof (cases "decode_list to_ingress (api env (p_trace p) (GuestList KIngress []))")
  case (Inl e)
  then show ?thesis using assms by (simp add: gatherIngresses_def split_beta Let_def)
next
  case (Inr items)
  then show ?thesis
    using assms fold_gather_inv [of gather_ingress "snd (call env (GuestList KIngress []) p)" items] gather_ingress_inv
    by (simp add: gatherIngresses_def split_beta Let_def)
qed

lemma gatherGateways_phase:
  assumes "gather_inv p"
  shows "gather_inv (snd (gatherGateways env p)) \<and> p_tc (snd (gatherGateways env p)) = p_tc p \<and>
     trace_ext guest_lists (p_trace p) (p_trace (snd (gatherGateways env p)))"
proof (cases "decode_list to_gateway (api env (p_trace p) (GuestList KGateway []))")
  case (Inl e)
  then show ?thesis using assms by (simp add: gatherGateways_def split_beta Let_def)
next
  case (Inr gws)
  let ?p1 = "fold gather_gateway gws (snd (call env (GuestList KGateway []) p))"
  let ?p2 = "snd (call env (GuestList KHTTPRoute []) ?p1)"
  have p1: "gather_inv ?p1 \<and> p_tc ?p1 = p_tc p \<and>
      p_trace ?p1 = p_trace (snd (call env (GuestList KGateway []) p))"
    using fold_gather_inv [of gather_gateway "snd (call env (GuestList KGateway []) p)" gws]
      gather_gateway_inv assms by simp
  then have t2: "trace_ext guest_lists (p_trace p) (p_trace ?p2)"
    by (simp add: trace_ext_trans [OF guest_lists_step])
  have "gather_inv ?p2" "p_tc ?p2 = p_tc p" using p1 by simp_all
  then have "gather_inv (fold gather_route rts ?p2) \<and> p_tc (fold gather_route rts ?p2) = p_tc p \<and>
      p_trace (fold gather_route rts ?p2) = p_trace ?p2" for rts
    using fold_gather_inv [of gather_route ?p2 rts] gather_route_inv by simp
  then show ?thesis
    using Inr p1 t2
    by (cases "decode_list to_route (api env (p_trace ?p1) (GuestList KHTTPRoute []))")
      (simp_all add: gatherGateways_def split_beta Let_def)
qed

end
