(* ===== verification/AddressLimit.thy ===== *)
theory AddressLimit
  imports GatherInv
begin

text \<open>
  The address limit of pass.go (design 3.6) and the guest GatewayClass: the claims on host
  addresses in their order, which of them are admitted, the withdrawal of a refused claim, and the
  one GatewayClass mirrored into the guest.
\<close>

section \<open>Claims and their order\<close>

text \<open>
  Claims are ordered by creation time, ties broken by UID.  The order is a type of its own, so
  that the library's sorting and its lemmas apply to it.
\<close>

datatype claim_key = ClaimKey instant string

fun key_created :: "claim_key \<Rightarrow> instant" where "key_created (ClaimKey t u) = t"
fun key_uid :: "claim_key \<Rightarrow> string" where "key_uid (ClaimKey t u) = u"

lemma claim_key_eqI: "key_created a = key_created b \<Longrightarrow> key_uid a = key_uid b \<Longrightarrow> a = b"
  by (cases a; cases b) simp

instantiation claim_key :: linorder
begin

definition less_eq_claim_key :: "claim_key \<Rightarrow> claim_key \<Rightarrow> bool" where
  "less_eq_claim_key a b \<longleftrightarrow>
     (if key_created a \<noteq> key_created b then key_created a < key_created b else key_uid a \<le> key_uid b)"

definition less_claim_key :: "claim_key \<Rightarrow> claim_key \<Rightarrow> bool" where
  "less_claim_key a b \<longleftrightarrow>
     (if key_created a \<noteq> key_created b then key_created a < key_created b else key_uid a < key_uid b)"

instance
  by standard
    (auto simp: less_eq_claim_key_def less_claim_key_def intro: claim_key_eqI split: if_splits)

end

record address_claim =
  ac_ref :: guest_ref
  ac_hostName :: string
  ac_key :: claim_key
  ac_existing :: bool

definition claim_of :: "pass \<Rightarrow> guest_ref \<times> string \<Rightarrow> address_claim" where
  "claim_of p pair =
     (let m = (case p_heap p (fst pair) of None \<Rightarrow> no_meta | Some x \<Rightarrow> meta_of x)
      in \<lparr>ac_ref = fst pair, ac_hostName = snd pair,
          ac_key = ClaimKey (om_created m) (om_uid m), ac_existing = False\<rparr>)"

text \<open>
  \<open>sort.Slice\<close> is not stable: claims with equal keys may come out in any order, the order the
  environment picks.
\<close>

definition claims_in_order :: "(nat \<Rightarrow> nat) \<Rightarrow> pass \<Rightarrow> address_claim list" where
  "claims_in_order pick p =
     sort_key ac_key (go_range pick (map (claim_of p) (p_lbPairs p) @ map (claim_of p) (p_gatewayPairs p)))"

section \<open>Admission\<close>

definition hostObjectExists :: "env \<Rightarrow> address_claim \<Rightarrow> pass \<Rightarrow> bool \<times> pass" where
  "hostObjectExists env c p =
     (let ns = host_ns (p_tc p); k = ref_kind (ac_ref c) in
      if k = KService then
        (let (resp, p) = call env (HostGet KService ns (ac_hostName c)) p in
         case decode_with to_service resp of
           Inl e \<Rightarrow> (False, p)
         | Inr have \<Rightarrow> (ownedBy (svc_meta have) (p_tc p) \<and> svc_type have = ServiceTypeLoadBalancer, p))
      else if k = KGateway then
        if \<not> p_gatewayAPIOnHost p then (False, p)
        else
          (let (resp, p) = call env (HostGet KGateway ns (ac_hostName c)) p in
           case decode_with to_gateway resp of
             Inl e \<Rightarrow> (False, p)
           | Inr have \<Rightarrow> (ownedBy (gw_meta have) (p_tc p), p))
      else (False, p))"

fun mark_existing :: "env \<Rightarrow> address_claim list \<Rightarrow> pass \<Rightarrow> address_claim list \<times> pass" where
  "mark_existing env [] p = ([], p)"
| "mark_existing env (c # cs) p =
     (let (b, p) = hostObjectExists env c p;
          (cs, p) = mark_existing env cs p
      in (c\<lparr>ac_existing := b\<rparr> # cs, p))"

text \<open>The admission loop: the number admitted, and the refused claims.\<close>

fun admit :: "int \<Rightarrow> nat \<Rightarrow> address_claim list \<Rightarrow> nat \<times> address_claim list" where
  "admit limit admitted [] = (admitted, [])"
| "admit limit admitted (c # cs) =
     (if ac_existing c then admit limit (admitted + 1) cs
      else if int admitted < limit then admit limit (admitted + 1) cs
      else let (n, refused) = admit limit admitted cs in (n, c # refused))"

definition msg_limit :: "int \<Rightarrow> nat \<Rightarrow> string" where
  "msg_limit limit admitted = ''address limit reached: this cluster may hold '' @ show_int limit @
     '' host endpoint(s) consuming an address (LoadBalancer Services and Gateways together) and '' @
     show_nat admitted @ '' are in use; delete one, or ask the operator to raise the limit''"

section \<open>Withdrawal\<close>

fun remove_pair :: "string \<Rightarrow> (guest_ref \<times> string) list \<Rightarrow> (guest_ref \<times> string) list" where
  "remove_pair h [] = []"
| "remove_pair h (x # xs) = (if snd x = h then xs else x # remove_pair h xs)"

definition unwantFinalizer :: "guest_ref \<Rightarrow> pass \<Rightarrow> pass" where
  "unwantFinalizer ref p = p\<lparr>p_wantFinalizer := removeAll ref (p_wantFinalizer p)\<rparr>"

text \<open>The ClusterIP Service that stays behind for a withdrawn LoadBalancer, if one is needed.\<close>

definition downgraded :: "address_claim \<Rightarrow> pass \<Rightarrow> service option" where
  "downgraded c p =
     (if ac_hostName c \<notin> set (p_backendNeeded p) then None
      else case guestSvc p (ref_ns (ac_ref c)) (ref_name (ac_ref c)) of
        None \<Rightarrow> None
      | Some guest \<Rightarrow>
          (case mapService (p_tc p) guest ServiceTypeClusterIP (p_hostFamilies p) of
             Inl _ \<Rightarrow> None | Inr backend \<Rightarrow> Some backend))"

definition withdrawClaim :: "address_claim \<Rightarrow> pass \<Rightarrow> pass" where
  "withdrawClaim c p =
     (let h = ac_hostName c; k = ref_kind (ac_ref c) in
      if k = KService then
        let p = p\<lparr>p_lbPairs := remove_pair h (p_lbPairs p)\<rparr>
        in case downgraded c p of
             Some backend \<Rightarrow> p\<lparr>p_services := put h backend (p_services p)\<rparr>
           | None \<Rightarrow> unwantFinalizer (ac_ref c) (p\<lparr>p_services := del h (p_services p)\<rparr>)
      else if k = KGateway then
        unwantFinalizer (ac_ref c)
          (p\<lparr>p_gatewayPairs := remove_pair h (p_gatewayPairs p), p_gateways := del h (p_gateways p)\<rparr>)
      else unwantFinalizer (ac_ref c) p)"

definition set_loadBalancers :: "nat \<Rightarrow> pass \<Rightarrow> pass" where
  "set_loadBalancers n p = p\<lparr>p_counts := (p_counts p)\<lparr>n_loadBalancers := n\<rparr>\<rparr>"

definition refuse_claim :: "string \<Rightarrow> address_claim \<Rightarrow> pass \<Rightarrow> pass" where
  "refuse_claim msg c p = withdrawClaim c (refuse (ac_ref c) msg p)"

definition applyAddressLimit :: "env \<Rightarrow> pass \<Rightarrow> pass" where
  "applyAddressLimit env p =
     (let (limit, capped) = LoadBalancerLimit (p_tc p);
          claims = claims_in_order (map_order env (p_trace p) ''sort.Slice'') p
      in if \<not> capped then set_loadBalancers (length claims) p
         else
           let (claims, p) = mark_existing env claims p;
               (admitted, refused) = admit limit 0 claims
           in fold (refuse_claim (msg_limit limit admitted)) refused (set_loadBalancers admitted p))"

section \<open>The guest GatewayClass\<close>

definition class_problem :: "string \<Rightarrow> string \<Rightarrow> api_error \<Rightarrow> pass \<Rightarrow> pass" where
  "class_problem what name e = problem (what @ quote name @ '': '' @ err_text e)"

definition accept_class :: "env \<Rightarrow> string \<Rightarrow> gateway_class \<Rightarrow> pass \<Rightarrow> pass" where
  "accept_class env wanted existing p =
     (let (changed, conds) = set_condition env
            (gatewayClassAcceptedCondition (om_generation (gc_meta existing))) (gc_conditions existing)
      in if \<not> changed then p
         else let (resp, p) = call env (GuestStatusUpdate (OGatewayClass (existing\<lparr>gc_conditions := conds\<rparr>))) p
              in case write_error resp of
                   None \<Rightarrow> p
                 | Some e \<Rightarrow> problem (''marking guest GatewayClass '' @ quote wanted @ '' accepted: '' @ err_text e) p)"

definition remove_class :: "env \<Rightarrow> string \<Rightarrow> gateway_class \<Rightarrow> pass \<Rightarrow> pass" where
  "remove_class env wanted gc p =
     (if om_name (gc_meta gc) = wanted then p
      else let (resp, p) = call env (GuestDelete (OGatewayClass gc)) p
           in case write_error resp of
                None \<Rightarrow> p
              | Some e \<Rightarrow> if IsNotFound e then p
                  else class_problem ''deleting guest GatewayClass '' (om_name (gc_meta gc)) e p)"

definition replace_class :: "env \<Rightarrow> string \<Rightarrow> gateway_class \<Rightarrow> gateway_class \<Rightarrow> pass \<Rightarrow> pass" where
  "replace_class env wanted existing want p =
     (let (resp, p) = call env (GuestDelete (OGatewayClass existing)) p;
          create = (\<lambda>p. let (resp, p) = call env (GuestCreate (OGatewayClass want)) p in
            case decode_write to_gateway_class want resp of
              Inl e \<Rightarrow> class_problem ''recreating guest GatewayClass '' wanted e p
            | Inr created \<Rightarrow> accept_class env wanted created p)
      in case write_error resp of
           None \<Rightarrow> create p
         | Some e \<Rightarrow> if IsNotFound e then create p
             else class_problem ''replacing guest GatewayClass '' wanted e p)"

definition class_drifted :: "gateway_class \<Rightarrow> gateway_class \<Rightarrow> bool" where
  "class_drifted existing want \<longleftrightarrow>
     gc_description existing \<noteq> gc_description want \<or>
     at (om_labels (gc_meta existing)) ManagedByLabel \<noteq> ManagedByValue \<or>
     at (om_annotations (gc_meta existing)) AllowedDomainsAnnotation \<noteq>
       at (om_annotations (gc_meta want)) AllowedDomainsAnnotation"

definition update_class :: "env \<Rightarrow> string \<Rightarrow> gateway_class \<Rightarrow> gateway_class \<Rightarrow> pass \<Rightarrow> pass" where
  "update_class env wanted existing want p =
     (let m = gc_meta existing;
          existing = existing\<lparr>gc_description := gc_description want,
            gc_meta := m\<lparr>om_labels := mergeLabels (om_labels m) (om_labels (gc_meta want)),
                         om_annotations := mergeLabels (om_annotations m) (om_annotations (gc_meta want))\<rparr>\<rparr>;
          (resp, p) = call env (GuestUpdate (OGatewayClass existing)) p
      in case decode_write to_gateway_class existing resp of
           Inl e \<Rightarrow> class_problem ''updating guest GatewayClass '' wanted e p
         | Inr existing \<Rightarrow> accept_class env wanted existing p)"

definition assert_class :: "env \<Rightarrow> string \<Rightarrow> pass \<Rightarrow> pass" where
  "assert_class env wanted p =
     (let want = mirrorGatewayClass (p_tc p);
          (resp, p) = call env (GuestGet KGatewayClass [] wanted) p
      in case decode_with to_gateway_class resp of
           Inl e \<Rightarrow>
             if \<not> IsNotFound e then class_problem ''reading guest GatewayClass '' wanted e p
             else let (resp, p) = call env (GuestCreate (OGatewayClass want)) p in
               (case decode_write to_gateway_class want resp of
                  Inl e \<Rightarrow> if IsAlreadyExists e then accept_class env wanted want p
                    else class_problem ''creating guest GatewayClass '' wanted e p
                | Inr created \<Rightarrow> accept_class env wanted created p)
         | Inr existing \<Rightarrow>
             if gc_controllerName existing \<noteq> gc_controllerName want
             then replace_class env wanted existing want p
             else if class_drifted existing want then update_class env wanted existing want p
             else accept_class env wanted existing p)"

definition wanted_class :: "pass \<Rightarrow> string" where
  "wanted_class p =
     (if SyncGateways (p_tc p) \<and> p_gatewayAPIOnHost p \<and> gatewayClassName (tc_spec (p_tc p)) \<noteq> []
      then gatewayClassName (tc_spec (p_tc p)) else [])"

definition reconcileGuestGatewayClass :: "env \<Rightarrow> pass \<Rightarrow> pass" where
  "reconcileGuestGatewayClass env p =
     (let (resp, p) = call env (GuestList KGatewayClass managedSelector) p in
      case decode_list to_gateway_class resp of
        Inl e \<Rightarrow> if IsNoMatchError e then p
          else problem (''listing guest GatewayClasses: '' @ err_text e) p
      | Inr have \<Rightarrow>
          let wanted = wanted_class p;
              p = fold (remove_class env wanted) have p
          in if wanted = [] then p else assert_class env wanted p)"

section \<open>Facts on admission\<close>

lemma admit_length: "length (snd (admit limit n cs)) \<le> length cs"
proof (induction limit n cs rule: admit.induct)
  case (2 limit n c cs)
  then show ?case by (cases "ac_existing c") (auto simp: split_beta Let_def)
qed simp

lemma admit_facts:
  "set (snd (admit limit n cs)) \<subseteq> {c \<in> set cs. \<not> ac_existing c} \<and>
   fst (admit limit n cs) + length (snd (admit limit n cs)) = n + length cs \<and>
   (snd (admit limit n cs) = [] \<or> limit \<le> int (fst (admit limit n cs))) \<and>
   int (fst (admit limit n cs)) \<le> max limit (int n) + int (length (filter ac_existing cs))"
proof (induction limit n cs rule: admit.induct)
  case (2 limit n c cs)
  show ?case
  proof (cases "ac_existing c \<or> int n < limit")
    case True
    then have "admit limit n (c # cs) = admit limit (n + 1) cs" by auto
    moreover have "max limit (int (n + 1)) + int (length (filter ac_existing cs)) \<le>
        max limit (int n) + int (length (filter ac_existing (c # cs)))" using True by auto
    moreover note 2(1) 2(2)
    ultimately show ?thesis using True by (cases "ac_existing c") auto
  next
    case False
    then have "limit \<le> int n" by simp
    obtain m rs where r: "admit limit n cs = (m, rs)" by (cases "admit limit n cs")
    have IH: "set rs \<subseteq> {c \<in> set cs. \<not> ac_existing c}" "m + length rs = n + length cs"
      "rs = [] \<or> limit \<le> int m" "int m \<le> max limit (int n) + int (length (filter ac_existing cs))"
      using 2(3) False r by auto
    have "length rs \<le> length cs" using admit_length [of limit n cs] r by simp
    then have "limit \<le> int m" using IH(2) \<open>limit \<le> int n\<close> by linarith
    then show ?thesis using False r IH by auto
  qed
qed simp

section \<open>The limit keeps the invariant of the desired state\<close>

definition claim_valid :: "pass \<Rightarrow> address_claim \<Rightarrow> bool" where
  "claim_valid p c \<longleftrightarrow> claim_ok p (ac_ref c, ac_hostName c) \<or>
     (ref_kind (ac_ref c) = KGateway \<and> ac_hostName c = host_name_of p (ac_ref c))"

lemma claim_valid_frame:
  "p_tc q = p_tc p \<Longrightarrow> p_heap q = p_heap p \<Longrightarrow> p_hostFamilies q = p_hostFamilies p \<Longrightarrow>
   claim_valid q c = claim_valid p c"
  by (simp add: claim_valid_def claim_ok_def host_name_of_def)

lemma set_remove_pair: "set (remove_pair h xs) \<subseteq> set xs"
  by (induction xs) auto

lemma unwantFinalizer_frames [simp]:
  "p_tc (unwantFinalizer ref p) = p_tc p" "p_hostFamilies (unwantFinalizer ref p) = p_hostFamilies p"
  "p_heap (unwantFinalizer ref p) = p_heap p" "p_trace (unwantFinalizer ref p) = p_trace p"
  "p_services (unwantFinalizer ref p) = p_services p" "p_ingresses (unwantFinalizer ref p) = p_ingresses p"
  "p_gateways (unwantFinalizer ref p) = p_gateways p" "p_routes (unwantFinalizer ref p) = p_routes p"
  "p_lbPairs (unwantFinalizer ref p) = p_lbPairs p"
  "p_gatewayPairs (unwantFinalizer ref p) = p_gatewayPairs p"
  "p_backendNeeded (unwantFinalizer ref p) = p_backendNeeded p"
  "set (p_wantFinalizer (unwantFinalizer ref p)) = set (p_wantFinalizer p) - {ref}"
  by (simp_all add: unwantFinalizer_def)

lemma pins_remove:
  assumes "set (p_wantFinalizer q) = set (p_wantFinalizer p) - {r}" "p_tc q = p_tc p"
  shows "pins p k - {host_name_of p r} \<subseteq> pins q k" and "ref_kind r \<noteq> k \<Longrightarrow> pins q k = pins p k"
  using assms by (auto simp: pins_def host_name_of_def)

text \<open>
  The ClusterIP mapping of a Service that maps as a LoadBalancer never fails, so a needed
  backend is never lost with the claim.
\<close>

lemma mapService_downgrade:
  assumes "mapService tc g ServiceTypeLoadBalancer fs = Inr h"
  shows "\<exists>h'. mapService tc g ServiceTypeClusterIP fs = Inr h'"
  using assms unfolding mapService_Inr_iff by (auto simp: families_for_def)

text \<open>A withdrawn Gateway goes; a withdrawn Service goes or becomes the backend it is needed as.\<close>

lemma withdraw_gateway:
  assumes inv: "gather_inv p" and name: "ac_hostName c = host_name_of p (ac_ref c)" and gw: "ref_kind (ac_ref c) = KGateway"
  shows "gather_inv (withdrawClaim c p) \<and> p_tc (withdrawClaim c p) = p_tc p \<and>
     p_heap (withdrawClaim c p) = p_heap p \<and> p_hostFamilies (withdrawClaim c p) = p_hostFamilies p \<and>
     p_trace (withdrawClaim c p) = p_trace p"
proof -
  let ?h = "ac_hostName c" and ?q = "withdrawClaim c p"
  have i: "desired_ok p" "heap_ok p" "claims_ok p" "backed p" "pinned p" "routed p"
    using inv by (simp_all add: gather_inv_def core_inv_def)
  have q: "p_tc ?q = p_tc p" "p_hostFamilies ?q = p_hostFamilies p" "p_heap ?q = p_heap p"
    "p_services ?q = p_services p" "p_ingresses ?q = p_ingresses p" "p_routes ?q = p_routes p"
    "p_gateways ?q = del ?h (p_gateways p)" "p_lbPairs ?q = p_lbPairs p"
    "p_gatewayPairs ?q = remove_pair ?h (p_gatewayPairs p)" "p_backendNeeded ?q = p_backendNeeded p"
    "p_trace ?q = p_trace p" "set (p_wantFinalizer ?q) = set (p_wantFinalizer p) - {ac_ref c}"
    using gw by (simp_all add: withdrawClaim_def Let_def)
  have "desired_ok ?q" using i(1) del_values [of ?h "p_gateways p"] unfolding desired_ok_def q by auto
  moreover have "claims_ok ?q"
    using i(3) set_remove_pair [of ?h "p_gatewayPairs p"]
    unfolding claims_ok_def claim_ok_def q host_name_of_def by auto
  moreover note rm = pins_remove [OF q(12) q(1)]
  have "pinned ?q" using i(5) gw rm(1) [of KGateway] rm(2) name by (auto simp: pinned_def q)
  moreover have "heap_ok ?q" "backed ?q" "routed ?q"
    using i by (simp_all add: heap_ok_def backed_def routed_def q)
  ultimately show ?thesis using q by (simp add: gather_inv_def core_inv_def)
qed

lemma withdraw_service_fields:
  assumes "ref_kind (ac_ref c) = KService"
    and g: "guestSvc p (ref_ns (ac_ref c)) (ref_name (ac_ref c)) = Some g"
    and b: "mapService (p_tc p) g ServiceTypeClusterIP (p_hostFamilies p) = Inr b"
  defines "h \<equiv> ac_hostName c" and "q \<equiv> withdrawClaim c p"
  shows "p_tc q = p_tc p" "p_hostFamilies q = p_hostFamilies p" "p_heap q = p_heap p"
    "p_services q = (if h \<in> set (p_backendNeeded p) then put h b (p_services p) else del h (p_services p))"
    "p_ingresses q = p_ingresses p" "p_routes q = p_routes p"
    "p_gateways q = p_gateways p" "p_lbPairs q = remove_pair h (p_lbPairs p)"
    "p_gatewayPairs q = p_gatewayPairs p" "p_backendNeeded q = p_backendNeeded p" "p_trace q = p_trace p"
    "set (p_wantFinalizer q) = (if h \<in> set (p_backendNeeded p) then set (p_wantFinalizer p)
       else set (p_wantFinalizer p) - {ac_ref c})"
proof -
  have "guestSvc (p\<lparr>p_lbPairs := xs\<rparr>) = guestSvc p" for xs by (rule guestSvc_heap) simp
  then have d: "downgraded c (p\<lparr>p_lbPairs := xs\<rparr>) = (if h \<in> set (p_backendNeeded p) then Some b else None)" for xs
    using g b by (simp add: downgraded_def h_def)
  show "p_tc q = p_tc p" "p_hostFamilies q = p_hostFamilies p" "p_heap q = p_heap p"
    "p_services q = (if h \<in> set (p_backendNeeded p) then put h b (p_services p) else del h (p_services p))"
    "p_ingresses q = p_ingresses p" "p_routes q = p_routes p"
    "p_gateways q = p_gateways p" "p_lbPairs q = remove_pair h (p_lbPairs p)"
    "p_gatewayPairs q = p_gatewayPairs p" "p_backendNeeded q = p_backendNeeded p" "p_trace q = p_trace p"
    "set (p_wantFinalizer q) = (if h \<in> set (p_backendNeeded p) then set (p_wantFinalizer p)
       else set (p_wantFinalizer p) - {ac_ref c})"
    using assms(1) by (simp_all add: q_def h_def withdrawClaim_def d [unfolded h_def] Let_def)
qed

lemma withdraw_service:
  assumes inv: "gather_inv p" and name: "ac_hostName c = host_name_of p (ac_ref c)" and svc: "claim_ok p (ac_ref c, ac_hostName c)"
  shows "gather_inv (withdrawClaim c p) \<and> p_tc (withdrawClaim c p) = p_tc p \<and>
     p_heap (withdrawClaim c p) = p_heap p \<and> p_hostFamilies (withdrawClaim c p) = p_hostFamilies p \<and>
     p_trace (withdrawClaim c p) = p_trace p"
proof -
  let ?h = "ac_hostName c" and ?q = "withdrawClaim c p"
  have i: "desired_ok p" "heap_ok p" "claims_ok p" "backed p" "pinned p" "routed p"
    using inv by (simp_all add: gather_inv_def core_inv_def)
  obtain g h where g: "p_heap p (ac_ref c) = Some (OService g)"
    "mapService (p_tc p) g ServiceTypeLoadBalancer (p_hostFamilies p) = Inr h"
    and k: "ref_kind (ac_ref c) = KService" using svc by (auto simp: claim_ok_def)
  obtain b where b: "mapService (p_tc p) g ServiceTypeClusterIP (p_hostFamilies p) = Inr b"
    using mapService_downgrade [OF g(2)] by blast
  have ref: "ac_ref c = (KService, om_namespace (svc_meta g), om_name (svc_meta g))"
    by (rule heap_ok_service [OF i(2) g(1)])
  have gs: "guestSvc p (ref_ns (ac_ref c)) (ref_name (ac_ref c)) = Some g"
    using g(1) ref by (simp add: guestSvc_Some)
  have meta: "mapped_meta (p_tc p) ?h (svc_meta b)"
    using mapService_mapped_meta [OF b] name ref by (simp add: host_name_of_def)
  let ?need = "?h \<in> set (p_backendNeeded p)"
  note q = withdraw_service_fields [OF k gs b]
  have "desired_ok ?q" using i(1) meta del_values [of ?h "p_services p"]
    unfolding desired_ok_def q by (auto dest!: in_putD)
  moreover have "claims_ok ?q"
    using i(3) set_remove_pair [of ?h "p_lbPairs p"]
    unfolding claims_ok_def claim_ok_def q host_name_of_def by blast
  moreover have "backed ?q" using i(4) by (auto simp: backed_def q)
  moreover have "pinned ?q"
  proof (cases ?need)
    case True
    then have "?h \<in> pins p KService" using i(4,5) by (auto simp: backed_def pinned_def)
    moreover have "pins ?q k = pins p k" for k using True q by (intro pins_same) simp_all
    ultimately show ?thesis using i(5) True by (auto simp: pinned_def q)
  next
    case False
    then have "set (p_wantFinalizer ?q) = set (p_wantFinalizer p) - {ac_ref c}" using q by simp
    note rm = pins_remove [OF this q(1)]
    show ?thesis using i(5) False rm(1) [of KService] rm(2) k name by (auto simp: pinned_def q)
  qed
  moreover have "heap_ok ?q" "routed ?q" using i by (simp_all add: heap_ok_def routed_def q)
  ultimately show ?thesis using q by (simp add: gather_inv_def core_inv_def)
qed

lemma withdrawClaim_inv:
  assumes inv: "gather_inv p" and "claim_valid p c"
  shows "gather_inv (withdrawClaim c p) \<and> p_tc (withdrawClaim c p) = p_tc p \<and>
     p_heap (withdrawClaim c p) = p_heap p \<and> p_hostFamilies (withdrawClaim c p) = p_hostFamilies p \<and>
     p_trace (withdrawClaim c p) = p_trace p"
proof -
  have "ac_hostName c = host_name_of p (ac_ref c)" using assms(2) by (auto simp: claim_valid_def claim_ok_def)
  then show ?thesis
    using withdraw_gateway [OF inv] withdraw_service [OF inv] assms(2) by (auto simp: claim_valid_def)
qed

section \<open>The whole step\<close>

lemma hostObjectExists_frame:
  "same_desired (snd (hostObjectExists env c p)) p"
  by (auto simp: hostObjectExists_def Let_def split_beta split: sum.split)

text \<open>The requests the limit makes: uncached reads of the host objects of claims.\<close>

definition host_reads :: "event list \<Rightarrow> request \<Rightarrow> bool" where
  "host_reads h r \<longleftrightarrow> (\<exists>k ns n. r = HostGet k ns n)"

lemma host_reads_step [simp]: "trace_ext host_reads t ((HostGet k ns n, resp) # t)"
  by (rule trace_ext_one) (simp add: host_reads_def)

lemma hostObjectExists_reads:
  "trace_ext host_reads (p_trace p) (p_trace (snd (hostObjectExists env c p)))"
  by (auto simp: hostObjectExists_def Let_def split_beta split: sum.split)

lemma mark_existing_frame:
  "same_desired (snd (mark_existing env cs p)) p \<and>
   trace_ext host_reads (p_trace p) (p_trace (snd (mark_existing env cs p))) \<and>
   map ac_ref (fst (mark_existing env cs p)) = map ac_ref cs \<and>
   map ac_hostName (fst (mark_existing env cs p)) = map ac_hostName cs"
proof (induction cs arbitrary: p)
  case (Cons c cs)
  let ?p = "snd (hostObjectExists env c p)"
  have "same_desired (snd (mark_existing env cs ?p)) p"
    using Cons hostObjectExists_frame same_desired_trans by blast
  moreover have "trace_ext host_reads (p_trace p) (p_trace (snd (mark_existing env cs ?p)))"
    using Cons [of ?p] hostObjectExists_reads trace_ext_trans by blast
  ultimately show ?case using Cons [of ?p] by (simp add: Let_def split_beta)
qed simp

lemma claims_in_order_valid:
  assumes "gather_inv p" and "c \<in> set (claims_in_order pick p)"
  shows "claim_valid p c"
proof -
  from assms(2) obtain pair where pair: "pair \<in> set (p_lbPairs p) \<union> set (p_gatewayPairs p)"
    "c = claim_of p pair" by (auto simp: claims_in_order_def)
  have "claims_ok p" using assms(1) by (simp add: gather_inv_def core_inv_def)
  then show ?thesis using pair by (auto simp: claims_ok_def claim_valid_def claim_of_def Let_def)
qed

lemma mark_existing_valid:
  assumes "\<And>c. c \<in> set cs \<Longrightarrow> claim_valid p c" and "c' \<in> set (fst (mark_existing env cs p))"
  shows "claim_valid p c'"
proof -
  let ?ms = "fst (mark_existing env cs p)"
  from assms(2) obtain i where i: "i < length ?ms" "?ms ! i = c'" by (auto simp: in_set_conv_nth)
  have f: "map ac_ref ?ms = map ac_ref cs" "map ac_hostName ?ms = map ac_hostName cs"
    using mark_existing_frame by blast+
  then have len: "length ?ms = length cs" by (metis length_map)
  have "ac_ref c' = ac_ref (cs ! i)" "ac_hostName c' = ac_hostName (cs ! i)"
    using i f len by (metis nth_map)+
  moreover have "claim_valid p (cs ! i)" using assms(1) i(1) len by simp
  ultimately show ?thesis by (simp add: claim_valid_def)
qed

lemma fold_refuse_claims_inv:
  assumes "gather_inv p" and "\<And>c. c \<in> set cs \<Longrightarrow> claim_valid p c"
  shows "gather_inv (fold (refuse_claim m) cs p) \<and> p_tc (fold (refuse_claim m) cs p) = p_tc p \<and>
     p_trace (fold (refuse_claim m) cs p) = p_trace p"
  using assms
proof (induction cs arbitrary: p)
  case (Cons c cs)
  let ?p = "refuse (ac_ref c) m p"
  have inv: "gather_inv ?p" using Cons.prems(1) same_desired_inv(1) [of ?p p] by simp
  have v: "claim_valid ?p c" using Cons.prems(2) claim_valid_frame [of ?p p] by simp
  note w = withdrawClaim_inv [OF inv v]
  have "claim_valid (withdrawClaim c ?p) d" if "d \<in> set cs" for d
    using Cons.prems(2) [of d] that w claim_valid_frame [of "withdrawClaim c ?p" p d] by simp
  then show ?case using Cons.IH [of "withdrawClaim c ?p"] w by (simp add: refuse_claim_def)
qed simp

lemma set_loadBalancers_frame [simp]:
  "same_desired (set_loadBalancers n q) p = same_desired q p"
  "p_tc (set_loadBalancers n p) = p_tc p" "p_trace (set_loadBalancers n p) = p_trace p"
  by (simp_all add: same_desired_def set_loadBalancers_def)

lemma applyAddressLimit_phase:
  assumes "gather_inv p"
  shows "gather_inv (applyAddressLimit env p) \<and> p_tc (applyAddressLimit env p) = p_tc p \<and>
     trace_ext host_reads (p_trace p) (p_trace (applyAddressLimit env p))"
proof -
  obtain limit capped where l: "LoadBalancerLimit (p_tc p) = (limit, capped)" by (cases "LoadBalancerLimit (p_tc p)")
  define cs where "cs = claims_in_order (map_order env (p_trace p) ''sort.Slice'') p"
  obtain ms q where m: "mark_existing env cs p = (ms, q)" by (cases "mark_existing env cs p")
  obtain n rs where a: "admit limit 0 ms = (n, rs)" by (cases "admit limit 0 ms")
  let ?q = "set_loadBalancers n q"
  have sd: "same_desired ?q p" and tr: "trace_ext host_reads (p_trace p) (p_trace ?q)"
    using mark_existing_frame [of env cs p] m by simp_all
  have inv: "gather_inv ?q" using same_desired_inv(1) [OF sd] assms by simp
  have "claim_valid p c" if "c \<in> set ms" for c
    using mark_existing_valid [of cs p c env] claims_in_order_valid [OF assms] that m by (simp add: cs_def)
  moreover have "set rs \<subseteq> set ms" using admit_facts [of limit 0 ms] a by auto
  moreover have "claim_valid ?q c = claim_valid p c" for c
    using sd by (intro claim_valid_frame) (simp_all add: same_desired_def)
  ultimately have "gather_inv (fold (refuse_claim (msg_limit limit n)) rs ?q) \<and>
      p_tc (fold (refuse_claim (msg_limit limit n)) rs ?q) = p_tc ?q \<and>
      p_trace (fold (refuse_claim (msg_limit limit n)) rs ?q) = p_trace ?q"
    using fold_refuse_claims_inv [OF inv, of rs] by blast
  moreover have "p_tc ?q = p_tc p" using sd by (simp add: same_desired_def)
  ultimately show ?thesis
    using l m a tr assms same_desired_inv(1) [of "set_loadBalancers (length cs) p" p]
    by (cases capped) (simp_all add: applyAddressLimit_def cs_def)
qed

section \<open>The GatewayClass step touches guest GatewayClasses only\<close>

definition class_calls :: "event list \<Rightarrow> request \<Rightarrow> bool" where
  "class_calls h r \<longleftrightarrow> (case r of
     GuestList k sel \<Rightarrow> k = KGatewayClass \<and> sel = managedSelector
   | GuestGet k ns n \<Rightarrow> k = KGatewayClass
   | GuestCreate x \<Rightarrow> x \<in> OGatewayClass ` range mirrorGatewayClass
   | GuestUpdate x \<Rightarrow> kind_of x = KGatewayClass
   | GuestStatusUpdate x \<Rightarrow> kind_of x = KGatewayClass
   | GuestDelete x \<Rightarrow> kind_of x = KGatewayClass
   | _ \<Rightarrow> False)"

text \<open>A step that leaves the desired state alone and makes guarded requests only.\<close>

definition quiet :: "(event list \<Rightarrow> request \<Rightarrow> bool) \<Rightarrow> pass \<Rightarrow> pass \<Rightarrow> bool" where
  "quiet Q p q \<longleftrightarrow> same_desired q p \<and> trace_ext Q (p_trace p) (p_trace q)"

lemma quiet_refl [simp]: "quiet Q p p"
  by (simp add: quiet_def)

lemma quiet_trans: "quiet Q p q \<Longrightarrow> quiet Q q r \<Longrightarrow> quiet Q p r"
  by (auto simp: quiet_def intro: trace_ext_trans same_desired_trans)

lemma quiet_call: "Q (p_trace p) r \<Longrightarrow> quiet Q p (snd (call env r p))"
  by (simp add: quiet_def trace_ext_one)

lemma quiet_problem: "quiet Q p q \<Longrightarrow> quiet Q p (problem m q)"
  by (simp add: quiet_def)

lemma quiet_fold: "(\<And>x p. x \<in> set xs \<Longrightarrow> quiet Q p (f x p)) \<Longrightarrow> quiet Q p (fold f xs p)"
proof (induction xs arbitrary: p)
  case (Cons x xs)
  then show ?case using quiet_trans [of Q p "f x p"] by simp
qed simp

lemma quiet_call_then:
  assumes "Q (p_trace p) r" and "\<And>q. quiet Q q (f q)"
  shows "quiet Q p (f (snd (call env r p)))"
  using quiet_trans [OF quiet_call [of Q p r env, OF assms(1)] assms(2)] .

lemma quiet_class_problem [simp]: "quiet Q p (class_problem a b e q) = quiet Q p q"
  by (simp add: class_problem_def quiet_def)

lemma quiet_problem_iff [simp]: "quiet Q p (problem m q) = quiet Q p q"
  by (simp add: quiet_def)

lemma class_calls_simps [simp]:
  "class_calls h (GuestList KGatewayClass managedSelector)"
  "class_calls h (GuestGet KGatewayClass ns n)" "class_calls h (GuestCreate (OGatewayClass (mirrorGatewayClass tc)))"
  "class_calls h (GuestUpdate (OGatewayClass x))" "class_calls h (GuestStatusUpdate (OGatewayClass x))"
  "class_calls h (GuestDelete (OGatewayClass x))"
  by (simp_all add: class_calls_def)

lemma accept_class_quiet: "quiet class_calls p (accept_class env w x p)"
  by (auto simp: accept_class_def Let_def split_beta intro: quiet_call split: option.split)

lemma remove_class_quiet: "quiet class_calls p (remove_class env w x p)"
  by (auto simp: remove_class_def Let_def split_beta intro: quiet_call split: option.split)

lemma call_then_accept: "class_calls (p_trace p) r \<Longrightarrow> quiet class_calls p (accept_class env w x (snd (call env r p)))"
  by (rule quiet_call_then [where f = "accept_class env w x"]) (simp_all add: accept_class_quiet)

lemma create_class_quiet:
  "want \<in> range mirrorGatewayClass \<Longrightarrow>
   quiet class_calls p (let (resp, p) = call env (GuestCreate (OGatewayClass want)) p in
     case decode_write to_gateway_class want resp of
       Inl e \<Rightarrow> class_problem a w e p | Inr created \<Rightarrow> accept_class env w created p)"
  by (auto simp: Let_def split_beta intro: quiet_call call_then_accept split: sum.split)

lemma replace_class_quiet: "want \<in> range mirrorGatewayClass \<Longrightarrow> quiet class_calls p (replace_class env w x want p)"
proof -
  let ?p = "snd (call env (GuestDelete (OGatewayClass x)) p)"
  assume w: "want \<in> range mirrorGatewayClass"
  have c: "quiet class_calls p ?p" by (rule quiet_call) simp
  note quiet_trans [OF c create_class_quiet [OF w, of ?p env "''recreating guest GatewayClass ''" w]]
  with c show ?thesis unfolding replace_class_def Let_def split_beta by (auto split: option.split)
qed

lemma update_class_quiet: "quiet class_calls p (update_class env w x want p)"
  by (auto simp: update_class_def Let_def split_beta intro: quiet_call call_then_accept split: sum.split)

lemma assert_class_quiet: "quiet class_calls p (assert_class env w p)"
proof -
  let ?p = "snd (call env (GuestGet KGatewayClass [] w) p)"
  have c: "quiet class_calls p ?p" by (rule quiet_call) simp
  let ?want = "mirrorGatewayClass (p_tc p)"
  have "quiet class_calls ?p (snd (call env (GuestCreate (OGatewayClass ?want)) ?p))"
    by (rule quiet_call) simp
  moreover have "quiet class_calls ?p (accept_class env w x (snd (call env (GuestCreate (OGatewayClass ?want)) ?p)))"
    for x by (rule call_then_accept) simp
  ultimately show ?thesis
    using c replace_class_quiet update_class_quiet accept_class_quiet
    by (auto simp: assert_class_def Let_def split_beta intro: quiet_trans [OF c] split: sum.split)
qed

lemma reconcileGuestGatewayClass_quiet: "quiet class_calls p (reconcileGuestGatewayClass env p)"
proof -
  let ?p = "snd (call env (GuestList KGatewayClass managedSelector) p)"
  have c: "quiet class_calls p ?p" by (rule quiet_call) simp
  have "quiet class_calls ?p (fold (remove_class env w) xs ?p)" for w xs
    by (rule quiet_fold) (rule remove_class_quiet)
  then have "quiet class_calls p (fold (remove_class env w) xs ?p)" for w xs
    using quiet_trans [OF c] by blast
  moreover from this have "quiet class_calls p (assert_class env v (fold (remove_class env w) xs ?p))" for v w xs
    by (rule quiet_trans) (rule assert_class_quiet)
  ultimately show ?thesis
    using c by (auto simp: reconcileGuestGatewayClass_def Let_def split_beta split: sum.split)
qed

section \<open>Properties\<close>

text \<open>
  Claim C29. The admission loop, for any limit and any claims: a claim that already holds a host
  object is never refused, every claim is either counted as admitted or refused, claims are
  refused only once at least \<open>limit\<close> are admitted, and what is admitted beyond the limit is at
  most the claims that were there before.
\<close>

theorem admit_sound:
  "set (snd (admit limit 0 cs)) \<subseteq> {c \<in> set cs. \<not> ac_existing c} \<and>
   fst (admit limit 0 cs) + length (snd (admit limit 0 cs)) = length cs \<and>
   (snd (admit limit 0 cs) = [] \<or> limit \<le> int (fst (admit limit 0 cs))) \<and>
   int (fst (admit limit 0 cs)) \<le> max limit 0 + int (length (filter ac_existing cs))"
  using admit_facts [of limit 0 cs] by simp

text \<open>
  The limit does not stop growth by a claim that is older than the ones in use: with a
  limit of one and one endpoint already published, a new claim with an earlier creation time is
  admitted as well, because the loop counts existing endpoints only as it meets them.
\<close>

theorem admit_exceeds_limit:
  "let old = \<lparr>ac_ref = (KService, ''a'', ''new''), ac_hostName = ''t-a-new'',
         ac_key = ClaimKey 1 ''u1'', ac_existing = False\<rparr>;
       live = \<lparr>ac_ref = (KService, ''a'', ''live''), ac_hostName = ''t-a-live'',
         ac_key = ClaimKey 2 ''u2'', ac_existing = True\<rparr>
   in sort_key ac_key [live, old] = [old, live] \<and> admit 1 0 [old, live] = (2, [])"
  by (simp add: less_eq_claim_key_def Let_def)

text \<open>
  Which claims come first does not depend on the order a map was iterated in: two
  gathers that found the same claims in any two orders, and any two unstable sorts, consider them
  in the same order, provided no two claims share creation time and UID.
\<close>

theorem claims_in_order_deterministic:
  assumes "mset (p_lbPairs p) = mset (p_lbPairs q)" and "mset (p_gatewayPairs p) = mset (p_gatewayPairs q)"
    and "p_heap p = p_heap q"
    and "distinct (map (ac_key \<circ> claim_of p) (p_lbPairs p @ p_gatewayPairs p))"
  shows "claims_in_order pick p = claims_in_order pick' q"
proof -
  let ?f = "\<lambda>p. map (claim_of p) (p_lbPairs p) @ map (claim_of p) (p_gatewayPairs p)"
  have "claim_of p = claim_of q" using assms(3) by (simp add: claim_of_def fun_eq_iff)
  then have m: "mset (?f p) = mset (?f q)" using assms(1,2) by simp
  have d: "distinct (map ac_key (?f p))" using assms(4) by (simp add: o_def)
  have inj: "inj_on ac_key (set (go_range pick (?f p)))" using d distinct_map [of ac_key "?f p"] by simp
  have ms: "mset (go_range pick (?f p)) = mset (claims_in_order pick' q)"
    using m by (simp add: claims_in_order_def)
  show ?thesis
    unfolding claims_in_order_def [of pick p]
    by (rule sort_key_inj_key_eq [OF ms inj]) (simp add: claims_in_order_def)
qed

theorem claims_in_order_deterministic_witness:
  "let a = (KService, ''shop'', ''a''); b = (KService, ''shop'', ''b'');
       h = [a \<mapsto> OService (ex_service ''a''), b \<mapsto> OService (ex_service ''b'')];
       p = ex_pass\<lparr>p_lbPairs := [(a, ''t-shop-a''), (b, ''t-shop-b'')], p_heap := h\<rparr>;
       q = ex_pass\<lparr>p_lbPairs := [(b, ''t-shop-b''), (a, ''t-shop-a'')], p_heap := h\<rparr>
   in claims_in_order (\<lambda>_. 0) p = claims_in_order (\<lambda>n. n) q"
proof -
  let ?a = "(KService, ''shop'', ''a'')" and ?b = "(KService, ''shop'', ''b'')"
  let ?h = "[?a \<mapsto> OService (ex_service ''a''), ?b \<mapsto> OService (ex_service ''b'')]"
  let ?p = "ex_pass\<lparr>p_lbPairs := [(?a, ''t-shop-a''), (?b, ''t-shop-b'')], p_heap := ?h\<rparr>"
  let ?q = "ex_pass\<lparr>p_lbPairs := [(?b, ''t-shop-b''), (?a, ''t-shop-a'')], p_heap := ?h\<rparr>"
  have "distinct (map (ac_key \<circ> claim_of ?p) (p_lbPairs ?p @ p_gatewayPairs ?p))"
    by (simp add: ex_pass_def newPass_def claim_of_def ex_service_def ex_meta_def no_meta_def)
  from claims_in_order_deterministic [OF _ _ _ this, of ?q "\<lambda>_. 0" "\<lambda>n. n"] show ?thesis
    unfolding Let_def by (simp add: ex_pass_def newPass_def)
qed

end
