(* ===== verification/Apply.thy ===== *)
theory Apply
  imports AddressLimit
begin

text \<open>
  The apply phase of pass.go: the host namespace is ensured, then every desired Service, Ingress,
  Gateway and HTTPRoute is created or updated on the host, each after an uncached read and never
  over an object without this tenant's labels.
\<close>

section \<open>The host namespace\<close>

definition ns_labels :: "tenant_cluster \<Rightarrow> strmap" where
  "ns_labels tc = [LabelTenantCluster \<mapsto> tc_name tc, LabelTenantClusterNamespace \<mapsto> tc_namespace tc]"

definition host_namespace :: "tenant_cluster \<Rightarrow> plain_object" where
  "host_namespace tc = \<lparr>po_meta = no_meta\<lparr>om_name := host_ns tc, om_labels := ns_labels tc\<rparr>, po_rest = []\<rparr>"

definition ensureHostNamespace :: "env \<Rightarrow> pass \<Rightarrow> bool \<times> pass" where
  "ensureHostNamespace env p =
     (let name = host_ns (p_tc p);
          (resp, p) = call env (HostGet KNamespace [] name) p
      in case decode_with to_namespace resp of
           Inr ns \<Rightarrow> (True, p)
         | Inl e \<Rightarrow>
             if \<not> IsNotFound e then
               (False, problem (''checking host namespace '' @ name @ '': '' @ err_text e) p)
             else
               let (resp, p) = call env (HostCreate (ONamespace (host_namespace (p_tc p)))) p
               in case write_error resp of
                    None \<Rightarrow> (True, p)
                  | Some e \<Rightarrow> if IsAlreadyExists e then (True, p)
                      else (False, problem (''creating host namespace '' @ name @ '': '' @ err_text e) p))"

section \<open>The overwrite guard and apply failures\<close>

definition mayTouch :: "obj \<Rightarrow> pass \<Rightarrow> bool \<times> pass" where
  "mayTouch have p =
     (if ownedBy (meta_of have) (p_tc p) then (True, p)
      else (False, problem (''host '' @ go_type (kind_of have) @ '' '' @ om_namespace (meta_of have) @ ''/'' @
        om_name (meta_of have) @ '' already exists and is not managed by this TenantCluster; refusing to touch it'') p))"

definition msg_rejected :: "string \<Rightarrow> api_error \<Rightarrow> string" where
  "msg_rejected k e = ''the host cluster rejected this '' @ k @ '': '' @ err_text e"

definition applyProblem :: "string \<Rightarrow> string \<Rightarrow> api_error \<Rightarrow> pass \<Rightarrow> pass" where
  "applyProblem k name e p =
     (let p = problem (''applying host '' @ k @ '' '' @ quote name @ '': '' @ err_text e) p
      in case map_of (p_hostOwner p) name of
           None \<Rightarrow> p
         | Some ref \<Rightarrow> refuse ref (msg_rejected k e) p)"

section \<open>One object\<close>

text \<open>
  The switch that \<open>applyService\<close>, \<open>applyIngress\<close>, \<open>applyGateway\<close> and \<open>applyRoute\<close> share:
  an uncached read, a create if nothing is there, nothing but a report if something foreign is
  there, an update of the object read otherwise.  \<open>merge\<close> is what the function changes in the
  object read; \<open>created\<close>, \<open>foreign\<close> and \<open>updated\<close> are its assignments to the pass.  A create
  decodes the server's answer into the desired object, which the pass holds by pointer.
\<close>

definition apply_step ::
  "env \<Rightarrow> kind \<Rightarrow> (obj \<Rightarrow> 'a option) \<Rightarrow> ('a \<Rightarrow> obj) \<Rightarrow> ('a \<Rightarrow> 'a \<Rightarrow> 'a) \<Rightarrow>
   ('a \<Rightarrow> pass \<Rightarrow> pass) \<Rightarrow> (pass \<Rightarrow> pass) \<Rightarrow> ('a \<Rightarrow> pass \<Rightarrow> pass) \<Rightarrow> 'a \<Rightarrow> pass \<Rightarrow> pass" where
  "apply_step env k dec enc merge created foreign updated want p =
     (let m = meta_of (enc want);
          (resp, p) = call env (HostGet k (om_namespace m) (om_name m)) p
      in case decode_with dec resp of
           Inl e \<Rightarrow>
             if IsNotFound e then
               let (resp, p) = call env (HostCreate (enc want)) p
               in case decode_write dec want resp of
                    Inl e \<Rightarrow> applyProblem (kind_name k) (om_name m) e p
                  | Inr x \<Rightarrow> created x p
             else applyProblem (kind_name k) (om_name m) e p
         | Inr have \<Rightarrow>
             let (ok, p) = mayTouch (enc have) p in
             if \<not> ok then foreign p
             else
               let have = merge have want;
                   (resp, p) = call env (HostUpdate (enc have)) p
               in case decode_write dec have resp of
                    Inl e \<Rightarrow> applyProblem (kind_name k) (om_name m) e p
                  | Inr x \<Rightarrow> updated x p)"

definition port_key :: "service_port \<Rightarrow> string" where
  "port_key p = sp_protocol p @ ''/'' @ show_int (sp_port p)"

text \<open>Host-assigned node ports of surviving ports are kept; a new port gets 0, so the host allocates one.\<close>

definition reconcilePorts :: "service_port list \<Rightarrow> service_port list \<Rightarrow> service_port list" where
  "reconcilePorts have want =
     (let byKey = fold (\<lambda>hp m. m(port_key hp \<mapsto> sp_nodePort hp)) have Map.empty
      in map (\<lambda>wp. wp\<lparr>sp_nodePort := (case byKey (port_key wp) of None \<Rightarrow> 0 | Some n \<Rightarrow> n)\<rparr>) want)"

definition merge_meta :: "obj_meta \<Rightarrow> obj_meta \<Rightarrow> obj_meta" where
  "merge_meta have want = have\<lparr>om_labels := mergeLabels (om_labels have) (om_labels want)\<rparr>"

definition merge_service :: "service \<Rightarrow> service \<Rightarrow> service" where
  "merge_service have want =
     (let h = have\<lparr>svc_meta := merge_meta (svc_meta have) (svc_meta want),
                   svc_type := svc_type want, svc_selector := svc_selector want,
                   svc_ports := reconcilePorts (svc_ports have) (svc_ports want)\<rparr>
      in if svc_ipFamilies want \<noteq> []
         then h\<lparr>svc_ipFamilies := svc_ipFamilies want, svc_ipFamilyPolicy := svc_ipFamilyPolicy want\<rparr>
         else h)"

definition merge_ingress :: "ingress \<Rightarrow> ingress \<Rightarrow> ingress" where
  "merge_ingress have want =
     have\<lparr>ing_meta := merge_meta (ing_meta have) (ing_meta want), ing_spec := ing_spec want\<rparr>"

definition merge_gateway :: "gateway \<Rightarrow> gateway \<Rightarrow> gateway" where
  "merge_gateway have want =
     have\<lparr>gw_meta := merge_meta (gw_meta have) (gw_meta want), gw_spec := gw_spec want\<rparr>"

definition merge_route :: "http_route \<Rightarrow> http_route \<Rightarrow> http_route" where
  "merge_route have want =
     have\<lparr>rt_meta := merge_meta (rt_meta have) (rt_meta want), rt_spec := rt_spec want\<rparr>"

definition put_service :: "string \<Rightarrow> service \<Rightarrow> pass \<Rightarrow> pass" where
  "put_service n x p = p\<lparr>p_services := put n x (p_services p)\<rparr>"

definition put_ingress :: "string \<Rightarrow> ingress \<Rightarrow> pass \<Rightarrow> pass" where
  "put_ingress n x p = p\<lparr>p_ingresses := put n x (p_ingresses p)\<rparr>"

definition put_gateway :: "string \<Rightarrow> gateway \<Rightarrow> pass \<Rightarrow> pass" where
  "put_gateway n x p = p\<lparr>p_gateways := put n x (p_gateways p)\<rparr>"

definition put_route :: "string \<Rightarrow> http_route \<Rightarrow> pass \<Rightarrow> pass" where
  "put_route n x p = p\<lparr>p_routes := put n x (p_routes p)\<rparr>"

definition applyService :: "env \<Rightarrow> service \<Rightarrow> pass \<Rightarrow> pass" where
  "applyService env want =
     (let n = om_name (svc_meta want) in
      apply_step env KService to_service OService merge_service
        (put_service n) (\<lambda>p. p\<lparr>p_services := del n (p_services p)\<rparr>) (put_service n) want)"

definition applyIngress :: "env \<Rightarrow> ingress \<Rightarrow> pass \<Rightarrow> pass" where
  "applyIngress env want =
     (let n = om_name (ing_meta want) in
      apply_step env KIngress to_ingress OIngress merge_ingress
        (put_ingress n) (\<lambda>p. p\<lparr>p_ingresses := del n (p_ingresses p)\<rparr>) (put_ingress n) want)"

definition applyGateway :: "env \<Rightarrow> gateway \<Rightarrow> pass \<Rightarrow> pass" where
  "applyGateway env want =
     (let n = om_name (gw_meta want) in
      apply_step env KGateway to_gateway OGateway merge_gateway
        (put_gateway n) (\<lambda>p. p\<lparr>p_gateways := del n (p_gateways p)\<rparr>) (put_gateway n) want)"

definition applyRoute :: "env \<Rightarrow> http_route \<Rightarrow> pass \<Rightarrow> pass" where
  "applyRoute env want =
     (let n = om_name (rt_meta want) in
      apply_step env KHTTPRoute to_route OHTTPRoute merge_route
        (put_route n) (\<lambda>p. p\<lparr>p_routes := del n (p_routes p)\<rparr>) (\<lambda>x p. p) want)"

section \<open>All objects\<close>

text \<open>
  A loop over the sorted keys of one desired map; \<open>field\<close> reads the map.  Every key is looked up
  when its turn comes; only the step of a key itself removes it, so the lookup succeeds.
\<close>

definition apply_each ::
  "(pass \<Rightarrow> (string \<times> 'a) list) \<Rightarrow> ('a \<Rightarrow> pass \<Rightarrow> pass) \<Rightarrow> pass \<Rightarrow> pass" where
  "apply_each field f p =
     fold (\<lambda>name p. case map_of (field p) name of None \<Rightarrow> p | Some want \<Rightarrow> f want p)
       (sortedKeys (field p)) p"

definition applyAll :: "env \<Rightarrow> pass \<Rightarrow> pass" where
  "applyAll env p =
     apply_each p_routes (applyRoute env)
       (apply_each p_gateways (applyGateway env)
         (apply_each p_ingresses (applyIngress env)
           (apply_each p_services (applyService env) p)))"

section \<open>What applying leaves alone\<close>

definition same_frame :: "pass \<Rightarrow> pass \<Rightarrow> bool" where
  "same_frame q p \<longleftrightarrow>
     p_tc q = p_tc p \<and> p_gatewayAPIOnHost q = p_gatewayAPIOnHost p \<and>
     p_hostFamilies q = p_hostFamilies p \<and> p_hot q = p_hot p \<and> p_images q = p_images p \<and>
     p_storage q = p_storage p \<and> p_heap q = p_heap p \<and> p_guestObjs q = p_guestObjs p \<and>
     p_lbPairs q = p_lbPairs p \<and> p_ingressPairs q = p_ingressPairs p \<and>
     p_gatewayPairs q = p_gatewayPairs p \<and> p_wantFinalizer q = p_wantFinalizer p \<and>
     p_seenFinalizer q = p_seenFinalizer p \<and> p_pruneFailed q = p_pruneFailed p"

lemma same_frame_refl [simp]: "same_frame p p"
  by (simp add: same_frame_def)

lemma same_frame_trans: "same_frame r q \<Longrightarrow> same_frame q p \<Longrightarrow> same_frame r p"
  by (simp add: same_frame_def)

lemma same_frame_call [simp]: "same_frame (snd (call env r q)) p = same_frame q p"
  by (simp add: same_frame_def)

lemma same_frame_simps [simp]:
  "same_frame (problem m q) p = same_frame q p"
  "same_frame (refuse ref m q) p = same_frame q p"
  "same_frame (applyProblem k n e q) p = same_frame q p"
  "same_frame (put_service n x q) p = same_frame q p"
  "same_frame (put_ingress n y q) p = same_frame q p"
  "same_frame (put_gateway n z q) p = same_frame q p"
  "same_frame (put_route n r q) p = same_frame q p"
  "same_frame (q\<lparr>p_services := a\<rparr>) p = same_frame q p"
  "same_frame (q\<lparr>p_ingresses := b\<rparr>) p = same_frame q p"
  "same_frame (q\<lparr>p_gateways := c\<rparr>) p = same_frame q p"
  "same_frame (q\<lparr>p_routes := d\<rparr>) p = same_frame q p"
  by (simp_all add: same_frame_def problem_def refuse_def applyProblem_def put_service_def
      put_ingress_def put_gateway_def put_route_def Let_def split: option.split)

lemma put_trace [simp]:
  "p_trace (put_service n x q) = p_trace q" "p_trace (put_ingress n y q) = p_trace q"
  "p_trace (put_gateway n z q) = p_trace q" "p_trace (put_route n r q) = p_trace q"
  "p_trace (applyProblem k n e q) = p_trace q"
  by (simp_all add: put_service_def put_ingress_def put_gateway_def put_route_def applyProblem_def
      Let_def split: option.split)

lemma mayTouch_simps [simp]:
  "fst (mayTouch x p) = ownedBy (meta_of x) (p_tc p)"
  "same_frame (snd (mayTouch x p)) q = same_frame p q"
  "p_trace (snd (mayTouch x p)) = p_trace p" "p_tc (snd (mayTouch x p)) = p_tc p"
  by (simp_all add: mayTouch_def)

section \<open>The guard of the apply phase\<close>

definition synced_kinds :: "kind set" where
  "synced_kinds = {KService, KIngress, KGateway, KHTTPRoute}"

text \<open>
  Creates only follow at once on a read that found nothing under that name, and create an object
  with this tenant's labels in this tenant's namespace; updates only follow at once on a read of an
  object with this tenant's labels, and keep its identity.
\<close>

definition create_ok :: "tenant_cluster \<Rightarrow> event list \<Rightarrow> obj \<Rightarrow> bool" where
  "create_ok tc h x \<longleftrightarrow> ownedBy (meta_of x) tc \<and> om_namespace (meta_of x) = host_ns tc \<and>
     (\<exists>m h'. h = (HostGet (kind_of x) (host_ns tc) (om_name (meta_of x)), RErr (NotFound m)) # h')"

definition update_ok :: "tenant_cluster \<Rightarrow> event list \<Rightarrow> obj \<Rightarrow> bool" where
  "update_ok tc h x \<longleftrightarrow> ownedBy (meta_of x) tc \<and>
     (\<exists>n have h'. h = (HostGet (kind_of x) (host_ns tc) n, RObj have) # h' \<and>
        kind_of have = kind_of x \<and> ownedBy (meta_of have) tc \<and>
        meta_of x = (meta_of have)\<lparr>om_labels := om_labels (meta_of x)\<rparr>)"

text \<open>The tenant's namespace, likewise only at once after a read that found none.\<close>

definition namespace_ok :: "tenant_cluster \<Rightarrow> event list \<Rightarrow> obj \<Rightarrow> bool" where
  "namespace_ok tc h x \<longleftrightarrow>
     kind_of x = KNamespace \<and> ownedBy (meta_of x) tc \<and> om_name (meta_of x) = host_ns tc \<and>
     (\<exists>m h'. h = (HostGet KNamespace [] (host_ns tc), RErr (NotFound m)) # h')"

definition apply_guard :: "tenant_cluster \<Rightarrow> event list \<Rightarrow> request \<Rightarrow> bool" where
  "apply_guard tc h r \<longleftrightarrow> (case r of
     HostGet k ns n \<Rightarrow> True
   | HostCreate x \<Rightarrow> (kind_of x \<in> synced_kinds \<and> create_ok tc h x) \<or>
       namespace_ok tc h x
   | HostUpdate x \<Rightarrow> kind_of x \<in> synced_kinds \<and> update_ok tc h x
   | _ \<Rightarrow> False)"

lemma apply_guard_get [simp]: "apply_guard tc h (HostGet k ns n)"
  by (simp add: apply_guard_def)

lemma decode_with_NotFound: "decode_with f r = Inl e \<Longrightarrow> IsNotFound e \<Longrightarrow> \<exists>m. r = RErr (NotFound m)"
  by (cases r; cases e) (auto simp: decode_error_def split: option.splits)

lemma decode_with_Inr: "decode_with f r = Inr y \<Longrightarrow> \<exists>x. r = RObj x \<and> f x = Some y"
  by (cases r) (auto split: option.splits)

section \<open>One object: the contract of the shared step\<close>

definition same_objects :: "pass \<Rightarrow> pass \<Rightarrow> bool" where
  "same_objects q p \<longleftrightarrow> p_services q = p_services p \<and> p_ingresses q = p_ingresses p \<and>
     p_gateways q = p_gateways p \<and> p_routes q = p_routes p"

lemma same_objects_simps [simp]:
  "same_objects p p" "same_objects (snd (call env r q)) p = same_objects q p"
  "same_objects (problem m q) p = same_objects q p" "same_objects (refuse ref m q) p = same_objects q p"
  "same_objects (applyProblem k n e q) p = same_objects q p"
  "same_objects (snd (mayTouch x q)) p = same_objects q p"
  by (simp_all add: same_objects_def applyProblem_def mayTouch_def Let_def split: option.split)

locale apply_target =
  fixes k :: kind
    and dec :: "obj \<Rightarrow> 'a option"
    and enc :: "'a \<Rightarrow> obj"
    and merge :: "'a \<Rightarrow> 'a \<Rightarrow> 'a"
    and created :: "'a \<Rightarrow> pass \<Rightarrow> pass"
    and foreign :: "pass \<Rightarrow> pass"
    and updated :: "'a \<Rightarrow> pass \<Rightarrow> pass"
  assumes dec_enc: "dec x = Some y \<Longrightarrow> x = enc y"
    and kind_enc: "kind_of (enc y) = k"
    and kind_synced: "k \<in> synced_kinds"
    and merged_meta: "meta_of (enc (merge have want)) = merge_meta (meta_of (enc have)) (meta_of (enc want))"
    and frames: "same_frame (created y q) p = same_frame q p" "same_frame (foreign q) p = same_frame q p"
      "same_frame (updated y q) p = same_frame q p"
    and traces: "p_trace (created y q) = p_trace q" "p_trace (foreign q) = p_trace q"
      "p_trace (updated y q) = p_trace q"
begin

lemma step_frame: "same_frame (apply_step env k dec enc merge created foreign updated want p) p"
  by (simp add: apply_step_def Let_def split_beta frames split: sum.split)

text \<open>What the step does to the desired maps: at most one of the three assignments.\<close>

lemma step_cases:
  assumes "\<And>b. same_objects b p \<Longrightarrow> P b" and "\<And>b. same_objects b p \<Longrightarrow> P (foreign b)"
    and "\<And>b x. same_objects b p \<Longrightarrow> P (created x b)" and "\<And>b x. same_objects b p \<Longrightarrow> P (updated x b)"
  shows "P (apply_step env k dec enc merge created foreign updated want p)"
  by (simp add: apply_step_def Let_def split_beta assms split: sum.split)

lemma create_guarded:
  assumes "mapped_meta tc n (meta_of (enc want))"
  defines "m \<equiv> meta_of (enc want)"
  shows "apply_guard tc ((HostGet k (om_namespace m) (om_name m), RErr (NotFound e)) # tr) (HostCreate (enc want))"
proof -
  have "ownedBy m tc" "om_namespace m = host_ns tc"
    using assms ownedBy_ownershipLabels by (auto simp: mapped_meta_def)
  then show ?thesis
    unfolding apply_guard_def create_ok_def using kind_enc kind_synced by (simp add: m_def)
qed

lemma update_guarded:
  assumes "mapped_meta tc n (meta_of (enc want))" and own: "ownedBy (meta_of (enc hv)) tc"
  defines "m \<equiv> meta_of (enc want)"
  shows "apply_guard tc ((HostGet k (om_namespace m) (om_name m), RObj (enc hv)) # tr) (HostUpdate (enc (merge hv want)))"
proof -
  obtain g where labels: "om_labels m = ownershipLabels tc g" and ns: "om_namespace m = host_ns tc"
    using assms by (auto simp: mapped_meta_def)
  let ?new = "merge hv want"
  have "ownedBy (meta_of (enc ?new)) tc"
    unfolding merged_meta by (rule ownedBy_mergeLabels) (use labels in \<open>simp add: merge_meta_def m_def\<close>)
  moreover have "meta_of (enc ?new) = (meta_of (enc hv))\<lparr>om_labels := om_labels (meta_of (enc ?new))\<rparr>"
    by (simp add: merged_meta merge_meta_def)
  ultimately show ?thesis
    using own ns kind_enc kind_synced by (auto simp: apply_guard_def update_ok_def)
qed

lemma step_guarded:
  assumes "mapped_meta (p_tc p) n (meta_of (enc want))"
  shows "trace_ext (apply_guard (p_tc p)) (p_trace p)
     (p_trace (apply_step env k dec enc merge created foreign updated want p))"
proof -
  let ?m = "meta_of (enc want)"
  let ?get = "HostGet k (om_namespace ?m) (om_name ?m)"
  let ?resp = "api env (p_trace p) ?get"
  let ?t1 = "(?get, ?resp) # p_trace p"
  have t1: "trace_ext (apply_guard (p_tc p)) (p_trace p) ?t1" by (rule trace_ext_one) simp
  show ?thesis
  proof (cases "decode_with dec ?resp")
    case (Inl e)
    show ?thesis
    proof (cases "IsNotFound e")
      case True
      then obtain m where "?resp = RErr (NotFound m)" using decode_with_NotFound [OF Inl] by blast
      then have "apply_guard (p_tc p) ?t1 (HostCreate (enc want))" using create_guarded [OF assms] by simp
      from trace_ext_step [OF t1 this] show ?thesis
        using Inl True by (simp add: apply_step_def Let_def split_beta traces split: sum.split)
    next
      case False
      then show ?thesis using Inl t1 by (simp add: apply_step_def Let_def split_beta)
    qed
  next
    case (Inr hv)
    then obtain x where x: "?resp = RObj x" "dec x = Some hv" using decode_with_Inr [OF Inr] by blast
    have xe: "x = enc hv" by (rule dec_enc [OF x(2)])
    show ?thesis
    proof (cases "ownedBy (meta_of (enc hv)) (p_tc p)")
      case True
      then have "apply_guard (p_tc p) ?t1 (HostUpdate (enc (merge hv want)))"
        using update_guarded [OF assms True] x(1) xe by simp
      from trace_ext_step [OF t1 this] show ?thesis
        using Inr True by (simp add: apply_step_def Let_def split_beta traces split: sum.split)
    next
      case False
      then show ?thesis using Inr t1 by (simp add: apply_step_def Let_def split_beta traces)
    qed
  qed
qed

end

interpretation at_service: apply_target KService to_service OService merge_service
    "put_service n" "\<lambda>p. p\<lparr>p_services := del n (p_services p)\<rparr>" "put_service n" for n
  by unfold_locales
    (auto simp: synced_kinds_def merge_service_def Let_def elim: to_service.elims)

interpretation at_ingress: apply_target KIngress to_ingress OIngress merge_ingress
    "put_ingress n" "\<lambda>p. p\<lparr>p_ingresses := del n (p_ingresses p)\<rparr>" "put_ingress n" for n
  by unfold_locales (auto simp: synced_kinds_def merge_ingress_def elim: to_ingress.elims)

interpretation at_gateway: apply_target KGateway to_gateway OGateway merge_gateway
    "put_gateway n" "\<lambda>p. p\<lparr>p_gateways := del n (p_gateways p)\<rparr>" "put_gateway n" for n
  by unfold_locales (auto simp: synced_kinds_def merge_gateway_def elim: to_gateway.elims)

interpretation at_route: apply_target KHTTPRoute to_route OHTTPRoute merge_route
    "put_route n" "\<lambda>p. p\<lparr>p_routes := del n (p_routes p)\<rparr>" "\<lambda>x p. p" for n
  by unfold_locales (auto simp: synced_kinds_def merge_route_def elim: to_route.elims)

section \<open>The loops\<close>

lemma mapped_meta_name: "mapped_meta tc n m \<Longrightarrow> om_name m = n"
  by (simp add: mapped_meta_def)

lemma applyService_fields:
  "p_ingresses (applyService env x p) = p_ingresses p" "p_gateways (applyService env x p) = p_gateways p"
  "p_routes (applyService env x p) = p_routes p"
  "n \<noteq> om_name (svc_meta x) \<Longrightarrow> map_of (p_services (applyService env x p)) n = map_of (p_services p) n"
  unfolding applyService_def Let_def
  by (rule at_service.step_cases; simp add: same_objects_def put_service_def)+

lemma applyIngress_fields:
  "p_services (applyIngress env x p) = p_services p" "p_gateways (applyIngress env x p) = p_gateways p"
  "p_routes (applyIngress env x p) = p_routes p"
  "n \<noteq> om_name (ing_meta x) \<Longrightarrow> map_of (p_ingresses (applyIngress env x p)) n = map_of (p_ingresses p) n"
  unfolding applyIngress_def Let_def
  by (rule at_ingress.step_cases; simp add: same_objects_def put_ingress_def)+

lemma applyGateway_fields:
  "p_services (applyGateway env x p) = p_services p" "p_ingresses (applyGateway env x p) = p_ingresses p"
  "p_routes (applyGateway env x p) = p_routes p"
  "n \<noteq> om_name (gw_meta x) \<Longrightarrow> map_of (p_gateways (applyGateway env x p)) n = map_of (p_gateways p) n"
  unfolding applyGateway_def Let_def
  by (rule at_gateway.step_cases; simp add: same_objects_def put_gateway_def)+

lemma applyRoute_fields:
  "p_services (applyRoute env x p) = p_services p" "p_ingresses (applyRoute env x p) = p_ingresses p"
  "p_gateways (applyRoute env x p) = p_gateways p"
  "n \<noteq> om_name (rt_meta x) \<Longrightarrow> map_of (p_routes (applyRoute env x p)) n = map_of (p_routes p) n"
  unfolding applyRoute_def Let_def
  by (rule at_route.step_cases; simp add: same_objects_def put_route_def)+

lemma apply_each_field: "(\<And>x q. g (f x q) = g q) \<Longrightarrow> g (apply_each field f p) = g p"
  unfolding apply_each_def by (rule fold_frame) (simp split: option.split)

text \<open>
  A loop whose step is guarded on objects filed under their own names, and touches its map only
  at that name, is guarded as a whole.
\<close>

lemma apply_each_guarded:
  assumes ok: "\<And>n x. map_of (field p) n = Some x \<Longrightarrow> mapped_meta (p_tc p) n (meta x)"
    and d: "distinct (map fst (field p))"
    and step: "\<And>n x q. mapped_meta (p_tc q) n (meta x) \<Longrightarrow>
      same_frame (f x q) q \<and> trace_ext (apply_guard (p_tc q)) (p_trace q) (p_trace (f x q)) \<and>
      (\<forall>n'. n' \<noteq> n \<longrightarrow> map_of (field (f x q)) n' = map_of (field q) n')"
  shows "same_frame (apply_each field f p) p \<and>
     trace_ext (apply_guard (p_tc p)) (p_trace p) (p_trace (apply_each field f p))"
proof -
  let ?g = "\<lambda>name q. case map_of (field q) name of None \<Rightarrow> q | Some want \<Rightarrow> f want q"
  have "same_frame (fold ?g ns q) q \<and> trace_ext (apply_guard (p_tc q)) (p_trace q) (p_trace (fold ?g ns q))"
    if "distinct ns" "\<And>n x. n \<in> set ns \<Longrightarrow> map_of (field q) n = Some x \<Longrightarrow> mapped_meta (p_tc q) n (meta x)"
    for ns q
    using that
  proof (induction ns arbitrary: q)
    case (Cons n ns)
    have one: "same_frame (?g n q) q \<and> trace_ext (apply_guard (p_tc q)) (p_trace q) (p_trace (?g n q)) \<and>
        (\<forall>n'. n' \<noteq> n \<longrightarrow> map_of (field (?g n q)) n' = map_of (field q) n')"
      using Cons.prems(2) [of n] step [of q n] by (cases "map_of (field q) n") simp_all
    then have tc: "p_tc (?g n q) = p_tc q" by (simp add: same_frame_def)
    have "mapped_meta (p_tc (?g n q)) m (meta x)" if "m \<in> set ns" "map_of (field (?g n q)) m = Some x" for m x
    proof -
      have "m \<noteq> n" using that(1) Cons.prems(1) by auto
      then have "map_of (field q) m = Some x" using one that(2) by simp
      then show ?thesis using Cons.prems(2) that(1) tc by simp
    qed
    then have "same_frame (fold ?g ns (?g n q)) (?g n q) \<and>
        trace_ext (apply_guard (p_tc q)) (p_trace (?g n q)) (p_trace (fold ?g ns (?g n q)))"
      using Cons.IH [of "?g n q"] Cons.prems(1) tc by simp
    then show ?case using one by (auto intro: same_frame_trans trace_ext_trans)
  qed simp
  from this [of "sortedKeys (field p)" p] show ?thesis using ok d by (simp add: apply_each_def)
qed

lemma applyService_step:
  assumes "mapped_meta (p_tc q) n (svc_meta x)"
  shows "same_frame (applyService env x q) q \<and>
     trace_ext (apply_guard (p_tc q)) (p_trace q) (p_trace (applyService env x q)) \<and>
     (\<forall>n'. n' \<noteq> n \<longrightarrow> map_of (p_services (applyService env x q)) n' = map_of (p_services q) n')"
  using assms applyService_fields(4) [of _ x env q] mapped_meta_name [OF assms]
    at_service.step_frame at_service.step_guarded
  by (simp add: applyService_def Let_def)

lemma applyIngress_step:
  assumes "mapped_meta (p_tc q) n (ing_meta x)"
  shows "same_frame (applyIngress env x q) q \<and>
     trace_ext (apply_guard (p_tc q)) (p_trace q) (p_trace (applyIngress env x q)) \<and>
     (\<forall>n'. n' \<noteq> n \<longrightarrow> map_of (p_ingresses (applyIngress env x q)) n' = map_of (p_ingresses q) n')"
  using assms applyIngress_fields(4) [of _ x env q] mapped_meta_name [OF assms]
    at_ingress.step_frame at_ingress.step_guarded
  by (simp add: applyIngress_def Let_def)

lemma applyGateway_step:
  assumes "mapped_meta (p_tc q) n (gw_meta x)"
  shows "same_frame (applyGateway env x q) q \<and>
     trace_ext (apply_guard (p_tc q)) (p_trace q) (p_trace (applyGateway env x q)) \<and>
     (\<forall>n'. n' \<noteq> n \<longrightarrow> map_of (p_gateways (applyGateway env x q)) n' = map_of (p_gateways q) n')"
  using assms applyGateway_fields(4) [of _ x env q] mapped_meta_name [OF assms]
    at_gateway.step_frame at_gateway.step_guarded
  by (simp add: applyGateway_def Let_def)

lemma applyRoute_step:
  assumes "mapped_meta (p_tc q) n (rt_meta x)"
  shows "same_frame (applyRoute env x q) q \<and>
     trace_ext (apply_guard (p_tc q)) (p_trace q) (p_trace (applyRoute env x q)) \<and>
     (\<forall>n'. n' \<noteq> n \<longrightarrow> map_of (p_routes (applyRoute env x q)) n' = map_of (p_routes q) n')"
  using assms applyRoute_fields(4) [of _ x env q] mapped_meta_name [OF assms]
    at_route.step_frame at_route.step_guarded
  by (simp add: applyRoute_def Let_def)

lemma map_of_ball: "(\<forall>x \<in> set m. P (fst x) (snd x)) \<Longrightarrow> map_of m n = Some y \<Longrightarrow> P n y"
  by (force dest: map_of_SomeD)

lemma applyAll_phase:
  assumes "desired_ok p"
  shows "same_frame (applyAll env p) p \<and>
     trace_ext (apply_guard (p_tc p)) (p_trace p) (p_trace (applyAll env p))"
proof -
  note ok = assms [unfolded desired_ok_def]
  let ?p1 = "apply_each p_services (applyService env) p"
  let ?p2 = "apply_each p_ingresses (applyIngress env) ?p1"
  let ?p3 = "apply_each p_gateways (applyGateway env) ?p2"
  have s1: "same_frame ?p1 p \<and> trace_ext (apply_guard (p_tc p)) (p_trace p) (p_trace ?p1)"
    by (rule apply_each_guarded [where meta = svc_meta])
      (use ok applyService_step map_of_ball [of "p_services p" "\<lambda>n x. mapped_meta (p_tc p) n (svc_meta x)"] in simp_all)
  have f1: "p_ingresses ?p1 = p_ingresses p" "p_gateways ?p1 = p_gateways p" "p_routes ?p1 = p_routes p"
    by (rule apply_each_field, rule applyService_fields)+
  have tc1: "p_tc ?p1 = p_tc p" using s1 by (simp add: same_frame_def)
  have s2: "same_frame ?p2 ?p1 \<and> trace_ext (apply_guard (p_tc ?p1)) (p_trace ?p1) (p_trace ?p2)"
    by (rule apply_each_guarded [where meta = ing_meta])
      (use ok tc1 f1 applyIngress_step map_of_ball [of "p_ingresses p" "\<lambda>n x. mapped_meta (p_tc p) n (ing_meta x)"] in simp_all)
  have f2: "p_gateways ?p2 = p_gateways p" "p_routes ?p2 = p_routes p"
    using f1 by (simp_all add: apply_each_field [of p_gateways] apply_each_field [of p_routes] applyIngress_fields)
  have tc2: "p_tc ?p2 = p_tc p" using s2 tc1 by (simp add: same_frame_def)
  have s3: "same_frame ?p3 ?p2 \<and> trace_ext (apply_guard (p_tc ?p2)) (p_trace ?p2) (p_trace ?p3)"
    by (rule apply_each_guarded [where meta = gw_meta])
      (use ok tc2 f2 applyGateway_step map_of_ball [of "p_gateways p" "\<lambda>n x. mapped_meta (p_tc p) n (gw_meta x)"] in simp_all)
  have f3: "p_routes ?p3 = p_routes p"
    using f2 by (simp add: apply_each_field [of p_routes] applyGateway_fields)
  have tc3: "p_tc ?p3 = p_tc p" using s3 tc2 by (simp add: same_frame_def)
  have s4: "same_frame (apply_each p_routes (applyRoute env) ?p3) ?p3 \<and>
      trace_ext (apply_guard (p_tc ?p3)) (p_trace ?p3) (p_trace (apply_each p_routes (applyRoute env) ?p3))"
    by (rule apply_each_guarded [where meta = rt_meta])
      (use ok tc3 f3 applyRoute_step map_of_ball [of "p_routes p" "\<lambda>n x. mapped_meta (p_tc p) n (rt_meta x)"] in simp_all)
  have "same_frame (applyAll env p) p"
    using s1 s2 s3 s4 unfolding applyAll_def by (meson same_frame_trans)
  moreover have "trace_ext (apply_guard (p_tc p)) (p_trace p) (p_trace (applyAll env p))"
    using s1 s2 s3 s4 unfolding applyAll_def tc1 tc2 tc3 by (meson trace_ext_trans)
  ultimately show ?thesis ..
qed

lemma ensureHostNamespace_phase:
  "same_frame (snd (ensureHostNamespace env p)) p \<and> same_objects (snd (ensureHostNamespace env p)) p \<and>
   trace_ext (apply_guard (p_tc p)) (p_trace p) (p_trace (snd (ensureHostNamespace env p)))"
proof -
  let ?get = "HostGet KNamespace [] (host_ns (p_tc p))"
  let ?t1 = "(?get, api env (p_trace p) ?get) # p_trace p"
  have t1: "trace_ext (apply_guard (p_tc p)) (p_trace p) ?t1" by (rule trace_ext_one) simp
  have "apply_guard (p_tc p) ?t1 (HostCreate (ONamespace (host_namespace (p_tc p))))"
    if nf: "decode_with to_namespace (api env (p_trace p) ?get) = Inl e" "IsNotFound e" for e
    using decode_with_NotFound [OF nf]
    by (auto simp: apply_guard_def namespace_ok_def host_namespace_def ns_labels_def ownedBy_def at_def no_meta_def)
  note trace_ext_step [OF t1 this]
  with t1 show ?thesis
    by (auto simp: ensureHostNamespace_def Let_def split_beta split: sum.split option.split)
qed

section \<open>Node ports\<close>

definition same_port :: "service_port \<Rightarrow> service_port \<Rightarrow> bool" where
  "same_port a b \<longleftrightarrow> sp_protocol a = sp_protocol b \<and> sp_port a = sp_port b"

lemma slash_not_in_show_int: "CHR ''/'' \<notin> set (show_int i)"
  using show_int_chars [of "CHR ''/''" i] by (auto simp: is_digit_def)

lemma port_key_eq_iff: "port_key a = port_key b \<longleftrightarrow> same_port a b"
proof
  assume "port_key a = port_key b"
  then have "sp_protocol a @ CHR ''/'' # show_int (sp_port a) = sp_protocol b @ CHR ''/'' # show_int (sp_port b)"
    by (simp add: port_key_def)
  from sep_inj [OF this slash_not_in_show_int slash_not_in_show_int] show "same_port a b"
    by (auto simp: same_port_def dest: show_int_inj)
qed (simp add: same_port_def port_key_def)

text \<open>The map of node ports, built port by port.\<close>

lemma byKey_lookup:
  "fold (\<lambda>hp m. m(port_key hp \<mapsto> sp_nodePort hp)) hs m k =
     (case find (\<lambda>h. port_key h = k) (rev hs) of Some h \<Rightarrow> Some (sp_nodePort h) | None \<Rightarrow> m k)"
proof (induction hs arbitrary: m)
  case (Cons h hs)
  then show ?case by (auto simp: find_append split: option.splits)
qed simp

definition surviving_port :: "service_port list \<Rightarrow> service_port \<Rightarrow> service_port option" where
  "surviving_port have w = find (\<lambda>h. same_port h w) (rev have)"

lemma reconcilePorts_map:
  "reconcilePorts have want =
     map (\<lambda>w. w\<lparr>sp_nodePort := (case surviving_port have w of None \<Rightarrow> 0 | Some h \<Rightarrow> sp_nodePort h)\<rparr>) want"
  by (auto simp: reconcilePorts_def Let_def byKey_lookup surviving_port_def port_key_eq_iff split: option.split)

lemma surviving_port_reconciled:
  assumes "distinct (map port_key want)" and "w \<in> set want"
  shows "surviving_port (reconcilePorts have want) w =
     Some (w\<lparr>sp_nodePort := (case surviving_port have w of None \<Rightarrow> 0 | Some h \<Rightarrow> sp_nodePort h)\<rparr>)"
proof -
  let ?f = "\<lambda>w. w\<lparr>sp_nodePort := (case surviving_port have w of None \<Rightarrow> 0 | Some h \<Rightarrow> sp_nodePort h)\<rparr>"
  have eq: "v = w" if "v \<in> set want" "same_port v w" for v
    using assms that port_key_eq_iff inj_onD [of port_key "set want"] by (auto simp: distinct_map)
  have "\<exists>y. surviving_port (reconcilePorts have want) w = Some y"
    using assms(2) unfolding surviving_port_def reconcilePorts_map
    by (cases "find (\<lambda>h. same_port h w) (rev (map ?f want))")
      (auto simp: find_rev_None same_port_def surviving_port_def simp del: rev_map)
  then obtain y where y: "surviving_port (reconcilePorts have want) w = Some y" by blast
  then have "y \<in> set (rev (reconcilePorts have want)) \<and> same_port y w"
    unfolding surviving_port_def by (rule find_in_set)
  then obtain v where "v \<in> set want" "y = ?f v" "same_port y w" by (auto simp: reconcilePorts_map)
  then have "v = w" using eq by (simp add: same_port_def)
  then show ?thesis using y \<open>y = ?f v\<close> by simp
qed

lemma reconcilePorts_idem:
  assumes "distinct (map port_key want)"
  shows "reconcilePorts (reconcilePorts have want) want = reconcilePorts have want"
proof -
  let ?f = "\<lambda>hs w. w\<lparr>sp_nodePort := (case surviving_port hs w of None \<Rightarrow> 0 | Some h \<Rightarrow> sp_nodePort h)\<rparr>"
  have "reconcilePorts (reconcilePorts have want) want = map (?f (reconcilePorts have want)) want"
    by (rule reconcilePorts_map)
  also have "\<dots> = map (?f have) want"
    by (rule map_cong) (simp_all add: surviving_port_reconciled [OF assms])
  finally show ?thesis by (simp only: reconcilePorts_map [of "have"])
qed

lemma merge_meta_idem: "merge_meta (merge_meta have want) want = merge_meta have want"
  by (simp add: merge_meta_def mergeLabels_def)

section \<open>Properties\<close>

text \<open>
  Claim C30. Node ports survive an update: the reconciled ports are the desired ones in their
  order, changed in nothing but the node port; a port the host Service has (same protocol and
  number) keeps a node port the host gave it, and a port it does not have gets 0, so the host
  picks one.
\<close>

theorem reconcilePorts_keeps_node_ports:
  "set (zip want (reconcilePorts have want)) \<subseteq>
     {(w, r). r = w\<lparr>sp_nodePort := sp_nodePort r\<rparr> \<and>
        ((\<exists>h \<in> set have. same_port h w \<and> sp_nodePort r = sp_nodePort h) \<or>
         ({h \<in> set have. same_port h w} = {} \<and> sp_nodePort r = 0))} \<and>
   length (reconcilePorts have want) = length want"
proof -
  have "sp_nodePort r = (case surviving_port have w of None \<Rightarrow> 0 | Some h \<Rightarrow> sp_nodePort h) \<and> r = w\<lparr>sp_nodePort := sp_nodePort r\<rparr>"
    if "(w, r) \<in> set (zip want (reconcilePorts have want))" for w r
    using that by (auto simp: reconcilePorts_map zip_map2 in_set_zip)
  moreover have "(\<exists>h \<in> set have. same_port h w \<and> sp_nodePort x = sp_nodePort h) \<or> {h \<in> set have. same_port h w} = {} \<and> sp_nodePort x = 0"
    if "sp_nodePort x = (case surviving_port have w of None \<Rightarrow> 0 | Some h \<Rightarrow> sp_nodePort h)" for w x
  proof (cases "surviving_port have w")
    case None
    then have "{h \<in> set have. same_port h w} = {}" by (auto simp: surviving_port_def find_rev_None)
    then show ?thesis using that None by simp
  next
    case (Some h)
    then have "h \<in> set have \<and> same_port h w" using find_in_set unfolding surviving_port_def by fastforce
    then show ?thesis using that Some by auto
  qed
  ultimately show ?thesis by (fastforce simp: reconcilePorts_map)
qed

text \<open>
  Applying converges: merging the desired Service into what a previous merge produced
  changes nothing, node ports included, so a pass that finds its own update rewrites the same
  object.  (Two ports of one Service never agree in protocol and number; the API server sees to
  that.)
\<close>

theorem merge_service_idempotent:
  assumes "distinct (map port_key (svc_ports want))"
  shows "merge_service (merge_service have want) want = merge_service have want"
  using reconcilePorts_idem [OF assms] by (simp add: merge_service_def Let_def merge_meta_idem)

theorem merge_service_idempotent_witness:
  "let p80 = \<lparr>sp_name = ''web'', sp_protocol = ''TCP'', sp_port = 80, sp_targetPort = IntVal 80, sp_nodePort = 0\<rparr>;
       p443 = p80\<lparr>sp_port := 443\<rparr>;
       want = \<lparr>svc_meta = no_meta, svc_type = ''LoadBalancer'', svc_selector = Map.empty, svc_ports = [p80, p443],
         svc_ipFamilies = [], svc_ipFamilyPolicy = None, svc_lbClass = None, svc_rest = [],
         svc_lbIngress = [], svc_conditions = []\<rparr>;
       have1 = want\<lparr>svc_ports := [p80\<lparr>sp_nodePort := 31080\<rparr>]\<rparr>
   in merge_service (merge_service have1 want) want = merge_service have1 want \<and>
      map sp_nodePort (svc_ports (merge_service have1 want)) = [31080, 0]"
proof -
  let ?p80 = "\<lparr>sp_name = ''web'', sp_protocol = ''TCP'', sp_port = 80, sp_targetPort = IntVal 80, sp_nodePort = 0\<rparr>"
  let ?p443 = "?p80\<lparr>sp_port := 443\<rparr>"
  let ?want = "\<lparr>svc_meta = no_meta, svc_type = ''LoadBalancer'', svc_selector = Map.empty, svc_ports = [?p80, ?p443],
         svc_ipFamilies = [], svc_ipFamilyPolicy = None, svc_lbClass = None, svc_rest = [],
         svc_lbIngress = [], svc_conditions = []\<rparr>"
  have d: "distinct (map port_key (svc_ports ?want))" by (simp add: port_key_eq_iff same_port_def)
  from merge_service_idempotent [OF d, of "?want\<lparr>svc_ports := [?p80\<lparr>sp_nodePort := 31080\<rparr>]\<rparr>"] show ?thesis
    by (simp add: Let_def merge_service_def reconcilePorts_map surviving_port_def same_port_def)
qed

end
