(* ===== verification/Prune.thy ===== *)
theory Prune
  imports Apply
begin

text \<open>
  The prune phase of pass.go: host objects with this tenant's labels that are no longer desired
  are deleted, each after a second look at its labels and with its UID as precondition.
\<close>

section \<open>The code\<close>

definition pruneProblem :: "api_error \<Rightarrow> pass \<Rightarrow> pass" where
  "pruneProblem e p = problem (''pruning host objects: '' @ err_text e) (p\<lparr>p_pruneFailed := True\<rparr>)"

definition delete_request :: "obj \<Rightarrow> request" where
  "delete_request x = HostDelete x (om_uid (meta_of x))"

definition deleteOwned :: "env \<Rightarrow> obj \<Rightarrow> pass \<Rightarrow> pass" where
  "deleteOwned env x p =
     (if \<not> ownedBy (meta_of x) (p_tc p) then p
      else let (resp, p) = call env (delete_request x) p
           in case write_error resp of
                None \<Rightarrow> p
              | Some e \<Rightarrow> if IsNotFound e then p
                  else problem (''deleting host object '' @ om_namespace (meta_of x) @ ''/'' @
                    om_name (meta_of x) @ '': '' @ err_text e) (p\<lparr>p_pruneFailed := True\<rparr>))"

text \<open>The loop over one list of host objects; \<open>wanted\<close> says which names are desired.\<close>

definition prune_items :: "env \<Rightarrow> ('a \<Rightarrow> obj) \<Rightarrow> (pass \<Rightarrow> string set) \<Rightarrow> 'a list \<Rightarrow> pass \<Rightarrow> pass" where
  "prune_items env enc wanted items p =
     fold (\<lambda>x p. if om_name (meta_of (enc x)) \<in> wanted p then p else deleteOwned env (enc x) p) items p"

text \<open>One kind: Gateway kinds tolerate a host without their CRDs (\<open>optional\<close>).\<close>

definition prune_kind ::
  "env \<Rightarrow> kind \<Rightarrow> (obj \<Rightarrow> 'a option) \<Rightarrow> ('a \<Rightarrow> obj) \<Rightarrow> (pass \<Rightarrow> string set) \<Rightarrow> bool \<Rightarrow> pass \<Rightarrow> pass" where
  "prune_kind env k dec enc wanted optional p =
     (let (resp, p) = call env (HostList k (host_ns (p_tc p)) (tenantSelector (p_tc p))) p in
      case decode_list dec resp of
        Inl e \<Rightarrow> if optional \<and> IsNoMatchError e then p else pruneProblem e p
      | Inr items \<Rightarrow> prune_items env enc wanted items p)"

definition pruneAll :: "env \<Rightarrow> pass \<Rightarrow> pass" where
  "pruneAll env p =
     (let p = prune_kind env KService to_service OService (\<lambda>p. keys (p_services p)) False p;
          p = prune_kind env KIngress to_ingress OIngress (\<lambda>p. keys (p_ingresses p)) False p
      in if \<not> p_gatewayAPIOnHost p then p
         else prune_kind env KHTTPRoute to_route OHTTPRoute (\<lambda>p. keys (p_routes p)) True
           (prune_kind env KGateway to_gateway OGateway (\<lambda>p. keys (p_gateways p)) True p))"

section \<open>What pruning leaves alone\<close>

definition prune_frame :: "pass \<Rightarrow> pass \<Rightarrow> bool" where
  "prune_frame q p \<longleftrightarrow>
     p_tc q = p_tc p \<and> p_gatewayAPIOnHost q = p_gatewayAPIOnHost p \<and>
     p_hostFamilies q = p_hostFamilies p \<and> p_hot q = p_hot p \<and> p_images q = p_images p \<and>
     p_storage q = p_storage p \<and> p_heap q = p_heap p \<and> p_guestObjs q = p_guestObjs p \<and>
     p_lbPairs q = p_lbPairs p \<and> p_ingressPairs q = p_ingressPairs p \<and>
     p_gatewayPairs q = p_gatewayPairs p \<and> p_wantFinalizer q = p_wantFinalizer p \<and>
     p_seenFinalizer q = p_seenFinalizer p \<and> p_refusals q = p_refusals p \<and> same_objects q p"

lemma prune_frame_refl [simp]: "prune_frame p p"
  by (simp add: prune_frame_def)

lemma prune_frame_trans: "prune_frame r q \<Longrightarrow> prune_frame q p \<Longrightarrow> prune_frame r p"
  by (simp add: prune_frame_def same_objects_def)

lemma prune_frame_simps [simp]:
  "prune_frame (snd (call env r q)) p = prune_frame q p"
  "prune_frame (problem m q) p = prune_frame q p"
  "prune_frame (q\<lparr>p_pruneFailed := b\<rparr>) p = prune_frame q p"
  "prune_frame (pruneProblem e q) p = prune_frame q p"
  by (simp_all add: prune_frame_def same_objects_def problem_def pruneProblem_def)

lemma pruneProblem_simps [simp]:
  "p_trace (pruneProblem e q) = p_trace q" "p_pruneFailed (pruneProblem e q)" "p_tc (pruneProblem e q) = p_tc q"
  by (simp_all add: pruneProblem_def problem_def)

lemma p_pruneFailed_problem [simp]: "p_pruneFailed (problem m q) = p_pruneFailed q"
  by (simp add: problem_def)

lemma deleteOwned_frame: "prune_frame (deleteOwned env x p) p"
  by (simp add: deleteOwned_def Let_def split_beta split: option.split)

lemma deleteOwned_trace:
  "p_trace (deleteOwned env x p) =
     (if ownedBy (meta_of x) (p_tc p)
      then (delete_request x, api env (p_trace p) (delete_request x)) # p_trace p else p_trace p)"
  by (simp add: deleteOwned_def Let_def split_beta split: option.split)

text \<open>An answer to a delete that leaves the object behind.\<close>

definition delete_failed :: "response \<Rightarrow> bool" where
  "delete_failed resp = (case write_error resp of None \<Rightarrow> False | Some e \<Rightarrow> \<not> IsNotFound e)"

lemma deleteOwned_failed:
  "p_pruneFailed (deleteOwned env x p) \<longleftrightarrow> p_pruneFailed p \<or>
     (ownedBy (meta_of x) (p_tc p) \<and> delete_failed (api env (p_trace p) (delete_request x)))"
  by (simp add: deleteOwned_def delete_failed_def Let_def split_beta split: option.split)

section \<open>One kind under contract\<close>

text \<open>
  The guard of the prune phase, for the desired state of a pass \<open>p\<close>: deletes are of objects
  with this tenant's labels that an earlier label-scoped list of this tenant's namespace returned
  and whose name is not desired, with their UID as precondition.
\<close>

fun desired_names :: "pass \<Rightarrow> kind \<Rightarrow> string set" where
  "desired_names p KService = keys (p_services p)"
| "desired_names p KIngress = keys (p_ingresses p)"
| "desired_names p KGateway = keys (p_gateways p)"
| "desired_names p KHTTPRoute = keys (p_routes p)"
| "desired_names p _ = {}"

definition prune_guard :: "pass \<Rightarrow> event list \<Rightarrow> request \<Rightarrow> bool" where
  "prune_guard p h r \<longleftrightarrow> (case r of
     HostList k ns sel \<Rightarrow> k \<in> synced_kinds \<and> ns = host_ns (p_tc p) \<and> sel = tenantSelector (p_tc p)
   | HostDelete x uid \<Rightarrow> kind_of x \<in> synced_kinds \<and> ownedBy (meta_of x) (p_tc p) \<and>
       uid = om_uid (meta_of x) \<and> om_name (meta_of x) \<notin> desired_names p (kind_of x) \<and>
       (\<exists>xs. (HostList (kind_of x) (host_ns (p_tc p)) (tenantSelector (p_tc p)), RObjs xs) \<in> set h \<and> x \<in> set xs)
   | _ \<Rightarrow> False)"

lemma decode_all_map: "decode_all f xs = Some ys \<Longrightarrow> list_all2 (\<lambda>x y. f x = Some y) xs ys"
  by (induction xs arbitrary: ys) (auto split: option.splits)

lemma decode_list_Inr:
  assumes "decode_list f r = Inr ys"
  obtains xs where "r = RObjs xs" "list_all2 (\<lambda>x y. f x = Some y) xs ys"
proof (cases r)
  case (RObjs xs)
  then have "decode_all f xs = Some ys" using assms by (auto split: option.splits)
  then show thesis using RObjs that decode_all_map by blast
qed (use assms in auto)

locale prune_target =
  fixes k :: kind
    and dec :: "obj \<Rightarrow> 'a option"
    and enc :: "'a \<Rightarrow> obj"
    and wanted :: "pass \<Rightarrow> string set"
  assumes dec_enc: "dec x = Some y \<Longrightarrow> x = enc y"
    and kind_enc: "kind_of (enc y) = k"
    and kind_synced: "k \<in> synced_kinds"
    and wanted_names: "wanted p = desired_names p k"
    and wanted_frame: "prune_frame q p \<Longrightarrow> wanted q = wanted p"
begin

text \<open>The objects of a list that are to go.\<close>

lemma items_frame: "prune_frame (prune_items env enc wanted items p) p"
proof (induction items arbitrary: p)
  case (Cons x items)
  let ?f = "\<lambda>x p. if om_name (meta_of (enc x)) \<in> wanted p then p else deleteOwned env (enc x) p"
  have "prune_frame (?f x p) p" by (simp add: deleteOwned_frame)
  moreover have "prune_frame (prune_items env enc wanted items (?f x p)) (?f x p)" by (rule Cons)
  moreover have "prune_items env enc wanted (x # items) p = prune_items env enc wanted items (?f x p)"
    by (simp add: prune_items_def)
  ultimately show ?case using prune_frame_trans by metis
qed (simp add: prune_items_def)

text \<open>Exactly the owned objects whose name is not wanted are deleted, in the order listed.\<close>

lemma items_requests:
  "map fst (p_trace (prune_items env enc wanted items p)) =
     rev (map (delete_request \<circ> enc)
       (filter (\<lambda>x. om_name (meta_of (enc x)) \<notin> wanted p \<and> ownedBy (meta_of (enc x)) (p_tc p)) items)) @
     map fst (p_trace p)"
proof (induction items arbitrary: p)
  case (Cons x items)
  let ?p = "if om_name (meta_of (enc x)) \<in> wanted p then p else deleteOwned env (enc x) p"
  have eq: "prune_items env enc wanted (x # items) p = prune_items env enc wanted items ?p"
    by (simp add: prune_items_def)
  have "prune_frame ?p p" by (simp add: deleteOwned_frame)
  then have "wanted ?p = wanted p" "p_tc ?p = p_tc p" using wanted_frame by (auto simp: prune_frame_def)
  moreover have "map fst (p_trace ?p) =
      (if om_name (meta_of (enc x)) \<notin> wanted p \<and> ownedBy (meta_of (enc x)) (p_tc p)
       then [delete_request (enc x)] else []) @ map fst (p_trace p)"
    by (simp add: deleteOwned_trace)
  ultimately show ?case unfolding eq Cons by simp
qed (simp add: prune_items_def)

lemma items_guarded:
  assumes "\<And>x. x \<in> set items \<Longrightarrow>
    \<exists>xs. (HostList k (host_ns (p_tc p)) (tenantSelector (p_tc p)), RObjs xs) \<in> set (p_trace p) \<and> enc x \<in> set xs"
  shows "trace_ext (prune_guard p) (p_trace p) (p_trace (prune_items env enc wanted items p))"
proof -
  have "trace_ext (prune_guard p) (p_trace q) (p_trace (prune_items env enc wanted items q))"
    if "prune_frame q p" "set (p_trace p) \<subseteq> set (p_trace q)" for q
    using that assms
  proof (induction items arbitrary: q)
    case (Cons x items)
    let ?q = "if om_name (meta_of (enc x)) \<in> wanted q then q else deleteOwned env (enc x) q"
    have eq: "prune_items env enc wanted (x # items) q = prune_items env enc wanted items ?q"
      by (simp add: prune_items_def)
    have tc: "p_tc q = p_tc p" and w: "wanted q = wanted p"
      using Cons.prems(1) wanted_frame by (auto simp: prune_frame_def)
    obtain xs where xs: "(HostList k (host_ns (p_tc p)) (tenantSelector (p_tc p)), RObjs xs) \<in> set (p_trace q)"
      "enc x \<in> set xs" using Cons.prems(2,3) by fastforce
    have "trace_ext (prune_guard p) (p_trace q) (p_trace ?q)"
    proof (cases "om_name (meta_of (enc x)) \<in> wanted q \<or> \<not> ownedBy (meta_of (enc x)) (p_tc q)")
      case False
      then have "prune_guard p (p_trace q) (delete_request (enc x))"
        using xs tc w kind_enc kind_synced wanted_names [of p]
        by (auto simp: prune_guard_def delete_request_def)
      then show ?thesis using False by (simp add: deleteOwned_trace trace_ext_one)
    qed (auto simp: deleteOwned_trace)
    moreover have "prune_frame ?q p"
      using Cons.prems(1) deleteOwned_frame prune_frame_trans by simp blast
    moreover have "set (p_trace p) \<subseteq> set (p_trace ?q)"
      using Cons.prems(2) trace_ext_subset [OF calculation(1)] by blast
    ultimately show ?case
      unfolding eq using Cons.IH [of ?q] Cons.prems(3) trace_ext_trans by fastforce
  qed (simp add: prune_items_def)
  then show ?thesis by simp
qed

lemma kind_frame: "prune_frame (prune_kind env k dec enc wanted optional p) p"
proof -
  have "prune_frame (prune_items env enc wanted items (snd (call env r p))) p" for items r
    using items_frame [of env items "snd (call env r p)"] prune_frame_trans by fastforce
  then show ?thesis by (simp add: prune_kind_def Let_def split_beta split: sum.split)
qed

lemma kind_guarded:
  "trace_ext (prune_guard p) (p_trace p) (p_trace (prune_kind env k dec enc wanted optional p))"
proof -
  let ?list = "HostList k (host_ns (p_tc p)) (tenantSelector (p_tc p))"
  let ?resp = "api env (p_trace p) ?list" and ?q = "snd (call env ?list p)"
  have one: "trace_ext (prune_guard p) (p_trace p) (p_trace ?q)"
    by (simp add: trace_ext_one prune_guard_def kind_synced)
  have g: "prune_guard ?q = prune_guard p"
  proof (rule ext)+
    fix h r
    have "desired_names ?q j = desired_names p j" for j by (cases j) simp_all
    then show "prune_guard ?q h r = prune_guard p h r" by (simp add: prune_guard_def cong: request.case_cong)
  qed
  show ?thesis
  proof (cases "decode_list dec ?resp")
    case (Inl e)
    then show ?thesis using one by (simp add: prune_kind_def Let_def split_beta)
  next
    case (Inr items)
    then obtain xs where xs: "?resp = RObjs xs" "list_all2 (\<lambda>x y. dec x = Some y) xs items"
      by (rule decode_list_Inr)
    have "enc y \<in> set xs" if "y \<in> set items" for y
      using xs(2) that dec_enc by (fastforce simp: list_all2_conv_all_nth in_set_conv_nth)
    then have "trace_ext (prune_guard ?q) (p_trace ?q) (p_trace (prune_items env enc wanted items ?q))"
      using xs(1) by (intro items_guarded) auto
    then show ?thesis
      using one Inr g trace_ext_trans by (fastforce simp: prune_kind_def Let_def split_beta)
  qed
qed

text \<open>The requests of one kind: the list, and then the deletes it gives rise to.\<close>

lemma kind_requests:
  "map fst (p_trace (prune_kind env k dec enc wanted optional p)) =
     (case decode_list dec (api env (p_trace p) (HostList k (host_ns (p_tc p)) (tenantSelector (p_tc p)))) of
        Inl e \<Rightarrow> []
      | Inr items \<Rightarrow> rev (map (delete_request \<circ> enc)
          (filter (\<lambda>x. om_name (meta_of (enc x)) \<notin> wanted p \<and> ownedBy (meta_of (enc x)) (p_tc p)) items))) @
     HostList k (host_ns (p_tc p)) (tenantSelector (p_tc p)) # map fst (p_trace p)"
proof -
  have "wanted (snd (call env r p)) = wanted p" for r by (rule wanted_frame) simp
  then show ?thesis by (simp add: prune_kind_def Let_def split_beta items_requests split: sum.split)
qed

end

interpretation pt_service: prune_target KService to_service OService "\<lambda>p. keys (p_services p)"
  by unfold_locales (auto simp: synced_kinds_def prune_frame_def same_objects_def elim: to_service.elims)

interpretation pt_ingress: prune_target KIngress to_ingress OIngress "\<lambda>p. keys (p_ingresses p)"
  by unfold_locales (auto simp: synced_kinds_def prune_frame_def same_objects_def elim: to_ingress.elims)

interpretation pt_gateway: prune_target KGateway to_gateway OGateway "\<lambda>p. keys (p_gateways p)"
  by unfold_locales (auto simp: synced_kinds_def prune_frame_def same_objects_def elim: to_gateway.elims)

interpretation pt_route: prune_target KHTTPRoute to_route OHTTPRoute "\<lambda>p. keys (p_routes p)"
  by unfold_locales (auto simp: synced_kinds_def prune_frame_def same_objects_def elim: to_route.elims)

section \<open>The whole phase\<close>

lemma desired_names_frame: "prune_frame q p \<Longrightarrow> desired_names q k = desired_names p k"
  by (cases k) (simp_all add: prune_frame_def same_objects_def)

lemma prune_guard_frame:
  assumes "prune_frame q p"
  shows "prune_guard q = prune_guard p"
proof (rule ext)+
  fix h r
  have "p_tc q = p_tc p" using assms by (simp add: prune_frame_def)
  then show "prune_guard q h r = prune_guard p h r"
    using desired_names_frame [OF assms] by (simp add: prune_guard_def split: request.split)
qed

lemma pruneAll_phase:
  "prune_frame (pruneAll env p) p \<and> trace_ext (prune_guard p) (p_trace p) (p_trace (pruneAll env p))"
proof -
  let ?p1 = "prune_kind env KService to_service OService (\<lambda>p. keys (p_services p)) False p"
  let ?p2 = "prune_kind env KIngress to_ingress OIngress (\<lambda>p. keys (p_ingresses p)) False ?p1"
  let ?p3 = "prune_kind env KGateway to_gateway OGateway (\<lambda>p. keys (p_gateways p)) True ?p2"
  let ?p4 = "prune_kind env KHTTPRoute to_route OHTTPRoute (\<lambda>p. keys (p_routes p)) True ?p3"
  have f1: "prune_frame ?p1 p" by (rule pt_service.kind_frame)
  have f2: "prune_frame ?p2 p" using pt_ingress.kind_frame f1 by (rule prune_frame_trans)
  have f3: "prune_frame ?p3 p" using pt_gateway.kind_frame f2 by (rule prune_frame_trans)
  have f4: "prune_frame ?p4 p" using pt_route.kind_frame f3 by (rule prune_frame_trans)
  have t1: "trace_ext (prune_guard p) (p_trace p) (p_trace ?p1)" by (rule pt_service.kind_guarded)
  have t2: "trace_ext (prune_guard p) (p_trace p) (p_trace ?p2)"
    using trace_ext_trans [OF pt_ingress.kind_guarded [of ?p1, unfolded prune_guard_frame [OF f1]] t1] .
  have t3: "trace_ext (prune_guard p) (p_trace p) (p_trace ?p3)"
    using trace_ext_trans [OF pt_gateway.kind_guarded [of ?p2, unfolded prune_guard_frame [OF f2]] t2] .
  have t4: "trace_ext (prune_guard p) (p_trace p) (p_trace ?p4)"
    using trace_ext_trans [OF pt_route.kind_guarded [of ?p3, unfolded prune_guard_frame [OF f3]] t3] .
  show ?thesis using f2 t2 f4 t4 by (simp add: pruneAll_def Let_def)
qed

section \<open>A failed prune is on record\<close>

text \<open>
  The answers that leave the pass not knowing whether a host object survives: a delete that
  failed, a list of host objects that failed, a list of VMs that failed.
\<close>

fun prune_trouble :: "event \<Rightarrow> bool" where
  "prune_trouble (HostDelete x uid, resp) = delete_failed resp"
| "prune_trouble (HostList k ns sel, resp) =
     (case write_error resp of
        None \<Rightarrow> False
      | Some e \<Rightarrow> k \<in> {KService, KIngress, KPVC, KStorageClass} \<or>
          (k \<in> {KGateway, KHTTPRoute} \<and> \<not> IsNoMatchError e))"
| "prune_trouble (VMs ns, resp) = (write_error resp \<noteq> None)"
| "prune_trouble _ = False"

definition recorded :: "pass \<Rightarrow> bool" where
  "recorded p \<longleftrightarrow> p_pruneFailed p \<or> (\<forall>e \<in> set (p_trace p). \<not> prune_trouble e)"

lemma recorded_ext:
  assumes "trace_ext Q (p_trace p) (p_trace q)" and "\<And>h r resp. Q h r \<Longrightarrow> \<not> prune_trouble (r, resp)"
    and "p_pruneFailed p \<Longrightarrow> p_pruneFailed q" and "recorded p"
  shows "recorded q"
proof -
  have "trace_ext Q t t' \<Longrightarrow> \<forall>e \<in> set t. \<not> prune_trouble e \<Longrightarrow> \<forall>e \<in> set t'. \<not> prune_trouble e" for t t'
    by (induction rule: trace_ext.induct) (auto simp: assms(2))
  then show ?thesis using assms(1,3,4) by (auto simp: recorded_def)
qed

lemma recorded_deleteOwned: "recorded p \<Longrightarrow> recorded (deleteOwned env x p)"
  by (auto simp: recorded_def deleteOwned_failed deleteOwned_trace delete_request_def)

lemma recorded_prune_items: "recorded p \<Longrightarrow> recorded (prune_items env enc wanted items p)"
  by (induction items arbitrary: p) (simp_all add: prune_items_def recorded_deleteOwned)

lemma write_error_decode_list: "write_error r = Some e \<Longrightarrow> decode_list f r = Inl e"
  by (cases r) simp_all

lemma recorded_prune_kind:
  assumes "recorded p" and "k \<in> synced_kinds" and "optional \<Longrightarrow> k \<in> {KGateway, KHTTPRoute}"
  shows "recorded (prune_kind env k dec enc wanted optional p)"
proof -
  let ?r = "HostList k (host_ns (p_tc p)) (tenantSelector (p_tc p))"
  let ?resp = "api env (p_trace p) ?r" and ?q = "snd (call env ?r p)"
  show ?thesis
  proof (cases "decode_list dec ?resp")
    case (Inl e)
    show ?thesis
    proof (cases "optional \<and> IsNoMatchError e")
      case True
      have "\<not> prune_trouble (?r, ?resp)"
        using True assms(3) Inl write_error_decode_list [of ?resp _ dec] by (auto split: option.split)
      then have "recorded ?q" using assms(1) by (auto simp: recorded_def)
      then show ?thesis using True Inl by (simp add: prune_kind_def Let_def split_beta)
    next
      case False
      then show ?thesis using Inl by (auto simp: prune_kind_def Let_def split_beta recorded_def)
    qed
  next
    case (Inr items)
    then have "write_error ?resp = None" by (cases ?resp) simp_all
    then have "\<not> prune_trouble (?r, ?resp)" by simp
    then have "recorded ?q" using assms(1) by (auto simp: recorded_def)
    then show ?thesis using Inr recorded_prune_items by (simp add: prune_kind_def Let_def split_beta)
  qed
qed

lemma recorded_pruneAll: "recorded p \<Longrightarrow> recorded (pruneAll env p)"
  by (simp add: pruneAll_def Let_def recorded_prune_kind synced_kinds_def)

lemma pruneFailed_mono_items: "p_pruneFailed p \<Longrightarrow> p_pruneFailed (prune_items env enc wanted items p)"
  by (induction items arbitrary: p) (simp_all add: prune_items_def deleteOwned_failed)

lemma pruneFailed_mono_kind: "p_pruneFailed p \<Longrightarrow> p_pruneFailed (prune_kind env k dec enc wanted optional p)"
  by (simp add: prune_kind_def Let_def split_beta pruneFailed_mono_items split: sum.split)

lemma pruneFailed_mono: "p_pruneFailed p \<Longrightarrow> p_pruneFailed (pruneAll env p)"
  by (simp add: pruneAll_def Let_def pruneFailed_mono_kind)

section \<open>Properties\<close>

text \<open>The objects of a listing that prune is to delete.\<close>

definition prunable :: "('a \<Rightarrow> obj) \<Rightarrow> string set \<Rightarrow> tenant_cluster \<Rightarrow> 'a list \<Rightarrow> 'a list" where
  "prunable enc wanted tc = filter (\<lambda>x. om_name (meta_of (enc x)) \<notin> wanted \<and> ownedBy (meta_of (enc x)) tc)"

definition listing :: "env \<Rightarrow> kind \<Rightarrow> (obj \<Rightarrow> 'a option) \<Rightarrow> pass \<Rightarrow> 'a list" where
  "listing env k dec p =
     (case decode_list dec (api env (p_trace p) (HostList k (host_ns (p_tc p)) (tenantSelector (p_tc p)))) of
        Inl e \<Rightarrow> [] | Inr items \<Rightarrow> items)"

definition prune_requests :: "env \<Rightarrow> kind \<Rightarrow> (obj \<Rightarrow> 'a option) \<Rightarrow> ('a \<Rightarrow> obj) \<Rightarrow> string set \<Rightarrow> pass \<Rightarrow> request list" where
  "prune_requests env k dec enc wanted p =
     HostList k (host_ns (p_tc p)) (tenantSelector (p_tc p)) #
     map (delete_request \<circ> enc) (prunable enc wanted (p_tc p) (listing env k dec p))"

text \<open>Deletes that left their object behind.\<close>

definition failed_deletes :: "event list \<Rightarrow> event list" where
  "failed_deletes = filter (\<lambda>(r, resp). case r of HostDelete x uid \<Rightarrow> delete_failed resp | _ \<Rightarrow> False)"

lemma failed_deletes_simps [simp]:
  "failed_deletes ((HostDelete x uid, resp) # tr) =
     (if delete_failed resp then [(HostDelete x uid, resp)] else []) @ failed_deletes tr"
  "failed_deletes ((HostList k ns sel, resp) # tr) = failed_deletes tr"
  by (simp_all add: failed_deletes_def)

lemma prune_items_failed:
  "\<exists>new. failed_deletes (p_trace (prune_items env enc wanted items p)) = new @ failed_deletes (p_trace p) \<and>
     (p_pruneFailed (prune_items env enc wanted items p) \<longleftrightarrow> p_pruneFailed p \<or> new \<noteq> [])"
proof (induction items arbitrary: p)
  case (Cons x items)
  let ?p = "if om_name (meta_of (enc x)) \<in> wanted p then p else deleteOwned env (enc x) p"
  have "\<exists>new. failed_deletes (p_trace ?p) = new @ failed_deletes (p_trace p) \<and>
      (p_pruneFailed ?p \<longleftrightarrow> p_pruneFailed p \<or> new \<noteq> [])"
    by (simp add: deleteOwned_trace deleteOwned_failed delete_request_def)
  then obtain n where n: "failed_deletes (p_trace ?p) = n @ failed_deletes (p_trace p)"
    "p_pruneFailed ?p \<longleftrightarrow> p_pruneFailed p \<or> n \<noteq> []" by blast
  obtain m where m: "failed_deletes (p_trace (prune_items env enc wanted items ?p)) = m @ failed_deletes (p_trace ?p)"
    "p_pruneFailed (prune_items env enc wanted items ?p) \<longleftrightarrow> p_pruneFailed ?p \<or> m \<noteq> []" using Cons by blast
  have "prune_items env enc wanted (x # items) p = prune_items env enc wanted items ?p"
    by (simp add: prune_items_def)
  then show ?case using n m by (intro exI [of _ "m @ n"]) auto
qed (simp add: prune_items_def)

text \<open>
  What pruning one kind does: the requests it adds, and when it leaves the pass marked as not
  cleanly pruned (\<open>optional\<close> says whether a missing kind is tolerated).
\<close>

definition prunes :: "env \<Rightarrow> kind \<Rightarrow> (obj \<Rightarrow> 'a option) \<Rightarrow> ('a \<Rightarrow> obj) \<Rightarrow> string set \<Rightarrow> bool \<Rightarrow> pass \<Rightarrow> pass \<Rightarrow> bool" where
  "prunes env k dec enc wanted optional p q \<longleftrightarrow>
     rev (map fst (p_trace q)) = rev (map fst (p_trace p)) @ prune_requests env k dec enc wanted p \<and>
     (p_pruneFailed q \<longleftrightarrow> p_pruneFailed p \<or>
        (case decode_list dec (api env (p_trace p) (HostList k (host_ns (p_tc p)) (tenantSelector (p_tc p)))) of
           Inl e \<Rightarrow> \<not> (optional \<and> IsNoMatchError e)
         | Inr items \<Rightarrow> failed_deletes (p_trace q) \<noteq> failed_deletes (p_trace p)))"

lemma prune_kind_failed:
  fixes env k dec enc wanted optional p
  defines "q \<equiv> prune_kind env k dec enc wanted optional p"
  shows "p_pruneFailed q \<longleftrightarrow> p_pruneFailed p \<or>
    (case decode_list dec (api env (p_trace p) (HostList k (host_ns (p_tc p)) (tenantSelector (p_tc p)))) of
       Inl e \<Rightarrow> \<not> (optional \<and> IsNoMatchError e)
     | Inr items \<Rightarrow> failed_deletes (p_trace q) \<noteq> failed_deletes (p_trace p))"
proof (cases "decode_list dec (api env (p_trace p) (HostList k (host_ns (p_tc p)) (tenantSelector (p_tc p))))")
  case (Inl e)
  then show ?thesis by (simp add: q_def prune_kind_def Let_def split_beta)
next
  case (Inr items)
  let ?p = "snd (call env (HostList k (host_ns (p_tc p)) (tenantSelector (p_tc p))) p)"
  have "q = prune_items env enc wanted items ?p" using Inr by (simp add: q_def prune_kind_def Let_def split_beta)
  moreover have "failed_deletes (p_trace ?p) = failed_deletes (p_trace p)" by simp
  ultimately show ?thesis using prune_items_failed [of env enc wanted items ?p] Inr by auto
qed

context prune_target begin

lemma kind_prunes: "prunes env k dec enc (wanted p) optional p (prune_kind env k dec enc wanted optional p)"
proof -
  have "rev (map fst (p_trace (prune_kind env k dec enc wanted optional p))) =
      rev (map fst (p_trace p)) @ prune_requests env k dec enc (wanted p) p"
    by (simp add: kind_requests prune_requests_def prunable_def listing_def split: sum.split)
  then show ?thesis unfolding prunes_def using prune_kind_failed by (rule conjI)
qed

end

text \<open>
  Claim C27. Prune deletes exactly what has to go: for each synced kind it lists this tenant's
  objects and then sends one delete, in the order listed, for each listed object that carries the
  tenant's labels and whose name is not desired; it sends nothing else.  A failed list is never
  taken for an empty one: it deletes nothing and marks the pass as not cleanly pruned (which keeps
  the finalizers), unless the host has no such kind and the kind is optional; after a list that
  was answered, the pass is marked if and only if one of these deletes failed otherwise than by
  finding the object gone.
\<close>

theorem prune_deletes_exactly:
  "prunes env KService to_service OService (keys (p_services p)) o1 p
     (prune_kind env KService to_service OService (\<lambda>p. keys (p_services p)) o1 p) \<and>
   prunes env KIngress to_ingress OIngress (keys (p_ingresses p)) o2 p
     (prune_kind env KIngress to_ingress OIngress (\<lambda>p. keys (p_ingresses p)) o2 p) \<and>
   prunes env KGateway to_gateway OGateway (keys (p_gateways p)) o3 p
     (prune_kind env KGateway to_gateway OGateway (\<lambda>p. keys (p_gateways p)) o3 p) \<and>
   prunes env KHTTPRoute to_route OHTTPRoute (keys (p_routes p)) o4 p
     (prune_kind env KHTTPRoute to_route OHTTPRoute (\<lambda>p. keys (p_routes p)) o4 p)"
  by (intro conjI pt_service.kind_prunes pt_ingress.kind_prunes pt_gateway.kind_prunes pt_route.kind_prunes)

end
