(* ===== verification/WriteBack.thy ===== *)
theory WriteBack
  imports Prune
begin

text \<open>
  The guest-facing half of a pass, internal/syncer/writeback.go: the finalizers that pin guest
  objects with host state and their release, the write-back of addresses, and the refusals as
  conditions, annotations and events.
\<close>

section \<open>Writes into the guest\<close>

text \<open>
  A guest object is written from the store; it was changed in place before the call, and on
  success the server's answer replaces it.  The result is the error, if any.
\<close>

definition same_kind :: "obj \<Rightarrow> obj \<Rightarrow> obj option" where
  "same_kind x y = (if kind_of y = kind_of x then Some y else None)"

definition guest_write :: "env \<Rightarrow> (obj \<Rightarrow> request) \<Rightarrow> guest_ref \<Rightarrow> obj \<Rightarrow> pass \<Rightarrow> api_error option \<times> pass" where
  "guest_write env req ref x p =
     (let (resp, p) = call env (req x) (store ref x p)
      in case decode_write (same_kind x) x resp of
           Inl e \<Rightarrow> (Some e, p)
         | Inr y \<Rightarrow> (None, store ref y p))"

text \<open>The object behind a reference after a write.\<close>

definition current :: "guest_ref \<Rightarrow> obj \<Rightarrow> pass \<Rightarrow> obj" where
  "current ref x p = (case p_heap p ref of None \<Rightarrow> x | Some y \<Rightarrow> y)"

text \<open>The writes whose failure is one line of \<open>problems\<close>.\<close>

definition guest_write_or :: "env \<Rightarrow> (obj \<Rightarrow> request) \<Rightarrow> guest_ref \<Rightarrow> obj \<Rightarrow> string \<Rightarrow> pass \<Rightarrow> pass" where
  "guest_write_or env req ref x what p =
     (case guest_write env req ref x p of
        (Some e, p) \<Rightarrow> problem (what @ '': '' @ err_text e) p
      | (None, p) \<Rightarrow> p)"

definition guest_name :: "guest_ref \<Rightarrow> string" where
  "guest_name ref = kind_name (ref_kind ref) @ '' '' @ ref_ns ref @ ''/'' @ ref_name ref"

section \<open>Finalizers\<close>

text \<open>\<open>p.guestObjs[ref]\<close>: the object, if it is in scope.\<close>

definition guestObj :: "pass \<Rightarrow> guest_ref \<Rightarrow> obj option" where
  "guestObj p ref = (if ref \<in> set (p_guestObjs p) then p_heap p ref else None)"

definition set_finalizers :: "string list \<Rightarrow> obj \<Rightarrow> obj" where
  "set_finalizers fs x = set_meta ((meta_of x)\<lparr>om_finalizers := fs\<rparr>) x"

definition ensure_finalizer :: "env \<Rightarrow> guest_ref \<Rightarrow> pass \<Rightarrow> pass" where
  "ensure_finalizer env ref p =
     (case guestObj p ref of
        None \<Rightarrow> p
      | Some x \<Rightarrow>
          if om_deleting (meta_of x) then p
          else let (changed, fs) = add_finalizer env GuestFinalizer (om_finalizers (meta_of x))
               in if \<not> changed then p
                  else guest_write_or env GuestUpdate ref (set_finalizers fs x)
                    (''adding finalizer to guest '' @ guest_name ref) p)"

definition ensureGuestFinalizers :: "env \<Rightarrow> pass \<Rightarrow> pass" where
  "ensureGuestFinalizers env p =
     fold (ensure_finalizer env)
       (go_range (map_order env (p_trace p) ''ensureGuestFinalizers'') (p_wantFinalizer p)) p"

definition release_finalizer :: "env \<Rightarrow> guest_ref \<Rightarrow> pass \<Rightarrow> pass" where
  "release_finalizer env ref p =
     (if ref \<in> set (p_wantFinalizer p) then p
      else case p_heap p ref of
        None \<Rightarrow> p
      | Some x \<Rightarrow>
          let (changed, fs) = remove_finalizer env GuestFinalizer (om_finalizers (meta_of x))
          in if \<not> changed then p
             else guest_write_or env GuestUpdate ref (set_finalizers fs x)
               (''removing finalizer from guest '' @ guest_name ref) p)"

definition releaseGuestFinalizers :: "env \<Rightarrow> pass \<Rightarrow> pass" where
  "releaseGuestFinalizers env p =
     (if p_pruneFailed p then p else fold (release_finalizer env) (p_seenFinalizer p) p)"

section \<open>Addresses\<close>

fun describe_ingress_entry :: "lb_ingress \<Rightarrow> string" where
  "describe_ingress_entry e =
     (if lbi_ip e \<noteq> [] then
        lbi_ip e @ (if familyOf (lbi_ip e) \<noteq> [] then '' ('' @ familyOf (lbi_ip e) @ '')'' else [])
      else lbi_hostname e)"

definition describeIngress :: "lb_ingress list \<Rightarrow> string" where
  "describeIngress es = join (map describe_ingress_entry es) '', ''"

definition requestedFamilies :: "service \<Rightarrow> ip_family list" where
  "requestedFamilies host = svc_ipFamilies host"

definition missingFamilies :: "ip_family list \<Rightarrow> lb_ingress list \<Rightarrow> ip_family list" where
  "missingFamilies want have =
     (if want = [] then []
      else if [] \<in> set (map lbi_ip have) then []
      else filter (\<lambda>w. w \<notin> set (map (familyOf \<circ> lbi_ip) have)) want)"

text \<open>What the guest learns of the host's addresses: IP and hostname only.\<close>

definition guest_ingress :: "service \<Rightarrow> lb_ingress list" where
  "guest_ingress host =
     map (\<lambda>e. \<lparr>lbi_ip = lbi_ip e, lbi_hostname = lbi_hostname e, lbi_rest = []\<rparr>) (svc_lbIngress host)"

definition address_condition :: "service \<Rightarrow> int \<Rightarrow> condition" where
  "address_condition host generation =
     (let es = guest_ingress host; missing = missingFamilies (svc_ipFamilies host) es;
          cond = (\<lambda>status reason msg. \<lparr>cond_type = HostAddressCondition, cond_status = status,
            cond_reason = reason, cond_message = msg, cond_generation = generation\<rparr>)
      in if es \<noteq> [] \<and> missing = [] then
           cond ''True'' ''AddressAssigned'' (''the host cluster assigned '' @ describeIngress es)
         else if es \<noteq> [] then
           cond ''False'' ''AddressPartiallyAssigned''
             (''the host cluster assigned '' @ describeIngress es @ '' but has no '' @
              describeFamilies missing @ '' address to give; the host's '' @ describeFamilies missing @
              '' pool is exhausted'')
         else
           cond ''False'' ''AddressPending''
             (''waiting for the host cluster to assign a '' @ describeFamilies (requestedFamilies host) @
              '' address; if this persists, the host address pool is exhausted''))"

definition writeBackService :: "env \<Rightarrow> guest_ref \<times> string \<Rightarrow> pass \<Rightarrow> pass" where
  "writeBackService env pair p =
     (case (map_of (p_services p) (snd pair), heap_as to_service p (fst pair)) of
        (Some host, Some g) \<Rightarrow>
          let es = guest_ingress host;
              (c, conds) = set_condition env
                (address_condition host (om_generation (svc_meta g))) (svc_conditions g);
              changed = (svc_lbIngress g \<noteq> es \<or> c);
              g = g\<lparr>svc_lbIngress := es, svc_conditions := conds\<rparr>
          in if \<not> changed then store (fst pair) (OService g) p
             else guest_write_or env GuestStatusUpdate (fst pair) (OService g)
               (''writing status to guest '' @ guest_name (fst pair)) p
      | _ \<Rightarrow> p)"

definition writeBackServices :: "env \<Rightarrow> pass \<Rightarrow> pass" where
  "writeBackServices env p = fold (writeBackService env) (p_lbPairs p) p"

definition writeBackIngress :: "env \<Rightarrow> guest_ref \<times> string \<Rightarrow> pass \<Rightarrow> pass" where
  "writeBackIngress env pair p =
     (case (map_of (p_ingresses p) (snd pair), heap_as to_ingress p (fst pair)) of
        (Some host, Some g) \<Rightarrow>
          if ing_lbStatus g = ing_lbStatus host then p
          else guest_write_or env GuestStatusUpdate (fst pair)
            (OIngress (g\<lparr>ing_lbStatus := ing_lbStatus host\<rparr>))
            (''writing status to guest '' @ guest_name (fst pair)) p
      | _ \<Rightarrow> p)"

definition writeBackIngresses :: "env \<Rightarrow> pass \<Rightarrow> pass" where
  "writeBackIngresses env p = fold (writeBackIngress env) (p_ingressPairs p) p"

definition writeBackGateway :: "env \<Rightarrow> guest_ref \<times> string \<Rightarrow> pass \<Rightarrow> pass" where
  "writeBackGateway env pair p =
     (case (map_of (p_gateways p) (snd pair), heap_as to_gateway p (fst pair)) of
        (Some host, Some g) \<Rightarrow>
          if gw_addresses g = gw_addresses host then p
          else guest_write_or env GuestStatusUpdate (fst pair)
            (OGateway (g\<lparr>gw_addresses := gw_addresses host\<rparr>))
            (''writing status to guest '' @ guest_name (fst pair)) p
      | _ \<Rightarrow> p)"

definition writeBackGateways :: "env \<Rightarrow> pass \<Rightarrow> pass" where
  "writeBackGateways env p = fold (writeBackGateway env) (p_gatewayPairs p) p"

section \<open>Refusals\<close>

definition guestEvent :: "env \<Rightarrow> obj \<Rightarrow> kind \<Rightarrow> string \<Rightarrow> string \<Rightarrow> string \<Rightarrow> pass \<Rightarrow> pass" where
  "guestEvent env x k evType reason msg p =
     (let (resp, p) = call env Now p;
          m = meta_of x
      in snd (call env (GuestCreate (OEvent \<lparr>
           ev_namespace = om_namespace m,
           ev_name = om_name m @ ''.'' @ show_hex (nat (decode_time resp)),
           ev_kind = kind_name k, ev_objectName = om_name m, ev_objectUid = om_uid m,
           ev_type = evType, ev_reason = reason, ev_message = msg\<rparr>)) p))"

definition refused_condition :: "string \<Rightarrow> int \<Rightarrow> condition" where
  "refused_condition msg generation = \<lparr>cond_type = HostAddressCondition, cond_status = ''False'',
     cond_reason = ''SyncRefused'', cond_message = msg, cond_generation = generation\<rparr>"

definition write_service_refusal :: "env \<Rightarrow> guest_ref \<Rightarrow> service \<Rightarrow> string list \<Rightarrow> pass \<Rightarrow> pass" where
  "write_service_refusal env ref svc msgs p =
     (if msgs = [] \<or> \<not> wantsLoadBalancer (p_tc p) svc then p
      else
        let msg = summarize msgs 5;
            (changed, conds) = set_condition env
              (refused_condition msg (om_generation (svc_meta svc))) (svc_conditions svc);
            x = OService (svc\<lparr>svc_conditions := conds\<rparr>)
        in if \<not> changed then p
           else case guest_write env GuestStatusUpdate ref x p of
             (Some e, p) \<Rightarrow> problem (''writing refusal to guest '' @ guest_name ref @ '': '' @ err_text e) p
           | (None, p) \<Rightarrow> guestEvent env (current ref x p) KService ''Warning'' ''SyncRefused'' msg p)"

definition set_annotation :: "string \<Rightarrow> obj \<Rightarrow> obj" where
  "set_annotation desired x =
     (let m = meta_of x; ann = om_annotations m
      in set_meta (m\<lparr>om_annotations :=
           (if desired = [] then ann(RefusedAnnotation := None) else ann(RefusedAnnotation \<mapsto> desired))\<rparr>) x)"

definition write_annotation :: "env \<Rightarrow> guest_ref \<Rightarrow> obj \<Rightarrow> string list \<Rightarrow> pass \<Rightarrow> pass" where
  "write_annotation env ref x msgs p =
     (let desired = summarize msgs 5 in
      if desired = at (om_annotations (meta_of x)) RefusedAnnotation then p
      else
        let x = set_annotation desired x
        in case guest_write env GuestUpdate ref x p of
             (Some e, p) \<Rightarrow> problem (''annotating guest '' @ guest_name ref @ '': '' @ err_text e) p
           | (None, p) \<Rightarrow>
               if desired = [] then p
               else guestEvent env (current ref x p) (ref_kind ref) ''Warning''
                 (if ref_kind ref = KPVC then ''SyncRefused'' else ''HostnameRefused'') desired p)"

definition write_refusal :: "env \<Rightarrow> guest_ref \<Rightarrow> pass \<Rightarrow> pass" where
  "write_refusal env ref p =
     (case p_heap p ref of
        None \<Rightarrow> p
      | Some x \<Rightarrow>
          if ref_kind ref = KService then
            (case to_service x of
               None \<Rightarrow> p
             | Some svc \<Rightarrow> write_service_refusal env ref svc (p_refusals p ref) p)
          else write_annotation env ref x (p_refusals p ref) p)"

definition writeRefusals :: "env \<Rightarrow> pass \<Rightarrow> pass" where
  "writeRefusals env p =
     fold (write_refusal env) (go_range (map_order env (p_trace p) ''writeRefusals'') (p_guestObjs p)) p"

definition writeBack :: "env \<Rightarrow> pass \<Rightarrow> pass" where
  "writeBack env p =
     writeRefusals env (writeBackGateways env (writeBackIngresses env (writeBackServices env p)))"

section \<open>What write-back touches\<close>

definition guest_kinds :: "kind set" where
  "guest_kinds = {KService, KIngress, KGateway, KHTTPRoute, KPVC}"

definition heap_kinds :: "pass \<Rightarrow> bool" where
  "heap_kinds p \<longleftrightarrow> (\<forall>ref x. p_heap p ref = Some x \<longrightarrow> kind_of x \<in> guest_kinds)"

text \<open>
  Requests of write-back: updates of the listed guest kinds, events, the clock.  Nothing is
  created in the guest but events, nothing is deleted, and the host is not touched.
\<close>

definition writeback_calls :: "event list \<Rightarrow> request \<Rightarrow> bool" where
  "writeback_calls h r \<longleftrightarrow> (case r of
     GuestUpdate x \<Rightarrow> kind_of x \<in> guest_kinds
   | GuestStatusUpdate x \<Rightarrow> kind_of x \<in> guest_kinds
   | GuestCreate x \<Rightarrow> kind_of x = KEvent
   | Now \<Rightarrow> True
   | _ \<Rightarrow> False)"

definition wb_frame :: "pass \<Rightarrow> pass \<Rightarrow> bool" where
  "wb_frame q p \<longleftrightarrow>
     p_tc q = p_tc p \<and> p_gatewayAPIOnHost q = p_gatewayAPIOnHost p \<and>
     p_hostFamilies q = p_hostFamilies p \<and> p_hot q = p_hot p \<and> p_images q = p_images p \<and>
     p_storage q = p_storage p \<and> p_guestObjs q = p_guestObjs p \<and>
     p_wantFinalizer q = p_wantFinalizer p \<and> p_seenFinalizer q = p_seenFinalizer p \<and>
     p_pruneFailed q = p_pruneFailed p \<and> same_objects q p"

lemma wb_frame_refl [simp]: "wb_frame p p"
  by (simp add: wb_frame_def)

lemma wb_frame_trans: "wb_frame r q \<Longrightarrow> wb_frame q p \<Longrightarrow> wb_frame r p"
  by (simp add: wb_frame_def same_objects_def)

lemma wb_frame_simps [simp]:
  "wb_frame (snd (call env r q)) p = wb_frame q p" "wb_frame (problem m q) p = wb_frame q p"
  "wb_frame (store ref x q) p = wb_frame q p"
  by (simp_all add: wb_frame_def same_objects_def problem_def store_def)

lemma heap_kinds_simps [simp]:
  "heap_kinds (snd (call env r p)) = heap_kinds p" "heap_kinds (problem m p) = heap_kinds p"
  by (simp_all add: heap_kinds_def)

lemma heap_kinds_store: "heap_kinds p \<Longrightarrow> kind_of x \<in> guest_kinds \<Longrightarrow> heap_kinds (store ref x p)"
  by (auto simp: heap_kinds_def)

lemma heap_kindsD: "heap_kinds p \<Longrightarrow> p_heap p ref = Some x \<Longrightarrow> kind_of x \<in> guest_kinds"
  unfolding heap_kinds_def by blast

lemma heap_as_kind:
  "heap_as f p ref = Some y \<Longrightarrow> heap_kinds p \<Longrightarrow> \<exists>x. p_heap p ref = Some x \<and> kind_of x \<in> guest_kinds \<and> f x = Some y"
  by (auto simp: heap_as_def dest: heap_kindsD split: option.splits)

lemma decode_write_kind:
  "decode_write (same_kind x) x r = Inr y \<Longrightarrow> kind_of y = kind_of x"
  by (cases r) (auto simp: same_kind_def split: if_splits)

text \<open>Guarded requests and a kept store, the contract of each operation of this file.\<close>

definition wb_ok :: "pass \<Rightarrow> pass \<Rightarrow> bool" where
  "wb_ok p q \<longleftrightarrow> heap_kinds q \<and> trace_ext writeback_calls (p_trace p) (p_trace q) \<and> wb_frame q p"

lemma wb_okI [intro?]:
  "heap_kinds q \<Longrightarrow> trace_ext writeback_calls (p_trace p) (p_trace q) \<Longrightarrow> wb_frame q p \<Longrightarrow> wb_ok p q"
  by (simp add: wb_ok_def)

lemma wb_ok_refl: "heap_kinds p \<Longrightarrow> wb_ok p p"
  by (simp add: wb_ok_def)

lemma wb_ok_trans: "wb_ok p q \<Longrightarrow> wb_ok q r \<Longrightarrow> wb_ok p r"
  unfolding wb_ok_def using trace_ext_trans wb_frame_trans by blast

lemma wb_ok_problem [simp]: "wb_ok p (problem m q) = wb_ok p q"
  by (simp add: wb_ok_def)

lemma wb_ok_heap: "wb_ok p q \<Longrightarrow> heap_kinds q"
  by (simp add: wb_ok_def)

lemma wb_ok_fold:
  assumes "\<And>x p. heap_kinds p \<Longrightarrow> wb_ok p (f x p)"
  shows "heap_kinds p \<Longrightarrow> wb_ok p (fold f xs p)"
proof (induction xs arbitrary: p)
  case (Cons x xs)
  then show ?case using assms wb_ok_trans wb_ok_heap by (metis fold_simps(2))
qed (simp add: wb_ok_refl)

lemma wb_ok_store: "heap_kinds p \<Longrightarrow> kind_of x \<in> guest_kinds \<Longrightarrow> wb_ok p (store ref x p)"
  by (simp add: wb_ok_def heap_kinds_store)

lemma guest_write_ok:
  assumes "heap_kinds p" and "kind_of x \<in> guest_kinds" and "\<And>h. writeback_calls h (req x)"
  shows "wb_ok p (snd (guest_write env req ref x p))"
proof -
  let ?q = "snd (call env (req x) (store ref x p))"
  have q: "heap_kinds ?q" "p_trace ?q = (req x, api env (p_trace p) (req x)) # p_trace p"
    using assms(1,2) heap_kinds_store by simp_all
  have t: "trace_ext writeback_calls (p_trace p) (p_trace ?q)"
    unfolding q(2) by (rule trace_ext_one) (rule assms(3))
  have "wb_ok p ?q" using q(1) t by (rule wb_okI) simp
  moreover have "wb_ok p (store ref y ?q)" if "kind_of y = kind_of x" for y
    using heap_kinds_store [OF q(1)] that assms(2) t by (intro wb_okI) simp_all
  ultimately show ?thesis
    using decode_write_kind by (auto simp: guest_write_def Let_def split_beta split: sum.split)
qed

lemma guest_write_or_ok:
  assumes "heap_kinds p" and "kind_of x \<in> guest_kinds" and "\<And>h. writeback_calls h (req x)"
  shows "wb_ok p (guest_write_or env req ref x what p)"
proof -
  obtain e q where g: "guest_write env req ref x p = (e, q)" by (cases "guest_write env req ref x p")
  have "wb_ok p q" using guest_write_ok [where req = req and env = env and ref = ref, OF assms] g by simp
  then show ?thesis using g by (cases e) (simp_all add: guest_write_or_def)
qed

lemma writeback_calls_simps [simp]:
  "writeback_calls h (GuestUpdate x) = (kind_of x \<in> guest_kinds)"
  "writeback_calls h (GuestStatusUpdate x) = (kind_of x \<in> guest_kinds)"
  "writeback_calls h (GuestCreate (OEvent e))" "writeback_calls h Now"
  by (simp_all add: writeback_calls_def)

lemma set_finalizers_kind [simp]: "kind_of (set_finalizers fs x) = kind_of x"
  by (simp add: set_finalizers_def)

lemma set_annotation_kind [simp]: "kind_of (set_annotation d x) = kind_of x"
  by (simp add: set_annotation_def Let_def)

lemma guest_kinds_mem [simp]:
  "KService \<in> guest_kinds" "KIngress \<in> guest_kinds" "KGateway \<in> guest_kinds"
  "KHTTPRoute \<in> guest_kinds" "KPVC \<in> guest_kinds"
  by (simp_all add: guest_kinds_def)

lemma ensure_finalizer_ok: "heap_kinds p \<Longrightarrow> wb_ok p (ensure_finalizer env ref p)"
  by (auto simp: ensure_finalizer_def guestObj_def split_beta Let_def
      intro!: guest_write_or_ok wb_ok_refl dest: heap_kindsD split: option.split)

lemma release_finalizer_ok: "heap_kinds p \<Longrightarrow> wb_ok p (release_finalizer env ref p)"
  by (auto simp: release_finalizer_def split_beta Let_def
      intro!: guest_write_or_ok wb_ok_refl dest: heap_kindsD split: option.split)

lemma writeBackService_ok: "heap_kinds p \<Longrightarrow> wb_ok p (writeBackService env pair p)"
  by (auto simp: writeBackService_def split_beta Let_def
      intro!: guest_write_or_ok wb_ok_refl wb_ok_store split: option.split)

lemma writeBackIngress_ok: "heap_kinds p \<Longrightarrow> wb_ok p (writeBackIngress env pair p)"
  by (auto simp: writeBackIngress_def intro!: guest_write_or_ok wb_ok_refl split: option.split)

lemma writeBackGateway_ok: "heap_kinds p \<Longrightarrow> wb_ok p (writeBackGateway env pair p)"
  by (auto simp: writeBackGateway_def intro!: guest_write_or_ok wb_ok_refl split: option.split)

lemma guestEvent_ok:
  assumes "heap_kinds p"
  shows "wb_ok p (guestEvent env x k a b c p)"
proof -
  have "trace_ext writeback_calls (p_trace p) (p_trace (guestEvent env x k a b c p))"
    by (simp add: guestEvent_def Let_def split_beta trace_ext_step trace_ext_one)
  then show ?thesis
    using assms by (intro wb_okI) (simp_all add: guestEvent_def Let_def split_beta)
qed

lemma wb_ok_event: "wb_ok p q \<Longrightarrow> wb_ok p (guestEvent env x k a b c q)"
  using wb_ok_trans [of p q] guestEvent_ok [OF wb_ok_heap] by blast

lemma write_service_refusal_ok: "heap_kinds p \<Longrightarrow> wb_ok p (write_service_refusal env ref svc msgs p)"
proof -
  assume h: "heap_kinds p"
  have "wb_ok p (snd (guest_write env GuestStatusUpdate ref (OService s) p))" for s
    using h by (intro guest_write_ok) simp_all
  then show ?thesis
    unfolding write_service_refusal_def Let_def split_beta
    by (auto simp: wb_ok_refl h intro!: wb_ok_event split: option.split)
qed

lemma write_annotation_ok: "heap_kinds p \<Longrightarrow> kind_of x \<in> guest_kinds \<Longrightarrow> wb_ok p (write_annotation env ref x msgs p)"
proof -
  assume h: "heap_kinds p" "kind_of x \<in> guest_kinds"
  have "wb_ok p (snd (guest_write env GuestUpdate ref (set_annotation d x) p))" for d
    using h by (intro guest_write_ok) simp_all
  then show ?thesis
    unfolding write_annotation_def Let_def split_beta
    by (auto simp: wb_ok_refl h intro!: wb_ok_event split: option.split)
qed

lemma write_refusal_ok: "heap_kinds p \<Longrightarrow> wb_ok p (write_refusal env ref p)"
  by (auto simp: write_refusal_def intro: write_service_refusal_ok write_annotation_ok wb_ok_refl
      dest: heap_kindsD split: option.split)

lemma writeBack_ok:
  assumes "heap_kinds p"
  shows "wb_ok p (writeBack env p)"
proof -
  have 1: "wb_ok p (writeBackServices env p)"
    unfolding writeBackServices_def by (rule wb_ok_fold [OF writeBackService_ok assms])
  have 2: "wb_ok p (writeBackIngresses env (writeBackServices env p))"
    unfolding writeBackIngresses_def
    by (rule wb_ok_trans [OF 1 wb_ok_fold [OF writeBackIngress_ok wb_ok_heap [OF 1]]])
  have 3: "wb_ok p (writeBackGateways env (writeBackIngresses env (writeBackServices env p)))"
    unfolding writeBackGateways_def
    by (rule wb_ok_trans [OF 2 wb_ok_fold [OF writeBackGateway_ok wb_ok_heap [OF 2]]])
  show ?thesis
    unfolding writeBack_def writeRefusals_def
    by (rule wb_ok_trans [OF 3 wb_ok_fold [OF write_refusal_ok wb_ok_heap [OF 3]]])
qed

lemma ensureGuestFinalizers_ok: "heap_kinds p \<Longrightarrow> wb_ok p (ensureGuestFinalizers env p)"
  unfolding ensureGuestFinalizers_def by (rule wb_ok_fold) (rule ensure_finalizer_ok)

lemma releaseGuestFinalizers_ok: "heap_kinds p \<Longrightarrow> wb_ok p (releaseGuestFinalizers env p)"
  unfolding releaseGuestFinalizers_def by (simp add: wb_ok_refl wb_ok_fold [OF release_finalizer_ok])

section \<open>Release leaves wanted objects alone\<close>

lemma guest_write_or_heap: "ref' \<noteq> ref \<Longrightarrow> p_heap (guest_write_or env req ref x what p) ref' = p_heap p ref'"
  by (simp add: guest_write_or_def guest_write_def Let_def split_beta split: option.split sum.split)

lemma release_finalizer_heap: "ref \<in> set (p_wantFinalizer p) \<or> ref' \<noteq> ref \<Longrightarrow> p_heap (release_finalizer env ref p) ref' = p_heap p ref'"
  by (auto simp: release_finalizer_def Let_def split_beta guest_write_or_heap split: option.split)

lemma release_finalizer_want [simp]: "p_wantFinalizer (release_finalizer env ref p) = p_wantFinalizer p"
  by (simp add: release_finalizer_def guest_write_or_def guest_write_def Let_def split_beta store_def
      split: option.split sum.split)

lemma fold_release_heap:
  "ref \<in> set (p_wantFinalizer p) \<or> ref \<notin> set refs \<Longrightarrow> p_heap (fold (release_finalizer env) refs p) ref = p_heap p ref"
proof (induction refs arbitrary: p)
  case (Cons r refs)
  then have "p_heap (release_finalizer env r p) ref = p_heap p ref" by (intro release_finalizer_heap) auto
  then show ?case using Cons by auto
qed simp

lemma guest_write_or_trace:
  "p_trace (guest_write_or env req ref x what p) = (req x, api env (p_trace p) (req x)) # p_trace p"
  by (simp add: guest_write_or_def guest_write_def Let_def split_beta store_def split: option.split sum.split)

lemma release_finalizer_history: "set (p_trace p) \<subseteq> set (p_trace (release_finalizer env r p))"
  by (auto simp: release_finalizer_def Let_def split_beta guest_write_or_trace split: option.split)

lemma fold_release_history: "set (p_trace p) \<subseteq> set (p_trace (fold (release_finalizer env) refs p))"
proof (induction refs arbitrary: p)
  case (Cons r refs)
  then show ?case using release_finalizer_history [of p env r] by fastforce
qed simp

lemma release_sends:
  assumes "ref \<notin> set (p_wantFinalizer p)" and "p_heap p ref = Some x"
    and "remove_finalizer env GuestFinalizer (om_finalizers (meta_of x)) = (True, fs)" and "ref \<in> set refs"
  shows "\<exists>resp. (GuestUpdate (set_finalizers fs x), resp) \<in> set (p_trace (fold (release_finalizer env) refs p))"
  using assms
proof (induction refs arbitrary: p)
  case (Cons r refs)
  show ?case
  proof (cases "r = ref")
    case True
    let ?w = "guest_write_or env GuestUpdate ref (set_finalizers fs x) (''removing finalizer from guest '' @ guest_name ref) p"
    have "release_finalizer env r p = ?w" using True Cons.prems by (simp add: release_finalizer_def)
    moreover obtain resp where "p_trace ?w = (GuestUpdate (set_finalizers fs x), resp) # p_trace p"
      by (simp add: guest_write_or_trace)
    ultimately have "(GuestUpdate (set_finalizers fs x), resp) \<in> set (p_trace (release_finalizer env r p))" by simp
    then show ?thesis using fold_release_history by (metis fold_simps(2) subsetD)
  next
    case False
    then have "p_heap (release_finalizer env r p) ref = p_heap p ref" by (intro release_finalizer_heap) simp
    then show ?thesis using Cons False by simp
  qed
qed simp

section \<open>Properties\<close>

text \<open>
  A guest Service is told its address is assigned exactly when the host assigned at
  least one and every family of the host Service has one; where an entry is a host name, which
  answers for any family, or the host Service names no families, one entry is enough.
\<close>

theorem address_assigned_iff:
  "cond_status (address_condition host generation) = ''True'' \<longleftrightarrow>
     svc_lbIngress host \<noteq> [] \<and>
     (svc_ipFamilies host = [] \<or> [] \<in> lbi_ip ` set (svc_lbIngress host) \<or>
      set (svc_ipFamilies host) \<subseteq> (familyOf \<circ> lbi_ip) ` set (svc_lbIngress host))"
  by (auto simp: address_condition_def Let_def missingFamilies_def guest_ingress_def filter_empty_conv o_def
      split: if_splits)

text \<open>
  Release spares what is still wanted: the objects in the pass that are to hold the
  finalizer come out as they went in, and after a prune that failed every object does.
\<close>

theorem release_spares_wanted:
  "p_heap (releaseGuestFinalizers env p) |` (if p_pruneFailed p then UNIV else set (p_wantFinalizer p)) =
     p_heap p |` (if p_pruneFailed p then UNIV else set (p_wantFinalizer p))"
  by (rule ext) (simp add: releaseGuestFinalizers_def restrict_map_def fold_release_heap)

text \<open>
  Claim C36. Release reaches everything else: after a clean prune, every object seen with the
  finalizer that is not wanted any more is sent back to the guest without it, whatever became of
  the requests before it.
\<close>

theorem release_reaches_unwanted:
  assumes "\<not> p_pruneFailed p" and "ref \<in> set (p_seenFinalizer p)" and "ref \<notin> set (p_wantFinalizer p)"
    and "p_heap p ref = Some x"
    and "remove_finalizer env GuestFinalizer (om_finalizers (meta_of x)) = (True, fs)"
  shows "\<exists>resp. (GuestUpdate (set_finalizers fs x), resp) \<in> set (p_trace (releaseGuestFinalizers env p))"
  using release_sends [OF assms(3-5,2)] assms(1) by (simp add: releaseGuestFinalizers_def)

theorem release_reaches_unwanted_witness:
  "let ref = (KService, ''shop'', ''web'');
       svc = (ex_service ''web'')\<lparr>svc_meta := (ex_meta ''web'')\<lparr>om_finalizers := [''keep'', GuestFinalizer]\<rparr>\<rparr>;
       p = ex_pass\<lparr>p_heap := [ref \<mapsto> OService svc], p_seenFinalizer := [ref]\<rparr>
   in \<exists>resp. (GuestUpdate (set_finalizers [''keep''] (OService svc)), resp)
        \<in> set (p_trace (releaseGuestFinalizers (ex_env (\<lambda>_ _. ROk)) p))"
proof -
  let ?ref = "(KService, ''shop'', ''web'')"
  let ?svc = "(ex_service ''web'')\<lparr>svc_meta := (ex_meta ''web'')\<lparr>om_finalizers := [''keep'', GuestFinalizer]\<rparr>\<rparr>"
  let ?p = "ex_pass\<lparr>p_heap := [?ref \<mapsto> OService ?svc], p_seenFinalizer := [?ref]\<rparr>"
  have "''keep'' \<noteq> GuestFinalizer" by (simp add: GuestFinalizer_def)
  then have "remove_finalizer (ex_env (\<lambda>_ _. ROk)) GuestFinalizer (om_finalizers (meta_of (OService ?svc))) =
      (True, [''keep''])" by auto
  then show ?thesis
    using release_reaches_unwanted [of ?p ?ref "OService ?svc" "ex_env (\<lambda>_ _. ROk)" "[''keep'']"]
    by (simp add: ex_pass_def newPass_def Let_def)
qed

text \<open>
  A host read that fails erases an address that is still there: when the read of the
  host Service before its update fails for another reason than absence, the desired object, which
  has no address, stays in the pass, and write-back overwrites the guest Service's addresses with
  none in the same pass, although the host Service still holds them.
\<close>

theorem failed_read_erases_address:
  assumes "map_of (p_services p) n = Some want" and "om_name (svc_meta want) = n" and "svc_lbIngress want = []"
    and "api env (p_trace p) (HostGet KService (om_namespace (svc_meta want)) n) = RErr e" and "\<not> IsNotFound e"
    and "p_heap p ref = Some (OService g)" and "svc_lbIngress g \<noteq> []"
  shows "\<exists>g' resp. svc_meta g' = svc_meta g \<and> svc_lbIngress g' = [] \<and>
     p_trace (writeBackService env (ref, n) (applyService env want p)) =
       (GuestStatusUpdate (OService g'), resp) # p_trace (applyService env want p)"
proof -
  let ?q = "applyService env want p"
  have "p_services ?q = p_services p \<and> p_heap ?q = p_heap p"
    using assms(2,4,5)
    by (simp add: applyService_def apply_step_def Let_def split_beta applyProblem_def split: option.split)
  then have q: "map_of (p_services ?q) n = Some want" "heap_as to_service ?q ref = Some g"
    using assms(1,6) by (simp_all add: heap_as_def)
  show ?thesis
    using q assms(3,7)
    by (auto simp: writeBackService_def Let_def split_beta guest_ingress_def guest_write_or_trace intro!: exI)
qed

theorem failed_read_erases_address_witness:
  "let n = ''t-shop-web''; ref = (KService, ''shop'', ''web'');
       want = (ex_service n)\<lparr>svc_meta := (ex_meta n)\<lparr>om_namespace := ''host-t''\<rparr>\<rparr>;
       g = (ex_service ''web'')\<lparr>svc_lbIngress := [\<lparr>lbi_ip = ''192.0.2.7'', lbi_hostname = [], lbi_rest = []\<rparr>]\<rparr>;
       p = ex_pass\<lparr>p_services := [(n, want)], p_heap := [ref \<mapsto> OService g]\<rparr>;
       env = ex_env (\<lambda>_ _. RErr (OtherError ''timeout''))
   in \<exists>g' resp. svc_meta g' = svc_meta g \<and> svc_lbIngress g' = [] \<and>
     p_trace (writeBackService env (ref, n) (applyService env want p)) =
       (GuestStatusUpdate (OService g'), resp) # p_trace (applyService env want p)"
proof -
  let ?n = "''t-shop-web''" and ?ref = "(KService, ''shop'', ''web'')"
  let ?want = "(ex_service ?n)\<lparr>svc_meta := (ex_meta ?n)\<lparr>om_namespace := ''host-t''\<rparr>\<rparr>"
  let ?g = "(ex_service ''web'')\<lparr>svc_lbIngress := [\<lparr>lbi_ip = ''192.0.2.7'', lbi_hostname = [], lbi_rest = []\<rparr>]\<rparr>"
  let ?p = "ex_pass\<lparr>p_services := [(?n, ?want)], p_heap := [?ref \<mapsto> OService ?g]\<rparr>"
  have w: "om_name (svc_meta ?want) = ?n" "svc_lbIngress ?want = []" by (simp_all add: ex_meta_def ex_service_def)
  show ?thesis
    using failed_read_erases_address [of ?p ?n ?want "ex_env (\<lambda>_ _. RErr (OtherError ''timeout''))"
        "OtherError ''timeout''" ?ref ?g] w
    unfolding Let_def by simp
qed

end
