(* ===== verification/StorageMap.thy ===== *)
theory StorageMap
  imports Examples
begin

text \<open>
  The pure half of the storage syncer, internal/syncer/storage.go: the StorageClass mirrored into
  a guest, the host PVC and the guest PV of a guest PVC, and the objects of the guest node plugin.
\<close>

section \<open>Constants\<close>

definition DriverName :: string where "DriverName = ''csi.vcluster.the-it-dept.io''"
definition LabelTenantOfferable :: string where
  "LabelTenantOfferable = ''vcluster.the-it-dept.io/tenant-offerable''"
definition GuestCSINamespace :: string where "GuestCSINamespace = ''vcluster-csi''"
definition GuestCSIDaemonSet :: string where "GuestCSIDaemonSet = ''vcluster-csi-node''"
definition selectedNodeAnnotation :: string where
  "selectedNodeAnnotation = ''volume.kubernetes.io/selected-node''"
definition provisionedByAnnotation :: string where
  "provisionedByAnnotation = ''pv.kubernetes.io/provisioned-by''"
definition isDefaultClassAnnotation :: string where
  "isDefaultClassAnnotation = ''storageclass.kubernetes.io/is-default-class''"
definition ReadWriteOnce :: string where "ReadWriteOnce = ''ReadWriteOnce''"
definition ModeFilesystem :: string where "ModeFilesystem = ''Filesystem''"
definition ModeBlock :: string where "ModeBlock = ''Block''"
definition WaitForFirstConsumer :: string where "WaitForFirstConsumer = ''WaitForFirstConsumer''"
definition ReclaimDelete :: string where "ReclaimDelete = ''Delete''"
definition ReclaimRetain :: string where "ReclaimRetain = ''Retain''"

definition managed_labels :: strmap where
  "managed_labels = [ManagedByLabel \<mapsto> ManagedByValue]"

section \<open>StorageClasses\<close>

definition mirrorStorageClass :: "storage_class \<Rightarrow> storage_class" where
  "mirrorStorageClass hostSC = \<lparr>
     sc_meta = no_meta\<lparr>om_name := om_name (sc_meta hostSC), om_labels := managed_labels,
       om_annotations := (case om_annotations (sc_meta hostSC) isDefaultClassAnnotation of
         None \<Rightarrow> Map.empty | Some v \<Rightarrow> [isDefaultClassAnnotation \<mapsto> v])\<rparr>,
     sc_provisioner = DriverName, sc_bindingMode = Some WaitForFirstConsumer,
     sc_reclaim = Some ReclaimDelete, sc_parameters = []\<rparr>"

definition scEqual :: "storage_class \<Rightarrow> storage_class \<Rightarrow> bool" where
  "scEqual have want \<longleftrightarrow>
     sc_provisioner have = sc_provisioner want \<and> sc_bindingMode have = sc_bindingMode want \<and>
     sc_reclaim have = sc_reclaim want \<and> sc_parameters have = sc_parameters want \<and>
     at (om_annotations (sc_meta have)) isDefaultClassAnnotation =
       at (om_annotations (sc_meta want)) isDefaultClassAnnotation"

section \<open>Volumes\<close>

definition msg_access_mode :: "string \<Rightarrow> string" where
  "msg_access_mode m = ''access mode '' @ m @ '' is not supported: the volume is a block device attached '' @
     ''to one VM at a time (it moves with the workload, but two nodes cannot share it); only ReadWriteOnce''"

definition msg_volume_mode :: "string \<Rightarrow> string" where
  "msg_volume_mode m = ''volumeMode '' @ m @ '' is not supported; only Filesystem''"

definition msg_no_request :: string where
  "msg_no_request = ''no storage request; nothing to provision''"

definition host_pvc :: "tenant_cluster \<Rightarrow> pvc \<Rightarrow> string \<Rightarrow> int \<Rightarrow> pvc" where
  "host_pvc tc guest hostClass req = \<lparr>
     pvc_meta = no_meta\<lparr>om_name := HostPVCName tc (om_uid (pvc_meta guest)),
       om_namespace := host_ns tc, om_labels := ownershipLabels tc (pvc_meta guest)\<rparr>,
     pvc_accessModes = [ReadWriteOnce], pvc_volumeMode = Some ModeBlock, pvc_storage = Some req,
     pvc_class = Some hostClass, pvc_volumeName = [], pvc_rest = []\<rparr>"

definition mapPVC :: "tenant_cluster \<Rightarrow> pvc \<Rightarrow> string \<Rightarrow> string + pvc" where
  "mapPVC tc guest hostClass =
     (let request =
            (case pvc_storage guest of
               None \<Rightarrow> Inl msg_no_request
             | Some req \<Rightarrow> if req = 0 then Inl msg_no_request else Inr (host_pvc tc guest hostClass req))
      in case find (\<lambda>m. m \<noteq> ReadWriteOnce) (pvc_accessModes guest) of
           Some m \<Rightarrow> Inl (msg_access_mode m)
         | None \<Rightarrow>
             (case pvc_volumeMode guest of
                None \<Rightarrow> request
              | Some vm \<Rightarrow> if vm \<noteq> ModeFilesystem then Inl (msg_volume_mode vm) else request))"

definition pv_name :: "pvc \<Rightarrow> string" where
  "pv_name guest = ''pvc-'' @ om_uid (pvc_meta guest)"

definition guestPVForClaim :: "pvc \<Rightarrow> string \<Rightarrow> string \<Rightarrow> pv" where
  "guestPVForClaim guest hostPVCName storageClassName = \<lparr>
     pv_meta = no_meta\<lparr>om_name := pv_name guest, om_labels := managed_labels,
       om_annotations := [provisionedByAnnotation \<mapsto> DriverName]\<rparr>,
     pv_accessModes = [ReadWriteOnce],
     pv_capacity = Some (case pvc_storage guest of None \<Rightarrow> 0 | Some q \<Rightarrow> q),
     pv_reclaim = ReclaimRetain, pv_class = storageClassName,
     pv_claimRef = Some \<lparr>cr_kind = ''PersistentVolumeClaim'', cr_namespace = om_namespace (pvc_meta guest),
       cr_name = om_name (pvc_meta guest), cr_uid = om_uid (pvc_meta guest)\<rparr>,
     pv_csi = Some \<lparr>csi_driver = DriverName, csi_handle = hostPVCName, csi_fsType = ''ext4'',
       csi_attributes = [''serial'' \<mapsto> SerialFor hostPVCName]\<rparr>,
     pv_nodeAffinity = None\<rparr>"

section \<open>The node plugin\<close>

definition guestCSIDriver :: csi_driver where
  "guestCSIDriver = \<lparr>
     cd_meta = no_meta\<lparr>om_name := DriverName, om_labels := managed_labels\<rparr>,
     cd_attachRequired = Some True, cd_podInfoOnMount = Some False, cd_storageCapacity = Some False,
     cd_fsGroupPolicy = Some ''File'', cd_lifecycleModes = [''Persistent'']\<rparr>"

definition plugin_labels :: strmap where
  "plugin_labels = [ManagedByLabel \<mapsto> ManagedByValue, ''app'' \<mapsto> GuestCSIDaemonSet]"

definition plugin_namespace :: plain_object where
  "plugin_namespace = \<lparr>po_meta = no_meta\<lparr>om_name := GuestCSINamespace, om_labels := managed_labels\<rparr>,
     po_rest = []\<rparr>"

definition plugin_account :: service_account where
  "plugin_account = \<lparr>sa_meta = no_meta\<lparr>om_name := GuestCSIDaemonSet, om_namespace := GuestCSINamespace,
     om_labels := managed_labels\<rparr>, sa_automount = Some False\<rparr>"

definition mount :: "string \<Rightarrow> string \<Rightarrow> volume_mount" where
  "mount n path = \<lparr>vmt_name = n, vmt_path = path, vmt_propagation = None\<rparr>"

definition host_dir :: "string \<Rightarrow> string \<Rightarrow> string \<Rightarrow> host_path_volume" where
  "host_dir n path t = \<lparr>hv_name = n, hv_path = path, hv_type = t\<rparr>"

definition node_container :: "node_plugin_images \<Rightarrow> container" where
  "node_container images = \<lparr>ct_name = ''csi-node'', ct_image = img_Node images,
     ct_args = [''csi-node'', ''--endpoint=unix:///csi/csi.sock''],
     ct_fieldEnv = [(''KUBE_NODE_NAME'', ''spec.nodeName'')], ct_privileged = True,
     ct_mounts = [mount ''plugin-dir'' ''/csi'',
       (mount ''kubelet-dir'' ''/var/lib/kubelet'')\<lparr>vmt_propagation := Some ''Bidirectional''\<rparr>,
       mount ''dev'' ''/dev'']\<rparr>"

definition registrar_container :: "node_plugin_images \<Rightarrow> container" where
  "registrar_container images = \<lparr>ct_name = ''registrar'', ct_image = img_Registrar images,
     ct_args = [''--csi-address=/csi/csi.sock'',
       ''--kubelet-registration-path=/var/lib/kubelet/plugins/'' @ DriverName @ ''/csi.sock''],
     ct_fieldEnv = [], ct_privileged = False,
     ct_mounts = [mount ''plugin-dir'' ''/csi'', mount ''registration-dir'' ''/registration'']\<rparr>"

definition plugin_pod :: "node_plugin_images \<Rightarrow> pod_spec" where
  "plugin_pod images = \<lparr>ps_serviceAccount = GuestCSIDaemonSet, ps_automount = Some False,
     ps_priorityClass = ''system-node-critical'', ps_tolerateAll = True,
     ps_containers = [node_container images, registrar_container images],
     ps_hostPathVolumes = [
       host_dir ''plugin-dir'' (''/var/lib/kubelet/plugins/'' @ DriverName) ''DirectoryOrCreate'',
       host_dir ''registration-dir'' ''/var/lib/kubelet/plugins_registry'' ''Directory'',
       host_dir ''kubelet-dir'' ''/var/lib/kubelet'' ''Directory'',
       host_dir ''dev'' ''/dev'' ''Directory''],
     ps_otherVolumes = []\<rparr>"

definition plugin_daemon_set :: "node_plugin_images \<Rightarrow> daemon_set" where
  "plugin_daemon_set images = \<lparr>
     ds_meta = no_meta\<lparr>om_name := GuestCSIDaemonSet, om_namespace := GuestCSINamespace,
       om_labels := plugin_labels\<rparr>,
     ds_selector = [''app'' \<mapsto> GuestCSIDaemonSet], ds_podLabels = plugin_labels,
     ds_pod = plugin_pod images\<rparr>"

definition guestNodePlugin :: "node_plugin_images \<Rightarrow> plain_object \<times> service_account \<times> daemon_set" where
  "guestNodePlugin images = (plugin_namespace, plugin_account, plugin_daemon_set images)"

section \<open>The host PVC\<close>

lemma mapPVC_Inr:
  "mapPVC tc guest c = Inr h \<longleftrightarrow>
     set (pvc_accessModes guest) \<subseteq> {ReadWriteOnce} \<and> pvc_volumeMode guest \<in> {None, Some ModeFilesystem} \<and>
     pvc_storage guest \<notin> {None, Some 0} \<and> h = host_pvc tc guest c (the (pvc_storage guest))"
proof (cases "find (\<lambda>m. m \<noteq> ReadWriteOnce) (pvc_accessModes guest)")
  case None
  then have "set (pvc_accessModes guest) \<subseteq> {ReadWriteOnce}" by (auto simp: find_None_iff)
  then show ?thesis
    using None by (auto simp: mapPVC_def Let_def split: option.splits if_splits)
next
  case (Some m)
  then have "m \<in> set (pvc_accessModes guest)" "m \<noteq> ReadWriteOnce" using find_in_set by fastforce+
  then show ?thesis using Some by (auto simp: mapPVC_def Let_def)
qed

lemma host_pvc_iff:
  "h = host_pvc tc guest c req \<longleftrightarrow>
     pvc_meta h = no_meta\<lparr>om_name := sanitizeName (tc_name tc @ ''-pvc-'' @ om_uid (pvc_meta guest)),
       om_namespace := host_ns tc, om_labels := ownershipLabels tc (pvc_meta guest)\<rparr> \<and>
     pvc_accessModes h = [''ReadWriteOnce''] \<and> pvc_volumeMode h = Some ''Block'' \<and>
     pvc_storage h = Some req \<and> pvc_class h = Some c \<and> pvc_volumeName h = [] \<and> pvc_rest h = []"
  by (cases h) (auto simp: host_pvc_def HostPVCName_def ReadWriteOnce_def ModeBlock_def)

section \<open>Properties\<close>

text \<open>
  Claim C37. A guest PVC is provisioned exactly if it asks for ReadWriteOnce only, for a
  filesystem (or says nothing), and for an amount that is not zero; the host PVC is then, field by
  field, a raw block ReadWriteOnce PVC of that amount and of the host class, bound to no volume, in
  the tenant's namespace, with the ownership labels and no other metadata, under a name made of
  the tenant's name and the guest PVC's UID.
\<close>

theorem mapPVC_iff:
  "mapPVC tc guest c = Inr h \<longleftrightarrow>
     set (pvc_accessModes guest) \<subseteq> {ReadWriteOnce} \<and> pvc_volumeMode guest \<in> {None, Some ModeFilesystem} \<and>
     pvc_storage guest \<notin> {None, Some 0} \<and>
     pvc_meta h = no_meta\<lparr>om_name := sanitizeName (tc_name tc @ ''-pvc-'' @ om_uid (pvc_meta guest)),
       om_namespace := host_ns tc, om_labels := ownershipLabels tc (pvc_meta guest)\<rparr> \<and>
     pvc_accessModes h = [''ReadWriteOnce''] \<and> pvc_volumeMode h = Some ''Block'' \<and>
     pvc_storage h = pvc_storage guest \<and> pvc_class h = Some c \<and>
     pvc_volumeName h = [] \<and> pvc_rest h = []"
  unfolding mapPVC_Inr host_pvc_iff by (cases "pvc_storage guest") auto

text \<open>
  The node plugin carries no credential: its ServiceAccount and its pods mount no token,
  it has no volume but four directories of the node, every mount is one of these, the only
  environment entry is the node's name, and only the CSI container is privileged.
\<close>

theorem node_plugin_no_credentials:
  "case guestNodePlugin images of (ns, account, ds) \<Rightarrow>
     sa_automount account = Some False \<and> ps_automount (ds_pod ds) = Some False \<and>
     om_name (sa_meta account) = ps_serviceAccount (ds_pod ds) \<and>
     om_namespace (sa_meta account) = om_name (po_meta ns) \<and>
     ps_otherVolumes (ds_pod ds) = [] \<and>
     hv_path ` set (ps_hostPathVolumes (ds_pod ds)) =
       {''/var/lib/kubelet/plugins/'' @ DriverName, ''/var/lib/kubelet/plugins_registry'', ''/var/lib/kubelet'', ''/dev''} \<and>
     vmt_name ` \<Union> (set ` ct_mounts ` set (ps_containers (ds_pod ds))) \<subseteq> hv_name ` set (ps_hostPathVolumes (ds_pod ds)) \<and>
     \<Union> (set ` ct_fieldEnv ` set (ps_containers (ds_pod ds))) = {(''KUBE_NODE_NAME'', ''spec.nodeName'')} \<and>
     filter ct_privileged (ps_containers (ds_pod ds)) = [node_container images]"
  by (simp add: guestNodePlugin_def plugin_account_def plugin_daemon_set_def plugin_pod_def plugin_namespace_def
      node_container_def registrar_container_def host_dir_def mount_def)

section \<open>Host PVC names\<close>

text \<open>UIDs as the API server makes them: label characters, not ending in a dash.\<close>

definition uid_like :: "string \<Rightarrow> bool" where
  "uid_like u \<longleftrightarrow> u \<noteq> [] \<and> list_all (\<lambda>c. is_lower c \<or> is_digit c \<or> c = CHR ''-'') u \<and> last u \<noteq> CHR ''-''"

lemma sanitize_label_id: "list_all (\<lambda>c. is_lower c \<or> is_digit c \<or> c = CHR ''-'') s \<Longrightarrow> map sanitize_char (to_lower s) = s"
proof (induction s)
  case (Cons c s)
  have "\<not> is_upper c" if "is_lower c \<or> is_digit c \<or> c = CHR ''-''"
    using that by (auto simp: is_lower_def is_upper_def is_digit_def Let_def)
  then show ?case using Cons by (simp add: to_lower_def sanitize_char_def lower_char_def)
qed (simp add: to_lower_def)

lemma trim_char_id: "s \<noteq> [] \<Longrightarrow> hd s \<noteq> c \<Longrightarrow> last s \<noteq> c \<Longrightarrow> trim_char c s = s"
proof -
  assume s: "s \<noteq> []" "hd s \<noteq> c" "last s \<noteq> c"
  have "dropWhile (\<lambda>d. d = c) s = s" using s(1,2) by (cases s) auto
  moreover have "dropWhile (\<lambda>d. d = c) (rev s) = rev s" using s(1,3) by (cases s rule: rev_cases) auto
  ultimately show ?thesis by (simp add: trim_char_def trim_left_def trim_right_def)
qed

lemma HostPVCName_plain:
  assumes "uid_like u" and "uid_like (tc_name tc)" and "hd (tc_name tc) \<noteq> CHR ''-''"
  shows "HostPVCName tc u = tc_name tc @ ''-pvc-'' @ u"
proof -
  let ?s = "tc_name tc @ ''-pvc-'' @ u"
  have "list_all (\<lambda>c. is_lower c \<or> is_digit c \<or> c = CHR ''-'') ''-pvc-''" by code_simp
  then have "list_all (\<lambda>c. is_lower c \<or> is_digit c \<or> c = CHR ''-'') ?s"
    using assms(1,2) by (simp only: uid_like_def list_all_append)
  then have m: "map sanitize_char (to_lower ?s) = ?s" by (rule sanitize_label_id)
  have "?s \<noteq> []" "hd ?s \<noteq> CHR ''-''" "last ?s \<noteq> CHR ''-''" using assms by (simp_all add: uid_like_def)
  then show ?thesis unfolding HostPVCName_def sanitizeName_def m by (rule trim_char_id)
qed

text \<open>
  Host PVC names keep volumes apart: for a tenant whose name is a DNS label, the host
  PVCs of two guest PVCs have the same name only if the guest PVCs have the same UID, so a PVC
  recreated under its old name never adopts the old disk.
\<close>

theorem HostPVCName_injective:
  assumes "uid_like u" and "uid_like v" and "uid_like (tc_name tc)" and "hd (tc_name tc) \<noteq> CHR ''-''"
  shows "HostPVCName tc u = HostPVCName tc v \<longleftrightarrow> u = v"
  using HostPVCName_plain [OF assms(1,3,4)] HostPVCName_plain [OF assms(2,3,4)] by simp

theorem HostPVCName_injective_witness:
  "HostPVCName ex_tc ''u1-a'' \<noteq> HostPVCName ex_tc ''u1-b''"
proof -
  have "uid_like ''u1-a'' \<and> uid_like ''u1-b'' \<and> uid_like ''t''" by code_simp
  moreover have "tc_name ex_tc = ''t''" by (simp add: ex_tc_def)
  ultimately show ?thesis using HostPVCName_injective [of "''u1-a''" "''u1-b''" ex_tc] by simp
qed

end
