(* ===== verification/StoragePass.thy ===== *)
theory StoragePass
  imports WriteBack StorageMap
begin

text \<open>
  The storage slice of a pass, internal/syncer/storage_pass.go: gather on both sides, provision,
  attach and move, the ordered teardown (unplug first, delete second), and the status write-back.
\<close>

section \<open>Gather\<close>

definition storageProblem :: "string \<Rightarrow> api_error \<Rightarrow> pass \<Rightarrow> pass" where
  "storageProblem what e p = problem (what @ '': '' @ err_text e) (p\<lparr>p_pruneFailed := True\<rparr>)"

definition upd_storage :: "(storage_state \<Rightarrow> storage_state) \<Rightarrow> pass \<Rightarrow> pass" where
  "upd_storage f p = p\<lparr>p_storage := map_option f (p_storage p)\<rparr>"

definition empty_storage :: storage_state where
  "empty_storage = \<lparr>st_offerable = [], st_guestSCs = [], st_guestPVs = [], st_pvcUIDs = [],
     st_provisionable = [], st_deleting = [], st_attachments = [], st_hostPVCs = [], st_vms = [],
     st_vaStatus = [], st_pluginWanted = False\<rparr>"

text \<open>One guest PVC of the listing; the state under construction is already in the pass.\<close>

definition gather_pvc :: "env \<Rightarrow> pvc \<Rightarrow> pass \<Rightarrow> pass" where
  "gather_pvc env pvc p =
     (let ref = ref_of KPVC (pvc_meta pvc);
          p = upd_storage (\<lambda>st. st\<lparr>st_pvcUIDs := add_key (om_uid (pvc_meta pvc)) (st_pvcUIDs st)\<rparr>) p;
          p = observe (OPVC pvc) p
      in if om_deleting (pvc_meta pvc) then
           if contains_finalizer env GuestFinalizer (om_finalizers (pvc_meta pvc))
           then upd_storage (\<lambda>st. st\<lparr>st_deleting := st_deleting st @ [ref]\<rparr>) p else p
         else case pvc_class pvc of
           None \<Rightarrow> p
         | Some c \<Rightarrow>
             if c \<notin> (case p_storage p of None \<Rightarrow> {} | Some st \<Rightarrow> keys (st_offerable st)) then p
             else
               let p = inScope ref (\<lambda>n. n\<lparr>n_pvcs := n_pvcs n + 1\<rparr>) p
               in case mapPVC (p_tc p) pvc c of
                    Inl refusal \<Rightarrow> refuse ref refusal p
                  | Inr _ \<Rightarrow> wantFinalizer ref
                      (upd_storage (\<lambda>st. st\<lparr>st_provisionable := st_provisionable st @ [ref]\<rparr>) p))"

definition plugin_wanted :: "storage_state \<Rightarrow> storage_state" where
  "plugin_wanted st = st\<lparr>st_pluginWanted := (st_offerable st \<noteq> [] \<or> st_guestPVs st \<noteq> [])\<rparr>"

text \<open>The host half: a failure disables the storage slice of this pass and blocks the release.\<close>

definition gather_storage_host ::
  "env \<Rightarrow> pvc list \<Rightarrow> pv list \<Rightarrow> storage_class list \<Rightarrow> volume_attachment list \<Rightarrow> pass \<Rightarrow> pass" where
  "gather_storage_host env pvcs pvs scs vas p =
     (let ns = host_ns (p_tc p);
          (resp, p) = call env (HostList KStorageClass [] [(LabelTenantOfferable, ''true'')]) p
      in case decode_list to_storage_class resp of
           Inl e \<Rightarrow> storageProblem ''listing tenant-offerable host StorageClasses'' e p
         | Inr hostSCs \<Rightarrow>
             let (resp, p) = call env (HostList KPVC ns (tenantSelector (p_tc p))) p
             in case decode_list to_pvc resp of
                  Inl e \<Rightarrow> storageProblem ''listing host PVCs'' e p
                | Inr hostPVCs \<Rightarrow>
                    let (resp, p) = call env (VMs ns) p
                    in case decode_vms resp of
                         Inl e \<Rightarrow> storageProblem ''listing VMs for hotplug state'' e p
                       | Inr vms \<Rightarrow>
                           let st = empty_storage\<lparr>
                                 st_guestPVs := fold (\<lambda>x m. put (om_name (pv_meta x)) x m) pvs [],
                                 st_guestSCs := scs,
                                 st_attachments := filter (\<lambda>va. va_attacher va = DriverName) vas,
                                 st_offerable := fold (\<lambda>x m. put (om_name (sc_meta x)) x m) hostSCs [],
                                 st_hostPVCs := hostPVCs, st_vms := vms\<rparr>
                           in upd_storage plugin_wanted
                                (fold (gather_pvc env) pvcs (p\<lparr>p_storage := Some st\<rparr>)))"

definition gatherStorage :: "env \<Rightarrow> pass \<Rightarrow> api_error option \<times> pass" where
  "gatherStorage env p =
     (if \<not> SyncStorage (p_tc p) then (None, p)
      else if \<not> p_hot p then
        (None, problem ''storage sync enabled but no hotplug client configured'' p)
      else
        let (resp, p) = call env (GuestList KPVC []) p
        in case decode_list to_pvc resp of
             Inl e \<Rightarrow> (Some e, p)
           | Inr pvcs \<Rightarrow>
               let (resp, p) = call env (GuestList KPV managedSelector) p
               in case decode_list to_pv resp of
                    Inl e \<Rightarrow> (Some e, p)
                  | Inr pvs \<Rightarrow>
                      let (resp, p) = call env (GuestList KStorageClass managedSelector) p
                      in case decode_list to_storage_class resp of
                           Inl e \<Rightarrow> (Some e, p)
                         | Inr scs \<Rightarrow>
                             let (resp, p) = call env (GuestList KVolumeAttachment []) p
                             in case decode_list to_attachment resp of
                                  Inl e \<Rightarrow> (Some e, p)
                                | Inr vas \<Rightarrow> (None, gather_storage_host env pvcs pvs scs vas p))"

section \<open>Apply\<close>

text \<open>A guest write whose error is a line of \<open>problems\<close>, unless it is one the code tolerates.\<close>

definition guest_call_or :: "env \<Rightarrow> request \<Rightarrow> (api_error \<Rightarrow> bool) \<Rightarrow> string \<Rightarrow> pass \<Rightarrow> bool \<times> pass" where
  "guest_call_or env r tolerated what p =
     (let (resp, p) = call env r p
      in case write_error resp of
           None \<Rightarrow> (True, p)
         | Some e \<Rightarrow> if tolerated e then (True, p) else (False, problem (what @ '': '' @ err_text e) p))"

definition find_hostPVC :: "storage_state \<Rightarrow> string \<Rightarrow> pvc option" where
  "find_hostPVC st name = find (\<lambda>x. om_name (pvc_meta x) = name) (st_hostPVCs st)"

text \<open>The host PVC of a guest PVC; the flag says whether the guest PV is to follow.\<close>

definition provision_host :: "env \<Rightarrow> pvc \<Rightarrow> string \<Rightarrow> pass \<Rightarrow> bool \<times> pass" where
  "provision_host env guestPVC hostName p =
     (if at (om_annotations (pvc_meta guestPVC)) selectedNodeAnnotation = [] \<and> pvc_volumeName guestPVC = []
      then (False, p)
      else case pvc_class guestPVC of
        None \<Rightarrow> (False, p)
      | Some c \<Rightarrow>
          (case mapPVC (p_tc p) guestPVC c of
             Inl refusal \<Rightarrow> (False, p)
           | Inr want \<Rightarrow>
               let (resp, p) = call env (HostGet KPVC (host_ns (p_tc p)) hostName) p
               in case decode_with to_pvc resp of
                    Inl e \<Rightarrow>
                      if IsNotFound e then
                        let (resp, p) = call env (HostCreate (OPVC want)) p
                        in case write_error resp of
                             None \<Rightarrow> (True, p)
                           | Some e \<Rightarrow> (False, storageProblem (''creating host PVC '' @ quote hostName) e p)
                      else (False, storageProblem (''checking host PVC '' @ quote hostName) e p)
                  | Inr have \<Rightarrow> mayTouch (OPVC have) p))"

definition provision_pv :: "env \<Rightarrow> pvc \<Rightarrow> string \<Rightarrow> storage_state \<Rightarrow> pass \<Rightarrow> pass" where
  "provision_pv env guestPVC hostName st p =
     (if pv_name guestPVC \<in> keys (st_guestPVs st) then p
      else case pvc_class guestPVC of
        None \<Rightarrow> p
      | Some c \<Rightarrow>
          let pv = guestPVForClaim guestPVC hostName c;
              (resp, p) = call env (GuestCreate (OPV pv)) p;
              add = (\<lambda>x. upd_storage (\<lambda>st. st\<lparr>st_guestPVs := put (pv_name guestPVC) x (st_guestPVs st)\<rparr>))
          in case decode_write to_pv pv resp of
               Inr created \<Rightarrow> add created p
             | Inl e \<Rightarrow> if IsAlreadyExists e then add pv p
                 else problem (''creating guest PV '' @ quote (pv_name guestPVC) @ '': '' @ err_text e) p)"

definition provisionPVC :: "env \<Rightarrow> guest_ref \<Rightarrow> pass \<Rightarrow> pass" where
  "provisionPVC env ref p =
     (case (p_storage p, heap_as to_pvc p ref) of
        (Some st, Some guestPVC) \<Rightarrow>
          let hostName = HostPVCName (p_tc p) (om_uid (pvc_meta guestPVC));
              (go, p) = (if find_hostPVC st hostName = None
                         then provision_host env guestPVC hostName p else (True, p))
          in if go then provision_pv env guestPVC hostName st p else p
      | _ \<Rightarrow> p)"

text \<open>An attachment of the listing, changed in place.\<close>

definition set_attachment :: "nat \<Rightarrow> volume_attachment \<Rightarrow> pass \<Rightarrow> pass" where
  "set_attachment i va = upd_storage (\<lambda>st. st\<lparr>st_attachments := (st_attachments st)[i := va]\<rparr>)"

definition va_finalizers :: "string list \<Rightarrow> volume_attachment \<Rightarrow> volume_attachment" where
  "va_finalizers fs va = va\<lparr>va_meta := (va_meta va)\<lparr>om_finalizers := fs\<rparr>\<rparr>"

text \<open>\<open>p.guest.Update(ctx, va)\<close>; the flag says whether it succeeded.\<close>

definition update_attachment ::
  "env \<Rightarrow> nat \<Rightarrow> volume_attachment \<Rightarrow> string \<Rightarrow> pass \<Rightarrow> bool \<times> pass" where
  "update_attachment env i va what p =
     (let (resp, p) = call env (GuestUpdate (OVolumeAttachment va)) (set_attachment i va p)
      in case decode_write to_attachment va resp of
           Inr y \<Rightarrow> (True, set_attachment i y p)
         | Inl e \<Rightarrow> (False, problem (what @ '' guest VolumeAttachment '' @ om_name (va_meta va) @ '': '' @ err_text e) p))"

definition release_attachment :: "env \<Rightarrow> nat \<Rightarrow> volume_attachment \<Rightarrow> string \<Rightarrow> pass \<Rightarrow> pass" where
  "release_attachment env i va what p =
     (let (changed, fs) = remove_finalizer env GuestFinalizer (om_finalizers (va_meta va))
      in if changed then snd (update_attachment env i (va_finalizers fs va) what p) else p)"

definition no_volume :: volume_state where
  "no_volume = \<lparr>InSpec = False, Phase = [], Claim = []\<rparr>"

definition Ready :: string where "Ready = ''Ready''"

definition add_vaStatus :: "va_status_write \<Rightarrow> pass \<Rightarrow> pass" where
  "add_vaStatus w = upd_storage (\<lambda>st. st\<lparr>st_vaStatus := st_vaStatus st @ [w]\<rparr>)"

text \<open>A deleting attachment of a volume of this pass.\<close>

definition detach :: "env \<Rightarrow> nat \<Rightarrow> volume_attachment \<Rightarrow> string \<Rightarrow> storage_state \<Rightarrow> pass \<Rightarrow> pass" where
  "detach env i va volName st p =
     (let vmName = va_node va in
      case map_of (st_vms st) vmName of
        None \<Rightarrow> release_attachment env i va ''releasing'' p
      | Some vols \<Rightarrow>
          (case map_of vols volName of
             None \<Rightarrow> release_attachment env i va ''releasing'' p
           | Some vol \<Rightarrow>
               if InSpec vol then
                 let (resp, p) = call env (RemoveVolume (host_ns (p_tc p)) vmName volName) p
                 in case write_error resp of
                      None \<Rightarrow> p
                    | Some e \<Rightarrow> storageProblem (''unplugging volume '' @ volName @ '' from VM '' @ vmName) e p
               else p))"

text \<open>The node an attachment names after the update that pinned it.\<close>

definition node_now :: "nat \<Rightarrow> string \<Rightarrow> pass \<Rightarrow> string" where
  "node_now i vmName p =
     (case p_storage p of None \<Rightarrow> vmName | Some st \<Rightarrow> va_node (st_attachments st ! i))"

text \<open>An active attachment, already pinned by our finalizer.\<close>

definition attach :: "env \<Rightarrow> nat \<Rightarrow> string \<Rightarrow> string \<Rightarrow> storage_state \<Rightarrow> pass \<Rightarrow> pass" where
  "attach env i vmName hostPVC st p =
     (let volName = VolumeName hostPVC; serial = SerialFor hostPVC in
      case map_of (st_vms st) vmName of
        None \<Rightarrow> add_vaStatus \<lparr>vs_va = i, vs_attached = False, vs_metadata = [],
          vs_errMsg = ''no VirtualMachine '' @ quote vmName @ '' in the host namespace backs node '' @
            quote (node_now i vmName p)\<rparr> p
      | Some vols \<Rightarrow>
          let vol = (case map_of vols volName of None \<Rightarrow> no_volume | Some v \<Rightarrow> v);
              (ok, p) = (if \<not> InSpec vol \<and> Phase vol = [] then
                  let (resp, p) = call env (AddVolume (host_ns (p_tc p)) vmName volName hostPVC serial) p
                  in case write_error resp of
                       None \<Rightarrow> (True, p)
                     | Some e \<Rightarrow> (False, storageProblem (''hotplugging volume '' @ volName @ '' into VM '' @ vmName) e p)
                else (True, p))
          in if ok \<and> Phase vol = Ready
             then add_vaStatus \<lparr>vs_va = i, vs_attached = True, vs_metadata = [(''serial'', serial)], vs_errMsg = []\<rparr> p
             else p)"

text \<open>The guest PV behind an attachment, if it is a CSI volume of this pass.\<close>

definition attachment_csi :: "storage_state \<Rightarrow> string \<Rightarrow> csi_source option" where
  "attachment_csi st pvName =
     (case map_of (st_guestPVs st) pvName of None \<Rightarrow> None | Some pv \<Rightarrow> pv_csi pv)"

definition reconcileAttachment :: "env \<Rightarrow> nat \<Rightarrow> pass \<Rightarrow> pass" where
  "reconcileAttachment env i p =
     (case p_storage p of
        None \<Rightarrow> p
      | Some st \<Rightarrow>
          let va = st_attachments st ! i in
          case va_pvName va of
            None \<Rightarrow> p
          | Some pvName \<Rightarrow>
              (case attachment_csi st pvName of
                 None \<Rightarrow>
                   if om_deleting (va_meta va) \<and> contains_finalizer env GuestFinalizer (om_finalizers (va_meta va))
                   then release_attachment env i va ''releasing orphaned'' p else p
               | Some csi \<Rightarrow>
                   let hostPVC = csi_handle csi in
                   if om_deleting (va_meta va) then detach env i va (VolumeName hostPVC) st p
                   else
                     let (changed, fs) = add_finalizer env GuestFinalizer (om_finalizers (va_meta va));
                         (ok, p) = (if changed then update_attachment env i (va_finalizers fs va) ''pinning'' p
                                    else (True, p))
                     in if ok then attach env i (va_node va) hostPVC st p else p))"

definition apply_class :: "env \<Rightarrow> (string \<times> storage_class) list \<Rightarrow> string \<times> storage_class \<Rightarrow> pass \<Rightarrow> pass" where
  "apply_class env existing x p =
     (let (name, hostSC) = x; want = mirrorStorageClass hostSC in
      case map_of existing name of
        None \<Rightarrow> snd (guest_call_or env (GuestCreate (OStorageClass want)) IsAlreadyExists
          (''creating guest StorageClass '' @ quote name) p)
      | Some have \<Rightarrow>
          if scEqual have want then p
          else
            let (ok, p) = guest_call_or env (GuestDelete (OStorageClass have)) IsNotFound
                  (''replacing guest StorageClass '' @ quote name) p
            in if \<not> ok then p
               else snd (guest_call_or env (GuestCreate (OStorageClass want)) (\<lambda>_. False)
                 (''recreating guest StorageClass '' @ quote name) p))"

definition applyGuestStorageClasses :: "env \<Rightarrow> pass \<Rightarrow> pass" where
  "applyGuestStorageClasses env p =
     (case p_storage p of
        None \<Rightarrow> p
      | Some st \<Rightarrow>
          let existing = fold (\<lambda>x m. put (om_name (sc_meta x)) x m) (st_guestSCs st) []
          in fold (apply_class env existing)
               (go_range (map_order env (p_trace p) ''applyGuestStorageClasses'') (st_offerable st)) p)"

definition plugin_current :: "node_plugin_images \<Rightarrow> daemon_set \<Rightarrow> bool" where
  "plugin_current images ds =
     (case ps_containers (ds_pod ds) of
        [a, b] \<Rightarrow> ct_image a = img_Node images \<and> ct_image b = img_Registrar images
      | _ \<Rightarrow> False)"

definition ds_with_spec :: "daemon_set \<Rightarrow> daemon_set \<Rightarrow> daemon_set" where
  "ds_with_spec have ds = have\<lparr>ds_selector := ds_selector ds, ds_podLabels := ds_podLabels ds, ds_pod := ds_pod ds\<rparr>"

definition apply_driver :: "env \<Rightarrow> pass \<Rightarrow> pass" where
  "apply_driver env p =
     (let (resp, p) = call env (GuestGet KCSIDriver [] DriverName) p
      in case decode_with to_csi_driver resp of
           Inr _ \<Rightarrow> p
         | Inl e \<Rightarrow> if IsNotFound e
             then snd (guest_call_or env (GuestCreate (OCSIDriver guestCSIDriver)) IsAlreadyExists ''creating guest CSIDriver'' p)
             else p)"

definition apply_daemon_set :: "env \<Rightarrow> pass \<Rightarrow> pass" where
  "apply_daemon_set env p =
     (let ds = plugin_daemon_set (p_images p);
          (resp, p) = call env (GuestGet KDaemonSet GuestCSINamespace GuestCSIDaemonSet) p
      in case decode_with to_daemon_set resp of
           Inl e \<Rightarrow> if IsNotFound e
             then snd (guest_call_or env (GuestCreate (ODaemonSet ds)) (\<lambda>_. False) ''creating guest node plugin DaemonSet'' p)
             else problem (''checking guest node plugin DaemonSet: '' @ err_text e) p
         | Inr have \<Rightarrow>
             if plugin_current (p_images p) have then p
             else snd (guest_call_or env (GuestUpdate (ODaemonSet (ds_with_spec have ds))) (\<lambda>_. False)
               ''updating guest node plugin DaemonSet'' p))"

definition applyGuestPlugin :: "env \<Rightarrow> pass \<Rightarrow> pass" where
  "applyGuestPlugin env p =
     (case p_storage p of
        None \<Rightarrow> p
      | Some st \<Rightarrow>
          if \<not> st_pluginWanted st then p
          else
            let (ok, p) = guest_call_or env (GuestCreate (ONamespace plugin_namespace)) IsAlreadyExists
                  (''creating guest namespace '' @ GuestCSINamespace) p
            in if \<not> ok then p
               else
                 let p = snd (guest_call_or env (GuestCreate (OServiceAccount plugin_account)) IsAlreadyExists
                       ''creating guest ServiceAccount'' p)
                 in apply_daemon_set env (apply_driver env p))"

definition applyStorage :: "env \<Rightarrow> pass \<Rightarrow> pass" where
  "applyStorage env p =
     (case p_storage p of
        None \<Rightarrow> p
      | Some st \<Rightarrow>
          let p = applyGuestStorageClasses env (applyGuestPlugin env p);
              p = fold (provisionPVC env) (st_provisionable st) p
          in fold (reconcileAttachment env) [0..<length (st_attachments st)] p)"

section \<open>Prune and teardown\<close>

definition carries :: "string \<Rightarrow> string \<times> (string \<times> volume_state) list \<Rightarrow> bool" where
  "carries volName vm \<longleftrightarrow> volName \<in> keys (snd vm)"

text \<open>The loop body of \<open>volumeUnplugged\<close> for one VM that carries the volume.\<close>

definition unplug :: "env \<Rightarrow> string \<Rightarrow> string \<times> (string \<times> volume_state) list \<Rightarrow> pass \<Rightarrow> pass" where
  "unplug env volName vm p =
     (case map_of (snd vm) volName of
        None \<Rightarrow> p
      | Some vol \<Rightarrow>
          if \<not> InSpec vol then p
          else
            let (resp, p) = call env (RemoveVolume (host_ns (p_tc p)) (fst vm) volName) p
            in case write_error resp of
                 None \<Rightarrow> p
               | Some e \<Rightarrow> storageProblem (''unplugging volume '' @ volName @ '' from VM '' @ fst vm) e p)"

definition volumeUnplugged :: "env \<Rightarrow> string \<Rightarrow> pass \<Rightarrow> bool \<times> pass" where
  "volumeUnplugged env hostPVCName p =
     (case p_storage p of
        None \<Rightarrow> (True, p)
      | Some st \<Rightarrow>
          let volName = VolumeName hostPVCName;
              order = go_range (map_order env (p_trace p) ''volumeUnplugged'') (st_vms st)
          in (\<not> (\<exists>vm \<in> set order. carries volName vm), fold (unplug env volName) order p))"

definition teardown_pv :: "env \<Rightarrow> guest_ref \<Rightarrow> string \<Rightarrow> storage_state \<Rightarrow> pass \<Rightarrow> pass" where
  "teardown_pv env ref pvName st p =
     (case map_of (st_guestPVs st) pvName of
        None \<Rightarrow> p
      | Some pv \<Rightarrow>
          let (ok, p) = guest_call_or env (GuestDelete (OPV pv)) IsNotFound (''deleting guest PV '' @ quote pvName) p
          in if ok then p else wantFinalizer ref p)"

definition teardownGuestPVC :: "env \<Rightarrow> guest_ref \<Rightarrow> pass \<Rightarrow> pass" where
  "teardownGuestPVC env ref p =
     (case (p_storage p, heap_as to_pvc p ref) of
        (Some st, Some pvc) \<Rightarrow>
          let hostName = HostPVCName (p_tc p) (om_uid (pvc_meta pvc)) in
          if \<exists>va \<in> set (st_attachments st). va_pvName va = Some (pv_name pvc) then wantFinalizer ref p
          else
            let (gone, p) = volumeUnplugged env hostName p in
            if \<not> gone then wantFinalizer ref p
            else
              (case find_hostPVC st hostName of
                 None \<Rightarrow> teardown_pv env ref (pv_name pvc) st p
               | Some hostPVC \<Rightarrow>
                   let p = deleteOwned env (OPVC hostPVC) p
                   in if p_pruneFailed p then wantFinalizer ref p
                      else teardown_pv env ref (pv_name pvc) st p)
      | _ \<Rightarrow> p)"

definition prune_orphan_pvc :: "env \<Rightarrow> pvc \<Rightarrow> pass \<Rightarrow> pass" where
  "prune_orphan_pvc env hostPVC p =
     (case p_storage p of
        None \<Rightarrow> p
      | Some st \<Rightarrow>
          if at (om_labels (pvc_meta hostPVC)) LabelGuestUID \<in> set (st_pvcUIDs st) then p
          else
            let (gone, p) = volumeUnplugged env (om_name (pvc_meta hostPVC)) p
            in if gone then deleteOwned env (OPVC hostPVC) p else p)"

text \<open>
  \<open>removeOrphanVMVolumes\<close>, shared with the teardown of a whole tenant, which has no pass: it
  works on the trace and returns whether it found the VMs clean and what it reports.
\<close>

type_synonym sweep = "bool \<times> string list \<times> event list"

definition sweep_volume ::
  "env \<Rightarrow> string \<Rightarrow> string \<Rightarrow> string \<times> volume_state \<Rightarrow> sweep \<Rightarrow> sweep" where
  "sweep_volume env ns vmName v s =
     (let (volName, vol) = v; (clean, reports, tr) = s in
      if Claim vol = [] \<or> VolumeName (Claim vol) \<noteq> volName then s
      else
        let get = HostGet KPVC ns (Claim vol); resp = api env tr get; tr = (get, resp) # tr
        in case decode_with to_pvc resp of
             Inr _ \<Rightarrow> (clean, reports, tr)
           | Inl e \<Rightarrow>
               if \<not> IsNotFound e then
                 (False, reports @ [''checking claim '' @ quote (Claim vol) @ '' behind VM '' @ vmName @
                    '' volume '' @ volName @ '': '' @ err_text e], tr)
               else if \<not> InSpec vol then (False, reports, tr)
               else
                 let rm = RemoveVolume ns vmName volName; resp = api env tr rm; tr = (rm, resp) # tr
                 in case write_error resp of
                      None \<Rightarrow> (False, reports, tr)
                    | Some e \<Rightarrow> (False, reports @ [''removing orphaned volume '' @ volName @ '' (claim '' @
                        quote (Claim vol) @ '' gone) from VM '' @ vmName @ '': '' @ err_text e], tr))"

definition sweep_vm ::
  "env \<Rightarrow> string \<Rightarrow> string \<times> (string \<times> volume_state) list \<Rightarrow> sweep \<Rightarrow> sweep" where
  "sweep_vm env ns vm s =
     fold (sweep_volume env ns (fst vm))
       (go_range (map_order env (snd (snd s)) ''removeOrphanVMVolumes/volumes'') (snd vm)) s"

definition removeOrphanVMVolumes :: "env \<Rightarrow> string \<Rightarrow> vm_volumes \<Rightarrow> event list \<Rightarrow> sweep" where
  "removeOrphanVMVolumes env ns vms tr =
     fold (sweep_vm env ns) (go_range (map_order env tr ''removeOrphanVMVolumes'') vms) (True, [], tr)"

definition prune_class :: "env \<Rightarrow> storage_state \<Rightarrow> storage_class \<Rightarrow> pass \<Rightarrow> pass" where
  "prune_class env st sc p =
     (if om_name (sc_meta sc) \<in> keys (st_offerable st) then p
      else snd (guest_call_or env (GuestDelete (OStorageClass sc)) IsNotFound
        (''deleting guest StorageClass '' @ quote (om_name (sc_meta sc))) p))"

definition pruneStorage :: "env \<Rightarrow> pass \<Rightarrow> pass" where
  "pruneStorage env p =
     (case p_storage p of
        None \<Rightarrow> p
      | Some st \<Rightarrow>
          let p = fold (teardownGuestPVC env) (st_deleting st) p;
              p = fold (prune_orphan_pvc env) (st_hostPVCs st) p;
              (clean, reports, tr) = removeOrphanVMVolumes env (host_ns (p_tc p)) (st_vms st) (p_trace p);
              p = p\<lparr>p_problems := p_problems p @ reports, p_trace := tr\<rparr>
          in fold (prune_class env st) (st_guestSCs st) p)"

section \<open>Write-back\<close>

definition write_vaStatus :: "env \<Rightarrow> va_status_write \<Rightarrow> pass \<Rightarrow> pass" where
  "write_vaStatus env w p =
     (case p_storage p of
        None \<Rightarrow> p
      | Some st \<Rightarrow>
          let va = st_attachments st ! vs_va w;
              p = (if vs_errMsg w \<noteq> [] then snd (call env Now p) else p);
              desired = va\<lparr>va_attached := vs_attached w, va_metadata := vs_metadata w,
                va_error := (if vs_errMsg w \<noteq> [] then Some (vs_errMsg w) else None)\<rparr>
          in if va_attached va = va_attached desired \<and> va_metadata va = va_metadata desired \<and>
                (va_error va = None) = (va_error desired = None)
             then p
             else
               let (resp, p) = call env (GuestStatusUpdate (OVolumeAttachment desired))
                     (set_attachment (vs_va w) desired p)
               in case decode_write to_attachment desired resp of
                    Inr y \<Rightarrow> set_attachment (vs_va w) y p
                  | Inl e \<Rightarrow> problem (''writing status to guest VolumeAttachment '' @ om_name (va_meta va) @
                      '': '' @ err_text e) p)"

definition writeBackStorage :: "env \<Rightarrow> pass \<Rightarrow> pass" where
  "writeBackStorage env p =
     (case p_storage p of
        None \<Rightarrow> p
      | Some st \<Rightarrow> fold (write_vaStatus env) (st_vaStatus st) p)"

end
