(* ===== verification/StorageInv.thy ===== *)
theory StorageInv
  imports StoragePass
begin

text \<open>
  What the storage slice may ask of the servers, and that every operation of it stays within
  that: a host PVC is deleted only when the VM state of this pass shows its volume in no VM, a
  volume is plugged in only under the name and serial derived from its claim, and the guest
  receives the platform's objects and nothing else.
\<close>

section \<open>The guard\<close>

definition unplugged :: "tenant_cluster \<Rightarrow> event list \<Rightarrow> string \<Rightarrow> bool" where
  "unplugged tc h name \<longleftrightarrow>
     (\<exists>vms. (VMs (host_ns tc), RVMs vms) \<in> set h \<and> \<not> (\<exists>vm \<in> set vms. carries (VolumeName name) vm))"

definition pvc_delete_ok :: "tenant_cluster \<Rightarrow> event list \<Rightarrow> obj \<Rightarrow> string \<Rightarrow> bool" where
  "pvc_delete_ok tc h x uid \<longleftrightarrow> ownedBy (meta_of x) tc \<and> uid = om_uid (meta_of x) \<and>
     (\<exists>xs. (HostList KPVC (host_ns tc) (tenantSelector tc), RObjs xs) \<in> set h \<and> x \<in> set xs) \<and>
     unplugged tc h (om_name (meta_of x))"

text \<open>
  What the storage slice creates in a guest: the node plugin's namespace, account, driver and
  DaemonSet as pass.go builds them, and PVs and StorageClasses of the plugin's driver that carry
  the managed label.
\<close>

definition plugin_object :: "obj \<Rightarrow> bool" where
  "plugin_object x \<longleftrightarrow> (case x of
     ONamespace ns \<Rightarrow> ns = plugin_namespace
   | OServiceAccount sa \<Rightarrow> sa = plugin_account
   | OCSIDriver d \<Rightarrow> d = guestCSIDriver
   | ODaemonSet ds \<Rightarrow> ds \<in> range plugin_daemon_set
   | OPV pv \<Rightarrow> om_labels (pv_meta pv) = managed_labels \<and> map_option csi_driver (pv_csi pv) = Some DriverName \<and>
       pv_reclaim pv = ReclaimRetain
   | OStorageClass sc \<Rightarrow> om_labels (sc_meta sc) = managed_labels \<and> sc_provisioner sc = DriverName
   | _ \<Rightarrow> False)"

text \<open>
  The only workload of a guest that is updated is the plugin's DaemonSet: what was just read under
  its name, with the pod template the plugin is to have and nothing else changed.
\<close>

definition plugin_update_ok :: "event list \<Rightarrow> obj \<Rightarrow> bool" where
  "plugin_update_ok h x \<longleftrightarrow>
     (\<exists>have images h'. h = (GuestGet KDaemonSet GuestCSINamespace GuestCSIDaemonSet, RObj (ODaemonSet have)) # h' \<and>
        x = ODaemonSet (ds_with_spec have (plugin_daemon_set images)))"

lemma plugin_objects [simp]:
  "plugin_object (ONamespace plugin_namespace)" "plugin_object (OServiceAccount plugin_account)"
  "plugin_object (OCSIDriver guestCSIDriver)" "plugin_object (ODaemonSet (plugin_daemon_set images))"
  "plugin_object (OPV (guestPVForClaim g n c))" "plugin_object (OStorageClass (mirrorStorageClass sc))"
  by (simp_all add: plugin_object_def guestPVForClaim_def mirrorStorageClass_def)

definition storage_guard :: "tenant_cluster \<Rightarrow> event list \<Rightarrow> request \<Rightarrow> bool" where
  "storage_guard tc h r \<longleftrightarrow> (case r of
     HostGet k ns n \<Rightarrow> True
   | HostList k ns sel \<Rightarrow> k = KStorageClass \<or> (k = KPVC \<and> ns = host_ns tc \<and> sel = tenantSelector tc)
   | HostCreate x \<Rightarrow> kind_of x = KPVC \<and> create_ok tc h x
   | HostDelete x uid \<Rightarrow> kind_of x = KPVC \<and> pvc_delete_ok tc h x uid
   | AddVolume ns vm vol claim serial \<Rightarrow>
       ns = host_ns tc \<and> vol = VolumeName claim \<and> serial = SerialFor claim
   | RemoveVolume ns vm vol \<Rightarrow> ns = host_ns tc
   | VMs ns \<Rightarrow> ns = host_ns tc
   | GuestGet k ns n \<Rightarrow> True
   | GuestList k sel \<Rightarrow> True
   | GuestCreate x \<Rightarrow> plugin_object x
   | GuestUpdate x \<Rightarrow> kind_of x = KVolumeAttachment \<or> plugin_update_ok h x
   | GuestStatusUpdate x \<Rightarrow> kind_of x = KVolumeAttachment
   | GuestDelete x \<Rightarrow> kind_of x \<in> {KStorageClass, KPV}
   | Now \<Rightarrow> True
   | _ \<Rightarrow> False)"

lemma storage_guard_simps [simp]:
  "storage_guard tc h (HostGet k ns n)"
  "storage_guard tc h (AddVolume ns vm (VolumeName c) c (SerialFor c)) = (ns = host_ns tc)"
  "storage_guard tc h (RemoveVolume ns vm vol) = (ns = host_ns tc)"
  "storage_guard tc h (VMs ns) = (ns = host_ns tc)"
  "storage_guard tc h (GuestGet k ns n)" "storage_guard tc h (GuestList k sel)"
  "storage_guard tc h (GuestCreate x) = plugin_object x"
  "storage_guard tc h (GuestUpdate x) = (kind_of x = KVolumeAttachment \<or> plugin_update_ok h x)"
  "storage_guard tc h (GuestStatusUpdate x) = (kind_of x = KVolumeAttachment)"
  "storage_guard tc h (GuestDelete x) = (kind_of x \<in> {KStorageClass, KPV})"
  "storage_guard tc h Now"
  by (simp_all add: storage_guard_def)

text \<open>Requests whose answer never leaves a host object in doubt.\<close>

definition calm :: "request \<Rightarrow> bool" where
  "calm r \<longleftrightarrow> (\<forall>resp. \<not> prune_trouble (r, resp))"

lemma calm_simps [simp]:
  "calm (HostGet k ns n)" "calm (HostCreate x)" "calm (AddVolume ns vm vol c s)" "calm (RemoveVolume ns vm vol)"
  "calm (GuestGet k ns n)" "calm (GuestList k sel)" "calm (GuestCreate x)" "calm (GuestUpdate x)"
  "calm (GuestStatusUpdate x)" "calm (GuestDelete x)" "calm Now"
  by (simp_all add: calm_def)

section \<open>The contract of an operation\<close>

definition st_same :: "pass \<Rightarrow> pass \<Rightarrow> bool" where
  "st_same q p \<longleftrightarrow> p_tc q = p_tc p \<and> p_heap q = p_heap p \<and>
     map_option st_hostPVCs (p_storage q) = map_option st_hostPVCs (p_storage p) \<and>
     map_option st_vms (p_storage q) = map_option st_vms (p_storage p) \<and>
     same_objects q p \<and> p_gatewayAPIOnHost q = p_gatewayAPIOnHost p"

definition step_ok :: "pass \<Rightarrow> pass \<Rightarrow> bool" where
  "step_ok p q \<longleftrightarrow> st_same q p \<and> trace_ext (storage_guard (p_tc p)) (p_trace p) (p_trace q) \<and>
     (recorded p \<longrightarrow> recorded q) \<and> (p_pruneFailed p \<longrightarrow> p_pruneFailed q)"

lemma step_refl [simp]: "step_ok p p"
  by (simp add: step_ok_def st_same_def)

lemma step_trans: "step_ok p q \<Longrightarrow> step_ok q r \<Longrightarrow> step_ok p r"
  by (auto simp: step_ok_def st_same_def same_objects_def intro: trace_ext_trans)

lemma step_tc: "step_ok p q \<Longrightarrow> p_tc q = p_tc p"
  by (simp add: step_ok_def st_same_def)

lemma step_fold: "(\<And>x p. x \<in> set xs \<Longrightarrow> step_ok p (f x p)) \<Longrightarrow> step_ok p (fold f xs p)"
proof (induction xs arbitrary: p)
  case (Cons x xs)
  then show ?case using step_trans [of p "f x p"] by simp
qed simp

lemma recorded_simps [simp]:
  "recorded (problem m p) = recorded p" "recorded (storageProblem w e p)"
  "recorded (upd_storage f p) = recorded p" "recorded (wantFinalizer ref p) = recorded p"
  by (simp_all add: recorded_def problem_def storageProblem_def upd_storage_def wantFinalizer_def)

lemma recorded_call: "calm r \<Longrightarrow> recorded p \<Longrightarrow> recorded (snd (call env r p))"
  by (auto simp: recorded_def calm_def)

lemma storageProblem_simps [simp]:
  "p_tc (storageProblem w e p) = p_tc p" "p_trace (storageProblem w e p) = p_trace p"
  "p_storage (storageProblem w e p) = p_storage p" "p_heap (storageProblem w e p) = p_heap p"
  "p_pruneFailed (storageProblem w e p)" "same_objects (storageProblem w e p) q = same_objects p q"
  "p_gatewayAPIOnHost (storageProblem w e p) = p_gatewayAPIOnHost p"
  by (simp_all add: storageProblem_def problem_def same_objects_def)

lemma upd_storage_simps [simp]:
  "p_tc (upd_storage f p) = p_tc p" "p_trace (upd_storage f p) = p_trace p" "p_heap (upd_storage f p) = p_heap p"
  "p_pruneFailed (upd_storage f p) = p_pruneFailed p" "p_storage (upd_storage f p) = map_option f (p_storage p)"
  "same_objects (upd_storage f p) q = same_objects p q"
  "p_gatewayAPIOnHost (upd_storage f p) = p_gatewayAPIOnHost p"
  by (simp_all add: upd_storage_def same_objects_def)

lemma step_call: "storage_guard (p_tc p) (p_trace p) r \<Longrightarrow> calm r \<Longrightarrow> step_ok p (snd (call env r p))"
  by (simp add: step_ok_def st_same_def trace_ext_one recorded_call)

lemma step_problem [simp]: "step_ok p (problem m q) = step_ok p q"
  by (simp add: step_ok_def st_same_def same_objects_def problem_def recorded_def)

lemma step_wantFinalizer [simp]: "step_ok p (wantFinalizer ref q) = step_ok p q"
  by (simp add: step_ok_def st_same_def same_objects_def wantFinalizer_def recorded_def)

lemma step_storageProblem: "step_ok p q \<Longrightarrow> step_ok p (storageProblem w e q)"
  by (simp add: step_ok_def st_same_def)

lemma step_upd:
  "(\<And>st. st_hostPVCs (f st) = st_hostPVCs st) \<Longrightarrow> (\<And>st. st_vms (f st) = st_vms st) \<Longrightarrow>
   step_ok p (upd_storage f q) = step_ok p q"
  by (simp add: step_ok_def st_same_def option.map_comp o_def)

lemma step_updates [simp]:
  "step_ok p (set_attachment i va q) = step_ok p q" "step_ok p (add_vaStatus w q) = step_ok p q"
  "step_ok p (upd_storage (\<lambda>st. st\<lparr>st_guestPVs := g st\<rparr>) q) = step_ok p q"
  by (simp_all add: set_attachment_def add_vaStatus_def step_upd)

lemma step_mayTouch [simp]: "step_ok p (snd (mayTouch x q)) = step_ok p q"
  by (simp add: mayTouch_def)

lemma step_guest_call_or:
  "storage_guard (p_tc p) (p_trace p) r \<Longrightarrow> calm r \<Longrightarrow> step_ok p (snd (guest_call_or env r tol what p))"
  by (auto simp: guest_call_or_def Let_def split_beta intro: step_call split: option.split)

text \<open>What the storage state was read from is in the history.\<close>

definition storage_ok :: "pass \<Rightarrow> bool" where
  "storage_ok p \<longleftrightarrow> (\<forall>st. p_storage p = Some st \<longrightarrow>
     (\<exists>xs. (HostList KPVC (host_ns (p_tc p)) (tenantSelector (p_tc p)), RObjs xs) \<in> set (p_trace p) \<and>
        OPVC ` set (st_hostPVCs st) \<subseteq> set xs) \<and>
     (VMs (host_ns (p_tc p)), RVMs (st_vms st)) \<in> set (p_trace p))"

lemma storage_ok_step:
  assumes "step_ok p q" and "storage_ok p"
  shows "storage_ok q"
  unfolding storage_ok_def
proof (intro allI impI)
  fix st assume st: "p_storage q = Some st"
  have same: "st_same q p" and sub: "set (p_trace p) \<subseteq> set (p_trace q)"
    using assms(1) trace_ext_subset by (auto simp: step_ok_def)
  then obtain st' where st': "p_storage p = Some st'" "st_hostPVCs st' = st_hostPVCs st" "st_vms st' = st_vms st"
    using st by (cases "p_storage p") (auto simp: st_same_def)
  have tc: "p_tc q = p_tc p" using same by (simp add: st_same_def)
  then show "(\<exists>xs. (HostList KPVC (host_ns (p_tc q)) (tenantSelector (p_tc q)), RObjs xs) \<in> set (p_trace q) \<and>
        OPVC ` set (st_hostPVCs st) \<subseteq> set xs) \<and> (VMs (host_ns (p_tc q)), RVMs (st_vms st)) \<in> set (p_trace q)"
    using assms(2) st' sub unfolding storage_ok_def by (metis subsetD)
qed

section \<open>Provisioning and attaching\<close>

lemma provision_host_ok:
  assumes "hostName = HostPVCName (p_tc p) (om_uid (pvc_meta g))"
  shows "step_ok p (snd (provision_host env g hostName p))"
proof -
  let ?get = "HostGet KPVC (host_ns (p_tc p)) hostName"
  let ?p1 = "snd (call env ?get p)"
  have s1: "step_ok p ?p1" by (rule step_call) simp_all
  have s2: "step_ok p (snd (call env (HostCreate (OPVC want)) ?p1))"
    if want: "mapPVC (p_tc p) g c = Inr want" and nf: "decode_with to_pvc (api env (p_trace p) ?get) = Inl e" "IsNotFound e"
    for c want e
  proof -
    obtain req where w: "want = host_pvc (p_tc p) g c req"
      using want by (auto simp: mapPVC_def Let_def split: option.splits if_splits)
    obtain m where m: "api env (p_trace p) ?get = RErr (NotFound m)" using decode_with_NotFound [OF nf] by blast
    have "ownedBy (meta_of (OPVC want)) (p_tc p)"
      by (rule ownedBy_ownershipLabels [of _ _ "pvc_meta g"]) (simp add: w host_pvc_def)
    then have "storage_guard (p_tc ?p1) (p_trace ?p1) (HostCreate (OPVC want))"
      using m assms by (simp add: storage_guard_def create_ok_def w host_pvc_def no_meta_def)
    then have "step_ok ?p1 (snd (call env (HostCreate (OPVC want)) ?p1))" by (rule step_call) simp
    with s1 show ?thesis by (rule step_trans)
  qed
  show ?thesis
    using s1 s2
    by (auto simp: provision_host_def Let_def split_beta intro!: step_storageProblem split: option.split sum.split)
qed

lemma provision_pv_ok: "step_ok p (provision_pv env g hostName st p)"
proof -
  have "step_ok p (snd (call env (GuestCreate (OPV (guestPVForClaim g n c))) p))" for n c by (rule step_call) simp_all
  then show ?thesis
    by (auto simp: provision_pv_def Let_def split_beta split: option.split sum.split)
qed

lemma provisionPVC_ok: "step_ok p (provisionPVC env ref p)"
proof -
  have "step_ok p (provision_pv env g hn st (snd (provision_host env g hn p)))"
    if "hn = HostPVCName (p_tc p) (om_uid (pvc_meta g))" for g hn st
    using provision_host_ok [OF that] provision_pv_ok by (rule step_trans)
  then show ?thesis
    by (auto simp: provisionPVC_def Let_def split_beta provision_pv_ok provision_host_ok split: option.split)
qed

lemma update_attachment_ok: "step_ok p (snd (update_attachment env i va what p))"
proof -
  have "step_ok (set_attachment i va p) (snd (call env (GuestUpdate (OVolumeAttachment va)) (set_attachment i va p)))"
    by (rule step_call) simp_all
  then have "step_ok p (snd (call env (GuestUpdate (OVolumeAttachment va)) (set_attachment i va p)))"
    by (rule step_trans [rotated]) simp
  then show ?thesis by (simp add: update_attachment_def Let_def split_beta split: sum.split)
qed

lemma release_attachment_ok: "step_ok p (release_attachment env i va what p)"
  by (simp add: release_attachment_def split_beta update_attachment_ok)

lemma detach_ok: "step_ok p (detach env i va vol st p)"
proof -
  have "step_ok p (snd (call env (RemoveVolume (host_ns (p_tc p)) a b) p))" for a b
    by (rule step_call) simp_all
  then show ?thesis
    by (auto simp: detach_def Let_def split_beta release_attachment_ok intro!: step_storageProblem split: option.split)
qed

lemma attach_ok: "step_ok p (attach env i vm c st p)"
proof -
  have "step_ok p (snd (call env (AddVolume (host_ns (p_tc p)) vm (VolumeName c) c (SerialFor c)) p))"
    by (rule step_call) simp_all
  then show ?thesis
    by (auto simp: attach_def Let_def split_beta intro!: step_storageProblem split: option.split)
qed

lemma reconcileAttachment_ok: "step_ok p (reconcileAttachment env i p)"
proof -
  have "step_ok p (attach env i vm c st (snd (update_attachment env i va what p)))" for vm c st va what
    using update_attachment_ok attach_ok by (rule step_trans)
  then show ?thesis
    by (auto simp: reconcileAttachment_def Let_def split_beta release_attachment_ok detach_ok attach_ok
        update_attachment_ok split: option.split)
qed

lemma apply_class_ok: "step_ok p (apply_class env existing x p)"
proof -
  have d: "step_ok p (snd (guest_call_or env (GuestDelete (OStorageClass y)) t w p))" for y t w p
    by (rule step_guest_call_or) simp_all
  have c: "step_ok p (snd (guest_call_or env (GuestCreate (OStorageClass (mirrorStorageClass y))) t w p))" for y t w p
    by (rule step_guest_call_or) simp_all
  show ?thesis
    using d c step_trans [OF d c] by (simp add: apply_class_def Let_def split_beta split: option.split)
qed

lemma apply_driver_ok: "step_ok p (apply_driver env p)"
proof -
  have g: "step_ok p (snd (call env (GuestGet KCSIDriver [] DriverName) p))" by (rule step_call) simp_all
  have "step_ok q (snd (guest_call_or env (GuestCreate (OCSIDriver guestCSIDriver)) t w q))" for t w q
    by (rule step_guest_call_or) simp_all
  then show ?thesis
    using g step_trans [OF g] by (simp add: apply_driver_def Let_def split_beta split: sum.split)
qed

lemma apply_daemon_set_ok: "step_ok p (apply_daemon_set env p)"
proof -
  let ?p = "snd (call env (GuestGet KDaemonSet GuestCSINamespace GuestCSIDaemonSet) p)"
  have g: "step_ok p ?p" by (rule step_call) simp_all
  have c: "step_ok q (snd (guest_call_or env (GuestCreate (ODaemonSet (plugin_daemon_set images))) t w q))" for images t w q
    by (rule step_guest_call_or) simp_all
  have u: "step_ok ?p (snd (guest_call_or env (GuestUpdate (ODaemonSet (ds_with_spec y (plugin_daemon_set images)))) t w ?p))"
    if "decode_with to_daemon_set (api env (p_trace p) (GuestGet KDaemonSet GuestCSINamespace GuestCSIDaemonSet)) = Inr y"
    for y images t w
    using decode_with_Inr [OF that]
    by (intro step_guest_call_or) (auto simp: plugin_update_ok_def elim: to_daemon_set.elims)
  show ?thesis
    using g step_trans [OF g c] step_trans [OF g u]
    by (simp add: apply_daemon_set_def Let_def split_beta split: sum.split)
qed

lemma applyGuestPlugin_ok: "step_ok p (applyGuestPlugin env p)"
proof -
  have n: "step_ok p (snd (guest_call_or env (GuestCreate (ONamespace plugin_namespace)) t w p))" for t w p
    by (rule step_guest_call_or) simp_all
  have a: "step_ok p (snd (guest_call_or env (GuestCreate (OServiceAccount plugin_account)) t w p))" for t w p
    by (rule step_guest_call_or) simp_all
  show ?thesis
    using n step_trans [OF n step_trans [OF a step_trans [OF apply_driver_ok apply_daemon_set_ok]]]
    by (simp add: applyGuestPlugin_def Let_def split_beta split: option.split)
qed

lemma applyGuestStorageClasses_ok: "step_ok p (applyGuestStorageClasses env p)"
  by (auto simp: applyGuestStorageClasses_def Let_def intro!: step_fold apply_class_ok split: option.split)

lemma applyStorage_ok: "step_ok p (applyStorage env p)"
proof -
  have "step_ok p (fold (reconcileAttachment env) is (fold (provisionPVC env) rs
      (applyGuestStorageClasses env (applyGuestPlugin env p))))" for "is" rs
    by (rule step_trans [OF step_trans [OF step_trans [OF applyGuestPlugin_ok applyGuestStorageClasses_ok]]])
      (rule step_fold, rule provisionPVC_ok, rule step_fold, rule reconcileAttachment_ok)
  then show ?thesis by (simp add: applyStorage_def Let_def split: option.split)
qed

section \<open>Teardown\<close>

lemma unplug_ok: "step_ok p (unplug env vol vm p)"
proof -
  have "step_ok p (snd (call env (RemoveVolume (host_ns (p_tc p)) a b) p))" for a b
    by (rule step_call) simp_all
  then show ?thesis
    by (auto simp: unplug_def Let_def split_beta intro!: step_storageProblem split: option.split)
qed

lemma volumeUnplugged_ok: "step_ok p (snd (volumeUnplugged env name p))"
  by (simp add: volumeUnplugged_def Let_def step_fold unplug_ok split: option.split)

lemma volumeUnplugged_clear:
  "fst (volumeUnplugged env name p) \<Longrightarrow> p_storage p = Some st \<Longrightarrow>
   \<not> (\<exists>vm \<in> set (st_vms st). carries (VolumeName name) vm)"
  by (simp add: volumeUnplugged_def Let_def)

lemma deleteOwned_ok:
  assumes "ownedBy (meta_of x) (p_tc p) \<Longrightarrow> storage_guard (p_tc p) (p_trace p) (delete_request x)"
  shows "step_ok p (deleteOwned env x p)"
proof -
  have f: "prune_frame (deleteOwned env x p) p" by (rule deleteOwned_frame)
  have "trace_ext (storage_guard (p_tc p)) (p_trace p) (p_trace (deleteOwned env x p))"
    using assms by (simp add: deleteOwned_trace trace_ext_one)
  then show ?thesis
    using f recorded_deleteOwned deleteOwned_failed by (simp add: step_ok_def st_same_def prune_frame_def)
qed

lemma delete_hostPVC_guard:
  assumes "storage_ok p" and "p_storage p = Some st" and "x \<in> set (st_hostPVCs st)"
    and "\<not> (\<exists>vm \<in> set (st_vms st). carries (VolumeName (om_name (pvc_meta x))) vm)"
    and "ownedBy (pvc_meta x) (p_tc p)"
  shows "storage_guard (p_tc p) (p_trace p) (delete_request (OPVC x))"
  using assms
  by (fastforce simp: storage_guard_def delete_request_def pvc_delete_ok_def unplugged_def storage_ok_def)

lemma st_same_storage:
  assumes "step_ok p q" and "p_storage p = Some st"
  obtains st' where "p_storage q = Some st'" "st_hostPVCs st' = st_hostPVCs st" "st_vms st' = st_vms st"
  using assms by (cases "p_storage q") (auto simp: step_ok_def st_same_def)

text \<open>After an unplug check that came out clear, the host PVC may go.\<close>

lemma unplug_then_delete:
  assumes "storage_ok p" and st: "p_storage p = Some st" and x: "x \<in> set (st_hostPVCs st)"
    and clear: "fst (volumeUnplugged env (om_name (pvc_meta x)) p)"
  shows "step_ok p (deleteOwned env (OPVC x) (snd (volumeUnplugged env (om_name (pvc_meta x)) p)))"
proof -
  let ?q = "snd (volumeUnplugged env (om_name (pvc_meta x)) p)"
  have s: "step_ok p ?q" by (rule volumeUnplugged_ok)
  obtain st' where st': "p_storage ?q = Some st'" "st_hostPVCs st' = st_hostPVCs st" "st_vms st' = st_vms st"
    using st_same_storage [OF s st] .
  have "step_ok ?q (deleteOwned env (OPVC x) ?q)"
    using delete_hostPVC_guard [OF storage_ok_step [OF s assms(1)] st'(1)] x volumeUnplugged_clear [OF clear st] st'
    by (intro deleteOwned_ok) simp
  with s show ?thesis by (rule step_trans)
qed

lemma teardown_pv_ok: "step_ok p (teardown_pv env ref n st p)"
proof -
  have "step_ok p (snd (guest_call_or env (GuestDelete (OPV y)) t w p))" for y t w
    by (rule step_guest_call_or) simp_all
  then show ?thesis by (simp add: teardown_pv_def Let_def split_beta split: option.split)
qed

lemma find_hostPVC_Some: "find_hostPVC st n = Some x \<Longrightarrow> x \<in> set (st_hostPVCs st) \<and> om_name (pvc_meta x) = n"
  unfolding find_hostPVC_def by (drule find_in_set) simp

lemma teardownGuestPVC_ok:
  assumes "storage_ok p"
  shows "step_ok p (teardownGuestPVC env ref p)"
proof (cases "p_storage p")
  case (Some st)
  show ?thesis
  proof (cases "heap_as to_pvc p ref")
    case pvc: (Some pvc)
    let ?n = "HostPVCName (p_tc p) (om_uid (pvc_meta pvc))"
    let ?q = "snd (volumeUnplugged env ?n p)"
    have v: "step_ok p ?q" by (rule volumeUnplugged_ok)
    have del: "step_ok p (deleteOwned env (OPVC x) ?q)"
      if "find_hostPVC st ?n = Some x" "fst (volumeUnplugged env ?n p)" for x
      using unplug_then_delete [OF assms Some, of x env] find_hostPVC_Some [OF that(1)] that(2) by simp
    show ?thesis
      using v step_trans [OF v teardown_pv_ok] del step_trans [OF del teardown_pv_ok]
      by (simp add: teardownGuestPVC_def Some pvc Let_def split_beta split: option.split)
  qed (simp add: teardownGuestPVC_def Some)
qed (simp add: teardownGuestPVC_def)

lemma prune_orphan_pvc_ok:
  assumes "storage_ok p" and "p_storage p = Some st" and "x \<in> set (st_hostPVCs st)"
  shows "step_ok p (prune_orphan_pvc env x p)"
  using unplug_then_delete [OF assms] volumeUnplugged_ok assms(2)
  by (simp add: prune_orphan_pvc_def Let_def split_beta)

text \<open>Loops whose steps need the history: the invariant goes along.\<close>

lemma step_fold_inv:
  assumes "\<And>x q. x \<in> set xs \<Longrightarrow> storage_ok q \<Longrightarrow>
      map_option st_hostPVCs (p_storage q) = map_option st_hostPVCs (p_storage p) \<Longrightarrow> step_ok q (f x q)"
    and "storage_ok p"
  shows "step_ok p (fold f xs p)"
  using assms
proof (induction xs arbitrary: p)
  case (Cons x xs)
  have s: "step_ok p (f x p)" using Cons.prems by simp
  have h: "map_option st_hostPVCs (p_storage (f x p)) = map_option st_hostPVCs (p_storage p)"
    using s by (simp add: step_ok_def st_same_def)
  have "step_ok (f x p) (fold f xs (f x p))"
    by (rule Cons.IH) (use Cons.prems(1) h storage_ok_step [OF s Cons.prems(2)] in simp_all)
  with s show ?case using step_trans by simp
qed simp

section \<open>The sweep of orphaned volumes\<close>

text \<open>
  The sweep only looks claims up, and only detaches a volume named after a claim right after the
  lookup of that claim found nothing.
\<close>

definition sweep_guard :: "string \<Rightarrow> event list \<Rightarrow> request \<Rightarrow> bool" where
  "sweep_guard ns h r \<longleftrightarrow> (case r of
     HostGet k ns' n \<Rightarrow> k = KPVC \<and> ns' = ns
   | RemoveVolume ns' vm vol \<Rightarrow> ns' = ns \<and>
       (\<exists>claim m h'. vol = VolumeName claim \<and> h = (HostGet KPVC ns claim, RErr (NotFound m)) # h')
   | _ \<Rightarrow> False)"

lemma sweep_volume_guarded:
  "trace_ext (sweep_guard ns) (snd (snd s)) (snd (snd (sweep_volume env ns vm v s)))"
proof -
  obtain volName vol where v: "v = (volName, vol)" by (cases v)
  obtain clean reports tr where s: "s = (clean, reports, tr)" by (cases s)
  let ?get = "HostGet KPVC ns (Claim vol)"
  let ?t1 = "(?get, api env tr ?get) # tr"
  have g: "trace_ext (sweep_guard ns) tr ?t1" by (rule trace_ext_one) (simp add: sweep_guard_def)
  show ?thesis
  proof (cases "Claim vol \<noteq> [] \<and> VolumeName (Claim vol) = volName")
    case True
    have "trace_ext (sweep_guard ns) tr ((RemoveVolume ns vm volName, resp) # ?t1)"
      if nf: "decode_with to_pvc (api env tr ?get) = Inl e" "IsNotFound e" for e resp
    proof -
      obtain m where "api env tr ?get = RErr (NotFound m)" using decode_with_NotFound [OF nf] by blast
      then have "sweep_guard ns ?t1 (RemoveVolume ns vm volName)" using True by (auto simp: sweep_guard_def)
      then show ?thesis by (rule trace_ext_step [OF g])
    qed
    then show ?thesis
      using True g by (simp add: sweep_volume_def v s Let_def split: sum.split option.split)
  qed (auto simp: sweep_volume_def v s)
qed

lemma fold_sweep_guarded:
  assumes "\<And>x s. trace_ext Q (snd (snd s)) (snd (snd (f x s)))"
  shows "trace_ext Q (snd (snd s)) (snd (snd (fold f xs s)))"
proof (induction xs arbitrary: s)
  case (Cons x xs)
  from trace_ext_trans [OF Cons assms] show ?case by simp
qed simp

lemma removeOrphanVMVolumes_guarded:
  "trace_ext (sweep_guard ns) tr (snd (snd (removeOrphanVMVolumes env ns vms tr)))"
proof -
  have "trace_ext (sweep_guard ns) (snd (snd s)) (snd (snd (sweep_vm env ns vm s)))" for vm s
    unfolding sweep_vm_def by (rule fold_sweep_guarded) (rule sweep_volume_guarded)
  from fold_sweep_guarded [of "sweep_guard ns" "sweep_vm env ns", OF this, of "(True, [], tr)"] show ?thesis
    by (simp add: removeOrphanVMVolumes_def)
qed

lemma sweep_guard_storage: "sweep_guard (host_ns tc) h r \<Longrightarrow> storage_guard tc h r \<and> calm r"
  by (cases r) (auto simp: sweep_guard_def)

lemma sweep_step:
  assumes "removeOrphanVMVolumes env (host_ns (p_tc p)) vms (p_trace p) = (clean, reports, tr)"
  shows "step_ok p (p\<lparr>p_problems := ps, p_trace := tr\<rparr>)"
proof -
  have t: "trace_ext (sweep_guard (host_ns (p_tc p))) (p_trace p) tr"
    using removeOrphanVMVolumes_guarded [of "host_ns (p_tc p)" "p_trace p" env vms] assms by simp
  let ?q = "p\<lparr>p_problems := ps, p_trace := tr\<rparr>"
  have "recorded p \<Longrightarrow> recorded ?q"
    by (rule recorded_ext [of "sweep_guard (host_ns (p_tc p))" p ?q])
      (use t sweep_guard_storage in \<open>auto simp: calm_def\<close>)
  moreover have "trace_ext (storage_guard (p_tc p)) (p_trace p) tr"
    using t sweep_guard_storage by (blast intro: trace_ext_mono)
  ultimately show ?thesis by (simp add: step_ok_def st_same_def same_objects_def)
qed

lemma prune_class_ok: "step_ok p (prune_class env st sc p)"
  by (auto simp: prune_class_def intro: step_guest_call_or)

lemma pruneStorage_ok:
  assumes "storage_ok p"
  shows "step_ok p (pruneStorage env p)"
proof (cases "p_storage p")
  case (Some st)
  let ?p1 = "fold (teardownGuestPVC env) (st_deleting st) p"
  let ?p2 = "fold (prune_orphan_pvc env) (st_hostPVCs st) ?p1"
  obtain clean reports tr where sw:
    "removeOrphanVMVolumes env (host_ns (p_tc ?p2)) (st_vms st) (p_trace ?p2) = (clean, reports, tr)"
    by (metis prod_cases3)
  have s1: "step_ok p ?p1" by (rule step_fold_inv [OF teardownGuestPVC_ok assms])
  have h1: "map_option st_hostPVCs (p_storage ?p1) = Some (st_hostPVCs st)"
    using s1 Some by (simp add: step_ok_def st_same_def)
  have "step_ok ?p1 ?p2"
  proof (rule step_fold_inv [OF _ storage_ok_step [OF s1 assms]])
    fix x q assume "x \<in> set (st_hostPVCs st)" "storage_ok q"
      and "map_option st_hostPVCs (p_storage q) = map_option st_hostPVCs (p_storage ?p1)"
    then show "step_ok q (prune_orphan_pvc env x q)"
      using h1 prune_orphan_pvc_ok by (cases "p_storage q") auto
  qed
  with s1 have s2: "step_ok p ?p2" by (rule step_trans)
  have s3: "step_ok p (?p2\<lparr>p_problems := p_problems ?p2 @ reports, p_trace := tr\<rparr>)"
    by (rule step_trans [OF s2 sweep_step [OF sw]])
  have "step_ok p (fold (prune_class env st) (st_guestSCs st)
      (?p2\<lparr>p_problems := p_problems ?p2 @ reports, p_trace := tr\<rparr>))"
    by (rule step_trans [OF s3]) (rule step_fold, rule prune_class_ok)
  then show ?thesis by (simp add: pruneStorage_def Some Let_def sw)
qed (simp add: pruneStorage_def)

lemma write_vaStatus_ok: "step_ok p (write_vaStatus env w p)"
proof -
  have n: "step_ok p (snd (call env Now p))" by (rule step_call) simp_all
  have u: "step_ok q (snd (call env (GuestStatusUpdate (OVolumeAttachment va)) (set_attachment i va q)))" for q va i
  proof -
    have "step_ok (set_attachment i va q)
        (snd (call env (GuestStatusUpdate (OVolumeAttachment va)) (set_attachment i va q)))"
      by (rule step_call) simp_all
    then show ?thesis by (rule step_trans [rotated]) simp
  qed
  show ?thesis
    using n u step_trans [OF n u] by (simp add: write_vaStatus_def Let_def split_beta split: option.split sum.split)
qed

lemma writeBackStorage_ok: "step_ok p (writeBackStorage env p)"
  by (auto simp: writeBackStorage_def intro!: step_fold write_vaStatus_ok split: option.split)

section \<open>The storage gather reads only\<close>

definition storage_reads :: "tenant_cluster \<Rightarrow> event list \<Rightarrow> request \<Rightarrow> bool" where
  "storage_reads tc h r \<longleftrightarrow> storage_guard tc h r \<and> \<not> host_mutation r \<and> \<not> guest_mutation r"

lemma storage_reads_guard: "storage_reads tc h r \<Longrightarrow> storage_guard tc h r"
  by (simp add: storage_reads_def)

text \<open>What the loop over guest PVCs changes: bookkeeping only.\<close>

definition pvc_frame :: "pass \<Rightarrow> pass \<Rightarrow> bool" where
  "pvc_frame q p \<longleftrightarrow> p_trace q = p_trace p \<and> p_tc q = p_tc p \<and> same_objects q p \<and>
     p_pruneFailed q = p_pruneFailed p \<and> p_gatewayAPIOnHost q = p_gatewayAPIOnHost p \<and>
     map_option st_hostPVCs (p_storage q) = map_option st_hostPVCs (p_storage p) \<and>
     map_option st_vms (p_storage q) = map_option st_vms (p_storage p) \<and>
     (heap_kinds p \<longrightarrow> heap_kinds q)"

lemma pvc_frame_refl [simp]: "pvc_frame p p"
  by (simp add: pvc_frame_def same_objects_def)

lemma pvc_frame_trans: "pvc_frame r q \<Longrightarrow> pvc_frame q p \<Longrightarrow> pvc_frame r p"
  by (simp add: pvc_frame_def same_objects_def)

lemma pvc_frame_upd:
  "(\<And>st. st_hostPVCs (f st) = st_hostPVCs st) \<Longrightarrow> (\<And>st. st_vms (f st) = st_vms st) \<Longrightarrow>
   pvc_frame (upd_storage f q) p = pvc_frame q p"
  by (simp add: pvc_frame_def option.map_comp o_def heap_kinds_def)

lemma pvc_frame_simps [simp]:
  "pvc_frame (refuse ref m q) p = pvc_frame q p" "pvc_frame (wantFinalizer ref q) p = pvc_frame q p"
  "pvc_frame (inScope ref b q) p = pvc_frame q p" "pvc_frame (noteFinalizerHolder om ref q) p = pvc_frame q p"
  "pvc_frame (upd_storage plugin_wanted q) p = pvc_frame q p"
  by (simp_all add: pvc_frame_def same_objects_def refuse_def wantFinalizer_def inScope_def
      noteFinalizerHolder_def heap_kinds_def pvc_frame_upd plugin_wanted_def upd_storage_def
      option.map_comp o_def)

lemma pvc_frame_observe: "pvc_frame q p \<Longrightarrow> pvc_frame (observe (OPVC x) q) p"
proof -
  assume q: "pvc_frame q p"
  have "pvc_frame (store ref (OPVC x) q) q" for ref
    by (simp add: pvc_frame_def same_objects_def store_def heap_kinds_def)
  from pvc_frame_trans [OF this q] show ?thesis by (simp add: observe_def Let_def)
qed

lemma gather_pvc_frame: "pvc_frame (gather_pvc env x p) p"
proof -
  have o: "pvc_frame (observe (OPVC x) (upd_storage (\<lambda>st. st\<lparr>st_pvcUIDs := f st\<rparr>) p)) p" for f
    by (rule pvc_frame_observe) (simp add: pvc_frame_upd)
  show ?thesis
    unfolding gather_pvc_def Let_def
    by (simp add: o pvc_frame_upd split: option.split sum.split)
qed

lemma fold_gather_pvc_frame: "pvc_frame (fold (gather_pvc env) xs p) p"
proof (induction xs arbitrary: p)
  case (Cons x xs)
  then show ?case using pvc_frame_trans gather_pvc_frame by (metis fold_simps(2))
qed simp

text \<open>The contract of the gather.\<close>

definition sg_ok :: "pass \<Rightarrow> pass \<Rightarrow> bool" where
  "sg_ok p q \<longleftrightarrow> p_tc q = p_tc p \<and> same_objects q p \<and> p_gatewayAPIOnHost q = p_gatewayAPIOnHost p \<and>
     trace_ext (storage_reads (p_tc p)) (p_trace p) (p_trace q) \<and>
     (recorded p \<longrightarrow> recorded q) \<and> (heap_kinds p \<longrightarrow> heap_kinds q)"

lemma sg_refl [simp]: "sg_ok p p"
  by (simp add: sg_ok_def same_objects_def)

lemma sg_trans: "sg_ok p q \<Longrightarrow> sg_ok q r \<Longrightarrow> sg_ok p r"
  by (auto simp: sg_ok_def same_objects_def intro: trace_ext_trans)

lemma sg_call:
  "storage_reads (p_tc p) (p_trace p) r \<Longrightarrow> \<not> prune_trouble (r, api env (p_trace p) r) \<Longrightarrow>
   sg_ok p (snd (call env r p))"
  by (auto simp: sg_ok_def trace_ext_one recorded_def)

lemma sg_call_problem:
  "storage_reads (p_tc p) (p_trace p) r \<Longrightarrow> sg_ok p (storageProblem w e (snd (call env r p)))"
  by (simp add: sg_ok_def trace_ext_one) (simp add: heap_kinds_def)

lemma decode_list_no_trouble: "decode_list f r = Inr xs \<Longrightarrow> write_error r = None"
  by (cases r) simp_all

lemma decode_vms_Inr: "decode_vms r = Inr v \<Longrightarrow> r = RVMs v"
  by (cases r) simp_all

lemma storage_reads_simps [simp]:
  "storage_reads tc h (HostList KStorageClass ns sel)"
  "storage_reads tc h (HostList KPVC (host_ns tc) (tenantSelector tc))"
  "storage_reads tc h (VMs (host_ns tc))" "storage_reads tc h (GuestList k sel)"
  by (simp_all add: storage_reads_def storage_guard_def)

text \<open>The storage state of a gather whose lists all succeeded.\<close>

lemma gathered_storage_ok:
  assumes "p_storage p = Some st" and "(VMs (host_ns (p_tc p)), RVMs (st_vms st)) \<in> set (p_trace p)"
    and "(HostList KPVC (host_ns (p_tc p)) (tenantSelector (p_tc p)), RObjs xs) \<in> set (p_trace p)"
    and "list_all2 (\<lambda>x y. to_pvc x = Some y) xs (st_hostPVCs st)"
  shows "storage_ok (upd_storage plugin_wanted (fold (gather_pvc env) pvcs p))" (is "storage_ok ?q")
proof -
  have f: "pvc_frame ?q p" by (simp add: fold_gather_pvc_frame)
  have tr: "p_trace ?q = p_trace p" "p_tc ?q = p_tc p" using f by (simp_all add: pvc_frame_def)
  obtain st' where st': "p_storage ?q = Some st'" "st_hostPVCs st' = st_hostPVCs st" "st_vms st' = st_vms st"
    using f assms(1) by (cases "p_storage ?q") (auto simp: pvc_frame_def)
  have "OPVC y \<in> set xs" if "y \<in> set (st_hostPVCs st)" for y
    using assms(4) that by (fastforce simp: list_all2_conv_all_nth in_set_conv_nth elim: to_pvc.elims)
  then have "OPVC ` set (st_hostPVCs st') \<subseteq> set xs" using st'(2) by auto
  then show ?thesis
    unfolding storage_ok_def tr st'(1) using st'(3) assms(2,3) by auto
qed

lemma gather_storage_listed:
  defines "r1 \<equiv> HostList KStorageClass [] [(LabelTenantOfferable, ''true'')]"
  fixes p :: pass
  assumes p1: "p1 = snd (call env r1 p)"
    and p2: "p2 = snd (call env (HostList KPVC (host_ns (p_tc p)) (tenantSelector (p_tc p))) p1)"
    and p3: "p3 = snd (call env (VMs (host_ns (p_tc p))) p2)"
    and scs: "decode_list to_storage_class (api env (p_trace p) r1) = Inr hostSCs"
    and pvcs: "decode_list to_pvc (api env (p_trace p1)
      (HostList KPVC (host_ns (p_tc p)) (tenantSelector (p_tc p)))) = Inr hostPVCs"
    and vms: "decode_vms (api env (p_trace p2) (VMs (host_ns (p_tc p)))) = Inr vms"
    and s2: "sg_ok p p2"
  shows "sg_ok p (gather_storage_host env guestPVCs pvs gscs vas p) \<and>
     storage_ok (gather_storage_host env guestPVCs pvs gscs vas p)"
proof -
  obtain xs where xs: "api env (p_trace p1) (HostList KPVC (host_ns (p_tc p)) (tenantSelector (p_tc p))) = RObjs xs"
    "list_all2 (\<lambda>x y. to_pvc x = Some y) xs hostPVCs" using pvcs by (rule decode_list_Inr)
  have v: "api env (p_trace p2) (VMs (host_ns (p_tc p))) = RVMs vms" by (rule decode_vms_Inr [OF vms])
  have tc: "p_tc p2 = p_tc p" by (simp add: p1 p2)
  have s3: "sg_ok p p3" unfolding p3 using v by (intro sg_trans [OF s2 sg_call]) (simp_all add: tc)
  define st where "st = empty_storage\<lparr>
    st_guestPVs := fold (\<lambda>x m. put (om_name (pv_meta x)) x m) pvs [], st_guestSCs := gscs,
    st_attachments := filter (\<lambda>va. va_attacher va = DriverName) vas,
    st_offerable := fold (\<lambda>x m. put (om_name (sc_meta x)) x m) hostSCs [],
    st_hostPVCs := hostPVCs, st_vms := vms\<rparr>"
  let ?q = "upd_storage plugin_wanted (fold (gather_pvc env) guestPVCs (p3\<lparr>p_storage := Some st\<rparr>))"
  have q: "gather_storage_host env guestPVCs pvs gscs vas p = ?q"
    using scs pvcs vms by (simp add: gather_storage_host_def Let_def split_beta st_def p1 p2 p3 r1_def)
  have "pvc_frame ?q (p3\<lparr>p_storage := Some st\<rparr>)" by (simp add: fold_gather_pvc_frame)
  then have "sg_ok p3 ?q"
    by (auto simp: sg_ok_def pvc_frame_def same_objects_def recorded_def heap_kinds_def)
  then have "sg_ok p ?q" by (rule sg_trans [OF s3])
  moreover have "storage_ok ?q"
    by (rule gathered_storage_ok [where st = st and xs = xs])
      (use xs v in \<open>simp_all add: st_def p1 p2 p3\<close>)
  ultimately show ?thesis using q by simp
qed

lemma gather_storage_host_ok:
  assumes "p_storage p = None"
  shows "sg_ok p (gather_storage_host env pvcs pvs scs vas p) \<and>
     storage_ok (gather_storage_host env pvcs pvs scs vas p)"
proof -
  let ?tc = "p_tc p"
  let ?r1 = "HostList KStorageClass [] [(LabelTenantOfferable, ''true'')]"
  let ?p1 = "snd (call env ?r1 p)"
  let ?r2 = "HostList KPVC (host_ns ?tc) (tenantSelector ?tc)"
  let ?p2 = "snd (call env ?r2 ?p1)"
  let ?r3 = "VMs (host_ns ?tc)"
  have none: "storage_ok (storageProblem w e q)" if "p_storage q = None" for w e q
    using that by (simp add: storage_ok_def)
  show ?thesis
  proof (cases "decode_list to_storage_class (api env (p_trace p) ?r1)")
    case (Inl e)
    then show ?thesis
      using none assms sg_call_problem [of p ?r1 _ e env]
      by (simp add: gather_storage_host_def Let_def split_beta)
  next
    case scs: (Inr hostSCs)
    have s1: "sg_ok p ?p1"
      using decode_list_no_trouble [OF scs] by (intro sg_call) simp_all
    show ?thesis
    proof (cases "decode_list to_pvc (api env (p_trace ?p1) ?r2)")
      case (Inl e)
      then show ?thesis
        using scs none assms sg_trans [OF s1 sg_call_problem [of ?p1 ?r2 _ e env]]
        by (simp add: gather_storage_host_def Let_def split_beta)
    next
      case pv: (Inr hostPVCs)
      have s2: "sg_ok p ?p2"
        using decode_list_no_trouble [OF pv] by (intro sg_trans [OF s1 sg_call]) simp_all
      show ?thesis
      proof (cases "decode_vms (api env (p_trace ?p2) ?r3)")
        case (Inl e)
        then show ?thesis
          using scs pv none assms sg_trans [OF s2 sg_call_problem [of ?p2 ?r3 _ e env]]
          by (simp add: gather_storage_host_def Let_def split_beta)
      qed (rule gather_storage_listed [OF refl refl refl scs pv _ s2])
    qed
  qed
qed

lemma gatherStorage_ok:
  assumes "p_storage p = None"
  shows "sg_ok p (snd (gatherStorage env p)) \<and> storage_ok (snd (gatherStorage env p))"
proof -
  have l: "sg_ok q (snd (call env (GuestList k sel) q))" for q k sel by (rule sg_call) simp_all
  let ?p1 = "snd (call env (GuestList KPVC []) p)"
  let ?p2 = "snd (call env (GuestList KPV managedSelector) ?p1)"
  let ?p3 = "snd (call env (GuestList KStorageClass managedSelector) ?p2)"
  let ?p4 = "snd (call env (GuestList KVolumeAttachment []) ?p3)"
  have s: "sg_ok p ?p1" "sg_ok p ?p2" "sg_ok p ?p3" "sg_ok p ?p4"
    using l sg_trans by blast+
  have none: "storage_ok q" if "p_storage q = None" for q using that by (simp add: storage_ok_def)
  have h: "sg_ok p (gather_storage_host env a b c d ?p4) \<and> storage_ok (gather_storage_host env a b c d ?p4)" for a b c d
    using gather_storage_host_ok [of ?p4 env a b c d] assms sg_trans [OF s(4)] by simp
  have "sg_ok p (problem m p)" for m
    by (simp add: sg_ok_def same_objects_def)
  moreover have "storage_ok (problem m p)" for m
    using assms by (simp add: storage_ok_def problem_def)
  ultimately show ?thesis
    using s h none assms by (simp add: gatherStorage_def Let_def split_beta split: sum.split)
qed

section \<open>The statuses attachments are given\<close>

definition va_writes :: "pass \<Rightarrow> va_status_write list" where
  "va_writes p = (case p_storage p of None \<Rightarrow> [] | Some st \<Rightarrow> st_vaStatus st)"

definition vms_of :: "pass \<Rightarrow> vm_volumes" where
  "vms_of p = (case p_storage p of None \<Rightarrow> [] | Some st \<Rightarrow> st_vms st)"

text \<open>A write that says attached speaks of a volume some VM has Ready, under its serial.\<close>

definition ready_write :: "vm_volumes \<Rightarrow> va_status_write \<Rightarrow> bool" where
  "ready_write vms w \<longleftrightarrow> (\<exists>vm vols claim vol. map_of vms vm = Some vols \<and>
     map_of vols (VolumeName claim) = Some vol \<and> Phase vol = Ready \<and>
     vs_metadata w = [(''serial'', SerialFor claim)])"

definition writes_ok :: "pass \<Rightarrow> pass \<Rightarrow> bool" where
  "writes_ok p q \<longleftrightarrow> vms_of q = vms_of p \<and>
     set (va_writes q) \<subseteq> set (va_writes p) \<union> {w. \<not> vs_attached w} \<union> {w. ready_write (vms_of p) w}"

lemma writes_ok_refl [simp]: "writes_ok p p"
  by (auto simp: writes_ok_def)

lemma writes_ok_trans: "writes_ok p q \<Longrightarrow> writes_ok q r \<Longrightarrow> writes_ok p r"
  by (auto simp: writes_ok_def)

lemma writes_ok_fold: "(\<And>x q. writes_ok q (f x q)) \<Longrightarrow> writes_ok p (fold f xs p)"
proof (induction xs arbitrary: p)
  case (Cons x xs)
  then show ?case using writes_ok_trans [of p "f x p"] by simp
qed simp

lemma writes_ok_same: "p_storage q = p_storage p \<Longrightarrow> writes_ok p q"
  by (auto simp: writes_ok_def va_writes_def vms_of_def)

lemma writes_ok_storage: "p_storage q = p_storage r \<Longrightarrow> writes_ok p q = writes_ok p r"
  by (simp add: writes_ok_def va_writes_def vms_of_def)

lemma writes_ok_upd:
  "(\<And>st. st_vaStatus (f st) = st_vaStatus st) \<Longrightarrow> (\<And>st. st_vms (f st) = st_vms st) \<Longrightarrow>
   writes_ok p (upd_storage f q) = writes_ok p q"
  by (simp add: writes_ok_def va_writes_def vms_of_def split: option.split)

lemma storage_fields [simp]:
  "p_storage (problem m q) = p_storage q" "p_storage (wantFinalizer ref q) = p_storage q"
  by (simp_all add: problem_def wantFinalizer_def)

lemma guest_call_or_storage [simp]: "p_storage (snd (guest_call_or env r tol what q)) = p_storage q"
  by (simp add: guest_call_or_def Let_def split_beta split: option.split)

lemma writes_ok_set_attachment [simp]: "writes_ok p (set_attachment i va q) = writes_ok p q"
  by (simp add: set_attachment_def writes_ok_upd)

lemma writes_ok_simps [simp]:
  "writes_ok p (snd (call env r q)) = writes_ok p q" "writes_ok p (problem m q) = writes_ok p q"
  "writes_ok p (storageProblem w e q) = writes_ok p q"
  "writes_ok p (snd (guest_call_or env r tol what q)) = writes_ok p q"
  by (rule writes_ok_storage, simp)+

lemma update_attachment_writes [simp]: "writes_ok p (snd (update_attachment env i va what q)) = writes_ok p q"
  by (simp add: update_attachment_def Let_def split_beta split: sum.split)

lemma attach_writes: "p_storage q = Some st' \<Longrightarrow> st_vms st' = st_vms st \<Longrightarrow> writes_ok q (attach env i vm c st q)"
proof -
  assume q: "p_storage q = Some st'" and v: "st_vms st' = st_vms st"
  have add: "writes_ok q (add_vaStatus w r)"
    if "p_storage r = p_storage q" "\<not> vs_attached w \<or> ready_write (st_vms st) w" for w r
    using that q v by (auto simp: add_vaStatus_def writes_ok_def va_writes_def vms_of_def)
  have ready: "ready_write (st_vms st) \<lparr>vs_va = i, vs_attached = True, vs_metadata = [(''serial'', SerialFor c)], vs_errMsg = []\<rparr>"
    if "map_of (st_vms st) vm = Some vols" "map_of vols (VolumeName c) = Some vol" "Phase vol = Ready" for vols vol
    using that by (auto simp: ready_write_def)
  have none: "Phase no_volume \<noteq> Ready" by (simp add: no_volume_def Ready_def)
  show ?thesis
    using none by (auto simp: attach_def Let_def split_beta intro!: add ready split: option.split)
qed

lemma reconcileAttachment_writes: "writes_ok p (reconcileAttachment env i p)"
proof (cases "p_storage p")
  case (Some st)
  have a: "writes_ok p (attach env i vm c st p)" for vm c by (rule attach_writes [OF Some]) simp
  have b: "writes_ok p (attach env i vm c st (snd (update_attachment env i va what p)))" for vm c va what
  proof -
    let ?q = "snd (update_attachment env i va what p)"
    have "step_ok p ?q" by (rule update_attachment_ok)
    then obtain st' where "p_storage ?q = Some st'" "st_vms st' = st_vms st"
      using st_same_storage [OF _ Some] by metis
    then have "writes_ok ?q (attach env i vm c st ?q)" by (rule attach_writes)
    then show ?thesis using writes_ok_trans [of p ?q] by simp
  qed
  have r: "writes_ok p (release_attachment env i va what p)" for va what
    by (simp add: release_attachment_def split_beta)
  have d: "writes_ok p (detach env i va v st p)" for va v
    by (simp add: detach_def Let_def split_beta r split: option.split)
  show ?thesis
    using a b r d by (simp add: reconcileAttachment_def Some Let_def split_beta split: option.split)
qed (simp add: reconcileAttachment_def)

lemma provisionPVC_writes: "writes_ok p (provisionPVC env ref p)"
proof -
  have m: "p_storage (snd (mayTouch x q)) = p_storage q" for x q by (simp add: mayTouch_def)
  have h: "p_storage (snd (provision_host env g n q)) = p_storage q" for g n q
    by (simp add: provision_host_def Let_def split_beta m split: option.split sum.split)
  have v: "writes_ok p (provision_pv env g n st q)" if "p_storage q = p_storage p" for g n st q
    using that writes_ok_same
    by (auto simp: provision_pv_def Let_def split_beta writes_ok_upd split: option.split sum.split)
  show ?thesis
    using v [of p] v [OF h] writes_ok_same [OF h]
    by (simp add: provisionPVC_def Let_def split_beta split: option.split)
qed

lemma applyGuestPlugin_storage: "p_storage (applyGuestPlugin env p) = p_storage p"
  by (simp add: applyGuestPlugin_def apply_driver_def apply_daemon_set_def Let_def split_beta
      split: option.split sum.split)

lemma applyGuestStorageClasses_storage: "p_storage (applyGuestStorageClasses env p) = p_storage p"
proof -
  have "p_storage (apply_class env m x q) = p_storage q" for m x q
    by (simp add: apply_class_def Let_def split_beta split: option.split)
  then have "p_storage (fold (apply_class env m) xs q) = p_storage q" for m xs q by (rule fold_frame)
  then show ?thesis by (simp add: applyGuestStorageClasses_def Let_def split: option.split)
qed

lemma applyStorage_writes: "writes_ok p (applyStorage env p)"
proof -
  let ?p1 = "applyGuestStorageClasses env (applyGuestPlugin env p)"
  have 1: "writes_ok p ?p1"
    by (rule writes_ok_same) (simp add: applyGuestPlugin_storage applyGuestStorageClasses_storage)
  have "writes_ok p (fold (reconcileAttachment env) is (fold (provisionPVC env) rs ?p1))" for "is" rs
    by (rule writes_ok_trans [OF writes_ok_trans [OF 1]])
      (rule writes_ok_fold, rule provisionPVC_writes, rule writes_ok_fold, rule reconcileAttachment_writes)
  then show ?thesis by (simp add: applyStorage_def Let_def split: option.split)
qed

section \<open>Properties\<close>

text \<open>
  Claim C34. The sweep of orphaned volumes, for any VMs and any answers: it only looks up the
  claims of this tenant's namespace, and it only detaches a volume directly after the lookup of the
  claim it is named after found nothing.
\<close>

theorem sweep_detaches_only_orphans:
  "trace_ext (sweep_guard ns) tr (snd (snd (removeOrphanVMVolumes env ns vms tr)))"
  by (rule removeOrphanVMVolumes_guarded)

text \<open>
  Claim C19. A guest VolumeAttachment is only ever reported attached for a volume that the VM
  listing shows Ready in some VM, and with the serial the node plugin will look for: every status
  the storage apply adds either says not attached or is of that kind.
\<close>

theorem attached_only_when_ready:
  "set (va_writes (applyStorage env p)) \<subseteq>
     set (va_writes p) \<union> {w. \<not> vs_attached w} \<union> {w. ready_write (vms_of p) w}"
  using applyStorage_writes [of p env] by (simp add: writes_ok_def)

text \<open>The host side of a guest PVC is gone, as far as the pass has seen.\<close>

definition host_side_gone :: "env \<Rightarrow> guest_ref \<Rightarrow> pass \<Rightarrow> bool" where
  "host_side_gone env ref p \<longleftrightarrow>
     (case (p_storage p, heap_as to_pvc p ref) of
        (Some st, Some pvc) \<Rightarrow>
          let hostName = HostPVCName (p_tc p) (om_uid (pvc_meta pvc)) in
          pv_name pvc \<notin> {n. \<exists>va \<in> set (st_attachments st). va_pvName va = Some n} \<and>
          filter (carries (VolumeName hostName)) (st_vms st) = [] \<and>
          (case find_hostPVC st hostName of
             None \<Rightarrow> True
           | Some x \<Rightarrow> \<not> p_pruneFailed (teardownGuestPVC env ref p) \<and>
               (ownedBy (pvc_meta x) (p_tc p) \<longrightarrow>
                (\<exists>resp. (delete_request (OPVC x), resp) \<in> set (p_trace (teardownGuestPVC env ref p)) \<and>
                   \<not> delete_failed resp)))
      | _ \<Rightarrow> True)"

lemma filter_carries: "\<not> (\<exists>vm \<in> set vms. carries v vm) \<longleftrightarrow> filter (carries v) vms = []"
  by (auto simp: filter_empty_conv)

lemma teardown_pv_keeps:
  "p_pruneFailed (teardown_pv env ref n st q) = p_pruneFailed q"
  "set (p_trace q) \<subseteq> set (p_trace (teardown_pv env ref n st q))"
  by (auto simp: teardown_pv_def guest_call_or_def Let_def split_beta problem_def wantFinalizer_def split: option.split)

text \<open>
  Claim C20. Teardown of a deleted guest PVC, in full: unless it pins the PVC again, no attachment
  refers to its volume, no VM that was listed carries the volume, and the host PVC, if one of this
  tenant was listed, was deleted with success or found gone, and no prune has failed.
\<close>

theorem teardown_pins_until_gone:
  "ref \<in> set (p_wantFinalizer (teardownGuestPVC env ref p)) \<or> host_side_gone env ref p"
proof (cases "p_storage p")
  case st: (Some st)
  show ?thesis
  proof (cases "heap_as to_pvc p ref")
    case pvc: (Some pvc)
    let ?n = "HostPVCName (p_tc p) (om_uid (pvc_meta pvc))"
    let ?att = "\<exists>va \<in> set (st_attachments st). va_pvName va = Some (pv_name pvc)"
    let ?q = "snd (volumeUnplugged env ?n p)"
    have clear: "filter (carries (VolumeName ?n)) (st_vms st) = []" if "fst (volumeUnplugged env ?n p)"
      using volumeUnplugged_clear [OF that st] unfolding filter_carries .
    have tc: "p_tc ?q = p_tc p" by (rule step_tc [OF volumeUnplugged_ok])
    have sent: "\<exists>resp. (delete_request (OPVC x), resp) \<in> set (p_trace (teardown_pv env ref n st (deleteOwned env (OPVC x) ?q))) \<and>
        \<not> delete_failed resp"
      if "ownedBy (pvc_meta x) (p_tc p)" "\<not> p_pruneFailed (deleteOwned env (OPVC x) ?q)" for x n
    proof -
      let ?d = "deleteOwned env (OPVC x) ?q"
      let ?resp = "api env (p_trace ?q) (delete_request (OPVC x))"
      have "\<not> delete_failed ?resp" using that tc by (simp add: deleteOwned_failed)
      moreover have "(delete_request (OPVC x), ?resp) \<in> set (p_trace ?d)" using that(1) tc by (simp add: deleteOwned_trace)
      ultimately show ?thesis using teardown_pv_keeps(2) [of ?d env ref n st] by blast
    qed
    show ?thesis
    proof (cases "?att \<or> \<not> fst (volumeUnplugged env ?n p)")
      case True
      then show ?thesis by (auto simp: teardownGuestPVC_def st pvc Let_def split_beta)
    next
      case False
      then show ?thesis
        using clear sent
        by (auto simp: host_side_gone_def teardownGuestPVC_def st pvc Let_def split_beta teardown_pv_keeps(1)
            split: option.splits if_splits)
    qed
  qed (simp add: host_side_gone_def st)
qed (simp add: host_side_gone_def)

text \<open>
  Claim C40. The handle of a guest PV is taken as it is: for an active, pinned attachment, the
  storage apply asks KubeVirt to plug the PVC of that name in the tenant's namespace, whether or
  not the host PVC is one this controller provisioned (here no host PVC of the tenant is known at
  all).  The guest PV and its label are the tenant's to write.
\<close>

theorem attach_trusts_guest_handle:
  assumes "p_storage p = Some st" and "st_hostPVCs st = []" and "va = st_attachments st ! i"
    and "va_pvName va = Some n" and "attachment_csi st n = Some csi" and "\<not> om_deleting (va_meta va)"
    and "fst (add_finalizer env GuestFinalizer (om_finalizers (va_meta va))) = False"
    and "map_of (st_vms st) (va_node va) = Some vols" and "map_of vols (VolumeName (csi_handle csi)) = None"
  shows "fst (hd (p_trace (reconcileAttachment env i p))) =
     AddVolume (host_ns (p_tc p)) (va_node va) (VolumeName (csi_handle csi)) (csi_handle csi) (SerialFor (csi_handle csi))"
  using assms
  by (simp add: reconcileAttachment_def attach_def Let_def split_beta no_volume_def add_vaStatus_def Ready_def
      split: option.split)

text \<open>
  An orphaned host PVC can be plugged and deleted in one pass: where the guest PVC is
  gone but its PV and an active attachment are not, and no listed VM has the volume, apply sends the
  hotplug and prune, which still looks at the listing made before, sends the delete.
\<close>

theorem orphan_plugged_then_deleted:
  assumes "p_storage p = Some st" and "va = st_attachments st ! i"
    and "va_pvName va = Some n" and "attachment_csi st n = Some csi" and "\<not> om_deleting (va_meta va)"
    and "fst (add_finalizer env GuestFinalizer (om_finalizers (va_meta va))) = False"
    and "map_of (st_vms st) (va_node va) = Some vols"
    and "csi_handle csi = om_name (pvc_meta x)" and "ownedBy (pvc_meta x) (p_tc p)"
    and "at (om_labels (pvc_meta x)) LabelGuestUID \<notin> set (st_pvcUIDs st)"
    and "filter (carries (VolumeName (om_name (pvc_meta x)))) (st_vms st) = []"
  shows "map fst (p_trace (prune_orphan_pvc env x (reconcileAttachment env i p))) =
     [delete_request (OPVC x),
      AddVolume (host_ns (p_tc p)) (va_node va) (VolumeName (csi_handle csi)) (csi_handle csi) (SerialFor (csi_handle csi))] @
     map fst (p_trace p)"
proof -
  let ?q = "reconcileAttachment env i p"
  have vol: "map_of vols (VolumeName (csi_handle csi)) = None"
  proof -
    have "(va_node va, vols) \<in> set (st_vms st)" using assms(7) by (rule map_of_SomeD)
    then have "\<not> carries (VolumeName (om_name (pvc_meta x))) (va_node va, vols)"
      using assms(11) by (simp add: filter_empty_conv)
    then show ?thesis by (simp add: carries_def assms(8) map_of_eq_None_iff)
  qed
  have q: "map fst (p_trace ?q) = AddVolume (host_ns (p_tc p)) (va_node va) (VolumeName (csi_handle csi))
      (csi_handle csi) (SerialFor (csi_handle csi)) # map fst (p_trace p)"
    and s: "p_storage ?q = Some st" and tc: "p_tc ?q = p_tc p"
    using assms(1-7) vol
    by (simp_all add: reconcileAttachment_def attach_def Let_def split_beta no_volume_def add_vaStatus_def Ready_def
        split: option.split)
  have none: "\<not> carries (VolumeName (om_name (pvc_meta x))) vm" if "vm \<in> set (st_vms st)" for vm
    using assms(11) that by (simp add: filter_empty_conv)
  have "unplug env (VolumeName (om_name (pvc_meta x))) vm r = r" if "vm \<in> set (st_vms st)" for vm r
  proof -
    have "map_of (snd vm) (VolumeName (om_name (pvc_meta x))) = None"
      using none [OF that] by (simp add: carries_def map_of_None_keys)
    then show ?thesis by (simp add: unplug_def)
  qed
  then have "fold (unplug env (VolumeName (om_name (pvc_meta x)))) vms r = r" if "set vms \<subseteq> set (st_vms st)" for vms r
    using that by (induction vms) auto
  then have "volumeUnplugged env (om_name (pvc_meta x)) ?q = (True, ?q)"
    using s none by (simp add: volumeUnplugged_def Let_def)
  then show ?thesis
    using s tc q assms(9,10) by (simp add: prune_orphan_pvc_def deleteOwned_trace)
qed

text \<open>The inputs of the two witnesses: one attachment, its PV, one VM without volumes.\<close>

definition ex_attachment :: volume_attachment where
  "ex_attachment = \<lparr>va_meta = (ex_meta ''va1'')\<lparr>om_finalizers := [GuestFinalizer]\<rparr>, va_attacher = DriverName,
     va_node = ''node1'', va_pvName = Some ''pv1'', va_attached = False, va_metadata = [], va_error = None\<rparr>"

definition ex_host_pvc :: pvc where
  "ex_host_pvc = \<lparr>pvc_meta = no_meta\<lparr>om_name := ''disk'', om_uid := ''u-disk'', om_namespace := ''host-t'',
       om_labels := ownershipLabels ex_tc (ex_meta ''gone'')\<rparr>,
     pvc_accessModes = [ReadWriteOnce], pvc_volumeMode = Some ModeBlock, pvc_storage = Some 1, pvc_class = None,
     pvc_volumeName = [], pvc_rest = []\<rparr>"

definition ex_storage :: "pvc list \<Rightarrow> storage_state" where
  "ex_storage hosts = \<lparr>st_offerable = [], st_guestSCs = [],
     st_guestPVs = [(''pv1'', guestPVForClaim ex_host_pvc ''disk'' ''fast'')], st_pvcUIDs = [],
     st_provisionable = [], st_deleting = [], st_attachments = [ex_attachment], st_hostPVCs = hosts,
     st_vms = [(''node1'', [])], st_vaStatus = [], st_pluginWanted = True\<rparr>"

lemma ex_storage_facts:
  "st_attachments (ex_storage hs) ! 0 = ex_attachment" "va_pvName ex_attachment = Some ''pv1''"
  "\<not> om_deleting (va_meta ex_attachment)" "om_finalizers (va_meta ex_attachment) = [GuestFinalizer]"
  "va_node ex_attachment = ''node1''" "map_of (st_vms (ex_storage hs)) ''node1'' = Some []"
  "attachment_csi (ex_storage hs) ''pv1'' = Some \<lparr>csi_driver = DriverName, csi_handle = ''disk'', csi_fsType = ''ext4'',
     csi_attributes = [''serial'' \<mapsto> SerialFor ''disk'']\<rparr>"
  by (simp_all add: ex_storage_def ex_attachment_def attachment_csi_def guestPVForClaim_def ex_meta_def no_meta_def)

theorem attach_trusts_guest_handle_witness:
  "fst (hd (p_trace (reconcileAttachment (ex_env (\<lambda>_ _. ROk)) 0 (ex_pass\<lparr>p_storage := Some (ex_storage [])\<rparr>)))) =
     AddVolume (host_ns ex_tc) ''node1'' (VolumeName ''disk'') ''disk'' (SerialFor ''disk'')"
proof -
  let ?p = "ex_pass\<lparr>p_storage := Some (ex_storage [])\<rparr>"
  have "st_hostPVCs (ex_storage []) = []" by (simp add: ex_storage_def)
  then show ?thesis
    using attach_trusts_guest_handle [where p = ?p and st = "ex_storage []" and va = ex_attachment and i = 0 and
        n = "''pv1''" and csi = "the (attachment_csi (ex_storage []) ''pv1'')" and env = "ex_env (\<lambda>_ _. ROk)" and
        vols = "[]"] ex_storage_facts
    by (simp add: ex_pass_def newPass_def)
qed

theorem orphan_plugged_then_deleted_witness:
  "map fst (p_trace (prune_orphan_pvc (ex_env (\<lambda>_ _. ROk)) ex_host_pvc
       (reconcileAttachment (ex_env (\<lambda>_ _. ROk)) 0 (ex_pass\<lparr>p_storage := Some (ex_storage [ex_host_pvc])\<rparr>)))) =
     [delete_request (OPVC ex_host_pvc),
      AddVolume (host_ns ex_tc) ''node1'' (VolumeName ''disk'') ''disk'' (SerialFor ''disk'')]"
proof -
  let ?p = "ex_pass\<lparr>p_storage := Some (ex_storage [ex_host_pvc])\<rparr>"
  have "ownedBy (pvc_meta ex_host_pvc) ex_tc" "om_name (pvc_meta ex_host_pvc) = ''disk''"
    "st_pvcUIDs (ex_storage hs) = []" "st_vms (ex_storage hs) = [(''node1'', [])]" for hs
    by (simp_all add: ex_host_pvc_def ex_storage_def)
  then show ?thesis
    using orphan_plugged_then_deleted [where p = ?p and st = "ex_storage [ex_host_pvc]" and va = ex_attachment and
        i = 0 and n = "''pv1''" and csi = "the (attachment_csi (ex_storage [ex_host_pvc]) ''pv1'')" and
        env = "ex_env (\<lambda>_ _. ROk)" and vols = "[]" and x = ex_host_pvc]
      ex_storage_facts
    by (simp add: ex_pass_def newPass_def carries_def)
qed

end
