(* ===== verification/Pass.thy ===== *)
theory Pass
  imports StorageInv
begin

text \<open>
  One reconciliation of one tenant, \<open>run\<close> of pass.go: the order of the phases, and what their
  contracts give together.  Every request of a pass is guarded by the history it was made in
  (\<open>pass_guard\<close>), a pass that stops with an error has written nothing on the host, and a failed
  prune is on record when finalizers come to be released.
\<close>

section \<open>The pass\<close>

definition listing_error :: "string \<Rightarrow> api_error \<Rightarrow> string" where
  "listing_error what e = ''listing guest '' @ what @ '': '' @ err_text e"

text \<open>The gathers of Services, Ingresses and Gateway resources.\<close>

definition gather_guest :: "env \<Rightarrow> pass \<Rightarrow> string option \<times> pass" where
  "gather_guest env p =
     (let (e, p) = gatherServices env p in
      case e of
        Some e \<Rightarrow> (Some (listing_error ''services'' e), p)
      | None \<Rightarrow>
          let (e, p) = (if SyncIngresses (p_tc p) then gatherIngresses env p else (None, p)) in
          case e of
            Some e \<Rightarrow> (Some (listing_error ''ingresses'' e), p)
          | None \<Rightarrow>
              let (e, p) = (if SyncGateways (p_tc p) \<and> p_gatewayAPIOnHost p
                            then gatherGateways env p else (None, p)) in
              case e of
                Some e \<Rightarrow> (Some (listing_error ''gateway resources'' e), p)
              | None \<Rightarrow> (None, p))"

definition apply_phase :: "env \<Rightarrow> pass \<Rightarrow> pass" where
  "apply_phase env p =
     (let (ok, p) = ensureHostNamespace env p
      in if ok then applyStorage env (applyAll env p) else p)"

definition limit_and_class :: "env \<Rightarrow> pass \<Rightarrow> pass" where
  "limit_and_class env p = reconcileGuestGatewayClass env (applyAddressLimit env p)"

text \<open>The phases up to the end of pruning, where it is decided which finalizers may go.\<close>

definition prune_phase :: "env \<Rightarrow> pass \<Rightarrow> pass" where
  "prune_phase env p =
     (let p = ensureGuestFinalizers env p;
          p = apply_phase env p;
          p = pruneAll env p
      in pruneStorage env p)"

definition write_phase :: "env \<Rightarrow> pass \<Rightarrow> pass" where
  "write_phase env p =
     (let p = releaseGuestFinalizers env (prune_phase env p);
          p = writeBack env p
      in writeBackStorage env p)"

text \<open>Everything before the first write on the host.\<close>

definition read_phase :: "env \<Rightarrow> pass \<Rightarrow> string option \<times> pass" where
  "read_phase env p =
     (let (e, p) = gather_guest env p in
      case e of
        Some e \<Rightarrow> (Some e, p)
      | None \<Rightarrow>
          let (e, p) = gatherStorage env (limit_and_class env p)
          in (map_option (listing_error ''storage resources'') e, p))"

definition run :: "env \<Rightarrow> pass \<Rightarrow> string option \<times> pass" where
  "run env p =
     (let (e, p) = read_phase env p in
      case e of
        Some e \<Rightarrow> (Some e, p)
      | None \<Rightarrow> (None, write_phase env p))"

section \<open>The guard of a pass\<close>

definition host_kinds :: "kind set" where
  "host_kinds = {KService, KIngress, KGateway, KHTTPRoute, KPVC}"

text \<open>
  A delete names an object with this tenant's labels, as it was listed from this tenant's
  namespace under this tenant's selector, and is preconditioned on its UID; a PVC goes only when
  the VMs that were read did not have its volume.
\<close>

definition delete_ok :: "tenant_cluster \<Rightarrow> event list \<Rightarrow> obj \<Rightarrow> string \<Rightarrow> bool" where
  "delete_ok tc h x uid \<longleftrightarrow> kind_of x \<in> host_kinds \<and> ownedBy (meta_of x) tc \<and>
     uid = om_uid (meta_of x) \<and>
     (\<exists>xs. (HostList (kind_of x) (host_ns tc) (tenantSelector tc), RObjs xs) \<in> set h \<and> x \<in> set xs) \<and>
     (kind_of x = KPVC \<longrightarrow> unplugged tc h (om_name (meta_of x)))"

definition pass_guard :: "tenant_cluster \<Rightarrow> event list \<Rightarrow> request \<Rightarrow> bool" where
  "pass_guard tc h r \<longleftrightarrow> (case r of
     HostGet k ns n \<Rightarrow> True
   | HostList k ns sel \<Rightarrow>
       k = KStorageClass \<or> (k \<in> host_kinds \<and> ns = host_ns tc \<and> sel = tenantSelector tc)
   | HostCreate x \<Rightarrow> (kind_of x \<in> host_kinds \<and> create_ok tc h x) \<or>
       namespace_ok tc h x
   | HostUpdate x \<Rightarrow> kind_of x \<in> synced_kinds \<and> update_ok tc h x
   | HostStatusUpdate x \<Rightarrow> False
   | HostDelete x uid \<Rightarrow> delete_ok tc h x uid
   | AddVolume ns vm vol claim serial \<Rightarrow>
       ns = host_ns tc \<and> vol = VolumeName claim \<and> serial = SerialFor claim
   | RemoveVolume ns vm vol \<Rightarrow> ns = host_ns tc
   | VMs ns \<Rightarrow> ns = host_ns tc
   | GuestGet k ns n \<Rightarrow> True
   | GuestList k sel \<Rightarrow> True
   | GuestCreate x \<Rightarrow> plugin_object x \<or> x \<in> OGatewayClass ` range mirrorGatewayClass \<or> kind_of x = KEvent
   | GuestUpdate x \<Rightarrow> kind_of x \<in> guest_kinds \<union> {KGatewayClass, KVolumeAttachment} \<or> plugin_update_ok h x
   | GuestStatusUpdate x \<Rightarrow> kind_of x \<in> guest_kinds \<union> {KGatewayClass, KVolumeAttachment}
   | GuestDelete x \<Rightarrow> kind_of x \<in> {KStorageClass, KPV, KGatewayClass}
   | Now \<Rightarrow> True)"

lemma synced_host_kinds [simp]: "k \<in> synced_kinds \<Longrightarrow> k \<in> host_kinds" "KPVC \<in> host_kinds"
  by (auto simp: synced_kinds_def host_kinds_def)

lemma synced_not_KPVC: "k \<in> synced_kinds \<Longrightarrow> k \<noteq> KPVC"
  by (auto simp: synced_kinds_def)

lemma pass_guards:
  "guest_lists h r \<Longrightarrow> pass_guard tc h r"
  "host_reads h r \<Longrightarrow> pass_guard tc h r"
  "class_calls h r \<Longrightarrow> pass_guard tc h r"
  "writeback_calls h r \<Longrightarrow> pass_guard tc h r"
  "apply_guard tc h r \<Longrightarrow> pass_guard tc h r"
  "storage_guard tc h r \<Longrightarrow> pass_guard tc h r"
proof -
  show "guest_lists h r \<Longrightarrow> pass_guard tc h r" by (auto simp: guest_lists_def pass_guard_def)
  show "host_reads h r \<Longrightarrow> pass_guard tc h r" by (auto simp: host_reads_def pass_guard_def)
  show "class_calls h r \<Longrightarrow> pass_guard tc h r" by (cases r) (auto simp: class_calls_def pass_guard_def)
  show "writeback_calls h r \<Longrightarrow> pass_guard tc h r" by (cases r) (auto simp: writeback_calls_def pass_guard_def)
  show "apply_guard tc h r \<Longrightarrow> pass_guard tc h r" by (cases r) (auto simp: apply_guard_def pass_guard_def)
  show "storage_guard tc h r \<Longrightarrow> pass_guard tc h r"
    by (cases r) (auto simp: storage_guard_def pass_guard_def delete_ok_def pvc_delete_ok_def host_kinds_def)
qed

lemma prune_pass_guard: "prune_guard p h r \<Longrightarrow> pass_guard (p_tc p) h r"
  by (cases r) (auto simp: prune_guard_def pass_guard_def delete_ok_def dest: synced_not_KPVC)

section \<open>What the gathers leave behind\<close>

text \<open>Store kinds through the gathers.\<close>

definition gathers :: "(pass \<Rightarrow> pass) \<Rightarrow> bool" where
  "gathers f \<longleftrightarrow> (\<forall>p. kept (f p) = kept p \<and> (heap_kinds p \<longrightarrow> heap_kinds (f p)))"

lemma gathers_fold: "(\<And>x. gathers (f x)) \<Longrightarrow> gathers (fold f xs)"
  unfolding gathers_def by (induction xs) auto

lemma heap_kinds_eq: "p_heap q = p_heap p \<Longrightarrow> heap_kinds q = heap_kinds p"
  by (simp add: heap_kinds_def)

lemma heap_kinds_store_iff:
  "kind_of x \<in> guest_kinds \<Longrightarrow> heap_kinds p \<Longrightarrow> heap_kinds (q\<lparr>p_heap := (p_heap p)(ref \<mapsto> x)\<rparr>)"
  by (simp add: heap_kinds_def)

lemma gathers_list_service: "gathers (list_service svc)"
  by (auto simp: gathers_def list_service_def Let_def heap_kinds_def)

lemma gathers_gather_service: "gathers (gather_service ref)"
proof -
  have "p_heap (gather_service ref p) = p_heap p" for p
    by (simp add: gather_service_def Let_def split: option.split sum.split)
  moreover have "kept (gather_service ref p) = kept p" for p
    by (simp add: gather_service_def Let_def split: option.split sum.split)
  ultimately show ?thesis by (simp add: gathers_def heap_kinds_def)
qed

lemma add_backend_kept: "kept (add_backend ns n p) = kept p"
  by (simp add: add_backend_def Let_def split: option.split sum.split)

lemma addBackends_kept [simp]: "kept (addBackends ns ms p) = kept p"
  unfolding addBackends_def by (rule kept_fold) (rule add_backend_kept)

lemma observe_kept [simp]: "kept (observe x p) = kept p"
  by (simp add: observe_def Let_def)

lemma observe_kinds: "kind_of x \<in> guest_kinds \<Longrightarrow> heap_kinds p \<Longrightarrow> heap_kinds (observe x p)"
  by (simp add: observe_def Let_def heap_kinds_def)

lemma desire_kept [simp]:
  "kept (desire_ingress ref ing p) = kept p" "kept (desire_gateway ref gw p) = kept p"
  "kept (desire_route ref rt p) = kept p"
  by (simp_all add: desire_ingress_def desire_gateway_def desire_route_def Let_def split_beta split: option.split)

lemma desire_heap [simp]:
  "p_heap (desire_ingress ref ing p) = p_heap p" "p_heap (desire_gateway ref gw p) = p_heap p"
  "p_heap (desire_route ref rt p) = p_heap p"
  by (simp_all add: desire_ingress_def desire_gateway_def desire_route_def Let_def split_beta split: option.split)

lemma gather_objects_heap:
  "p_heap (gather_ingress ing p) = p_heap (observe (OIngress ing) p)"
  "p_heap (gather_gateway gw p) = p_heap (observe (OGateway gw) p)"
  "p_heap (gather_route rt p) = p_heap (observe (OHTTPRoute rt) p)"
  by (simp_all add: gather_ingress_def gather_gateway_def gather_route_def Let_def)

lemma gather_objects_kept:
  "kept (gather_ingress ing p) = kept p" "kept (gather_gateway gw p) = kept p" "kept (gather_route rt p) = kept p"
  by (simp_all add: gather_ingress_def gather_gateway_def gather_route_def Let_def)

lemma gathersI:
  assumes "\<And>p. kept (f p) = kept p" and "\<And>p. p_heap (f p) = p_heap (observe x p)" and "kind_of x \<in> guest_kinds"
  shows "gathers f"
  unfolding gathers_def
proof (intro allI conjI impI)
  fix p assume "heap_kinds p"
  then have "heap_kinds (observe x p)" by (rule observe_kinds [OF assms(3)])
  then show "heap_kinds (f p)" using heap_kinds_eq [OF assms(2)] by simp
qed (rule assms(1))

lemma gathers_objects: "gathers (gather_ingress ing)" "gathers (gather_gateway gw)" "gathers (gather_route rt)"
  by (rule gathersI [OF gather_objects_kept(1) gather_objects_heap(1)], simp)
    (rule gathersI [OF gather_objects_kept(2) gather_objects_heap(2)], simp,
     rule gathersI [OF gather_objects_kept(3) gather_objects_heap(3)], simp)

lemma gathers_lists:
  "gathers (\<lambda>p. snd (gatherServices env p))" "gathers (\<lambda>p. snd (gatherIngresses env p))"
  "gathers (\<lambda>p. snd (gatherGateways env p))"
proof -
  have f: "gathers (fold list_service xs)" "gathers (fold gather_service rs)" "gathers (fold gather_ingress is)"
    "gathers (fold gather_gateway gs)" "gathers (fold gather_route hs)" for xs rs "is" gs hs
    by (simp_all add: gathers_fold gathers_list_service gathers_gather_service gathers_objects)
  show "gathers (\<lambda>p. snd (gatherServices env p))"
    using f(1,2) by (simp add: gathers_def gatherServices_def Let_def split_beta split: sum.split)
  show "gathers (\<lambda>p. snd (gatherIngresses env p))"
    using f(3) by (simp add: gathers_def gatherIngresses_def Let_def split_beta split: sum.split)
  show "gathers (\<lambda>p. snd (gatherGateways env p))"
    using f(4,5) by (simp add: gathers_def gatherGateways_def Let_def split_beta split: sum.split)
qed

lemma withdrawClaim_kept: "kept (withdrawClaim c p) = kept p \<and> p_heap (withdrawClaim c p) = p_heap p"
  by (simp add: withdrawClaim_def unwantFinalizer_def Let_def split: option.split)

lemma hostObjectExists_kept:
  "kept (snd (hostObjectExists env c p)) = kept p \<and> p_heap (snd (hostObjectExists env c p)) = p_heap p"
  by (simp add: hostObjectExists_def Let_def split_beta split: sum.split)

lemma mark_existing_kept:
  "kept (snd (mark_existing env cs p)) = kept p \<and> p_heap (snd (mark_existing env cs p)) = p_heap p"
proof (induction cs arbitrary: p)
  case (Cons c cs)
  then show ?case using hostObjectExists_kept [of env c p] by (simp add: Let_def split_beta)
qed simp

lemma gathers_limit: "gathers (applyAddressLimit env)"
proof -
  have 1: "kept (fold (refuse_claim msg) cs p) = kept p \<and> p_heap (fold (refuse_claim msg) cs p) = p_heap p" for msg cs p
    by (induction cs arbitrary: p) (simp_all add: refuse_claim_def withdrawClaim_kept)
  have 2: "kept (set_loadBalancers n p) = kept p \<and> p_heap (set_loadBalancers n p) = p_heap p" for n p
    by (simp add: set_loadBalancers_def)
  have "kept (applyAddressLimit env p) = kept p \<and> p_heap (applyAddressLimit env p) = p_heap p" for p
    by (simp add: applyAddressLimit_def Let_def split_beta 1 2 mark_existing_kept)
  then show ?thesis by (simp add: gathers_def heap_kinds_def)
qed

lemma class_step:
  "gather_inv p \<Longrightarrow> gather_inv (reconcileGuestGatewayClass env p)"
  "p_tc (reconcileGuestGatewayClass env p) = p_tc p"
  "kept (reconcileGuestGatewayClass env p) = kept p"
  "heap_kinds (reconcileGuestGatewayClass env p) = heap_kinds p"
  "trace_ext class_calls (p_trace p) (p_trace (reconcileGuestGatewayClass env p))"
proof -
  have q: "same_desired (reconcileGuestGatewayClass env p) p"
    "trace_ext class_calls (p_trace p) (p_trace (reconcileGuestGatewayClass env p))"
    using reconcileGuestGatewayClass_quiet [of p env] by (simp_all add: quiet_def)
  show "gather_inv p \<Longrightarrow> gather_inv (reconcileGuestGatewayClass env p)" by (simp add: same_desired_inv(1) [OF q(1)])
  show "p_tc (reconcileGuestGatewayClass env p) = p_tc p" "kept (reconcileGuestGatewayClass env p) = kept p"
    "heap_kinds (reconcileGuestGatewayClass env p) = heap_kinds p"
    using q(1) by (simp_all add: same_desired_def heap_kinds_def)
qed (simp add: reconcileGuestGatewayClass_quiet [unfolded quiet_def])

section \<open>The contract of the gathers\<close>

text \<open>
  After the gathers: the invariant of the desired state, the store, nothing pruned yet.  Requests
  so far satisfy a guard \<open>Q\<close>.
\<close>

definition gathered :: "(event list \<Rightarrow> request \<Rightarrow> bool) \<Rightarrow> pass \<Rightarrow> pass \<Rightarrow> bool" where
  "gathered Q p q \<longleftrightarrow> gather_inv q \<and> p_tc q = p_tc p \<and> kept q = kept p \<and> heap_kinds q \<and>
     trace_ext Q (p_trace p) (p_trace q)"

lemma gathered_trans: "gathered Q p q \<Longrightarrow> gathered Q q r \<Longrightarrow> gathered Q p r"
  by (auto simp: gathered_def intro: trace_ext_trans)

lemma gathered_mono: "gathered Q p q \<Longrightarrow> (\<And>h r. Q h r \<Longrightarrow> R h r) \<Longrightarrow> gathered R p q"
  by (auto simp: gathered_def intro: trace_ext_mono)

lemma gatheredI:
  "gathers f \<Longrightarrow> gather_inv (f p) \<and> p_tc (f p) = p_tc p \<and> trace_ext Q (p_trace p) (p_trace (f p)) \<Longrightarrow>
   heap_kinds p \<Longrightarrow> gathered Q p (f p)"
  by (simp add: gathers_def gathered_def)

text \<open>The three gathers only list guest objects.\<close>

lemma gather_guest_phase:
  assumes "gather_inv p" and "heap_kinds p" and "p_lbPairs p = []"
  shows "gathered guest_lists p (snd (gather_guest env p))"
proof -
  let ?p1 = "snd (gatherServices env p)"
  have 1: "gathered guest_lists p ?p1"
    by (rule gatheredI [OF gathers_lists(1) gatherServices_phase]) (use assms in simp_all)
  have 2: "gathered guest_lists q (snd (gatherIngresses env q))" if "gathered guest_lists p q" for q
    by (rule gatheredI [OF gathers_lists(2) gatherIngresses_phase]) (use that in \<open>simp_all add: gathered_def\<close>)
  have 3: "gathered guest_lists q (snd (gatherGateways env q))" if "gathered guest_lists p q" for q
    by (rule gatheredI [OF gathers_lists(3) gatherGateways_phase]) (use that in \<open>simp_all add: gathered_def\<close>)
  have 4: "gathered guest_lists p (snd (gatherIngresses env ?p1))" by (rule gathered_trans [OF 1 2 [OF 1]])
  have 5: "gathered guest_lists p (snd (gatherGateways env q))" if "gathered guest_lists p q" for q
    by (rule gathered_trans [OF that 3 [OF that]])
  show ?thesis
    using 1 4 5 [OF 1] 5 [OF 4] by (simp add: gather_guest_def Let_def split_beta split: option.split)
qed

text \<open>Neither the admission of addresses nor the GatewayClass step writes on the host.\<close>

definition hands_off :: "event list \<Rightarrow> request \<Rightarrow> bool" where
  "hands_off h r \<longleftrightarrow> \<not> host_mutation r \<and>
     (case r of GuestCreate x \<Rightarrow> kind_of x = KGatewayClass | GuestUpdate x \<Rightarrow> kind_of x = KGatewayClass
      | GuestStatusUpdate x \<Rightarrow> kind_of x = KGatewayClass | GuestDelete x \<Rightarrow> kind_of x = KGatewayClass
      | _ \<Rightarrow> True)"

definition early_guard :: "tenant_cluster \<Rightarrow> event list \<Rightarrow> request \<Rightarrow> bool" where
  "early_guard tc h r \<longleftrightarrow> hands_off h r \<and> pass_guard tc h r"

lemma early_guards:
  "guest_lists h r \<Longrightarrow> early_guard tc h r" "host_reads h r \<Longrightarrow> early_guard tc h r"
  "class_calls h r \<Longrightarrow> early_guard tc h r" "storage_reads tc h r \<Longrightarrow> early_guard tc h r"
proof -
  show "guest_lists h r \<Longrightarrow> early_guard tc h r" by (auto simp: early_guard_def hands_off_def guest_lists_def pass_guard_def)
  show "host_reads h r \<Longrightarrow> early_guard tc h r" by (auto simp: early_guard_def hands_off_def host_reads_def pass_guard_def)
  show "class_calls h r \<Longrightarrow> early_guard tc h r"
    using pass_guards(3) by (cases r) (auto simp: early_guard_def hands_off_def class_calls_def pass_guard_def)
  show "storage_reads tc h r \<Longrightarrow> early_guard tc h r"
    using pass_guards(6) by (cases r) (auto simp: early_guard_def hands_off_def storage_reads_def)
qed

lemma limit_and_class_phase:
  assumes "gather_inv p" and "heap_kinds p"
  shows "gathered (early_guard (p_tc p)) p (limit_and_class env p)"
proof -
  let ?p1 = "applyAddressLimit env p"
  have "gathered host_reads p ?p1"
    by (rule gatheredI [OF gathers_limit applyAddressLimit_phase]) (use assms in simp_all)
  then have 1: "gathered (early_guard (p_tc p)) p ?p1" by (rule gathered_mono) (rule early_guards(2))
  then have "gathered class_calls ?p1 (limit_and_class env p)"
    by (simp add: gathered_def limit_and_class_def class_step)
  then have "gathered (early_guard (p_tc p)) ?p1 (limit_and_class env p)"
    by (rule gathered_mono) (rule early_guards(3))
  with 1 show ?thesis by (rule gathered_trans)
qed

section \<open>The contract of the write phases\<close>

text \<open>
  What each write phase keeps; \<open>b\<close> says whether the history was free of trouble when the pass
  began, in which case any later trouble is on record.
\<close>

definition pass_inv :: "tenant_cluster \<Rightarrow> bool \<Rightarrow> pass \<Rightarrow> bool" where
  "pass_inv tc b p \<longleftrightarrow> p_tc p = tc \<and> heap_kinds p \<and> storage_ok p \<and> (b \<longrightarrow> recorded p)"

lemma storage_ok_same:
  assumes "p_storage q = p_storage p" and "p_tc q = p_tc p" and "set (p_trace p) \<subseteq> set (p_trace q)" and "storage_ok p"
  shows "storage_ok q"
  using assms unfolding storage_ok_def by (metis subsetD)

lemma recorded_calm:
  assumes "trace_ext Q (p_trace p) (p_trace q)" and "\<And>h r. Q h r \<Longrightarrow> calm r"
    and "p_pruneFailed q = p_pruneFailed p" and "recorded p"
  shows "recorded q"
  using assms by (intro recorded_ext [OF assms(1)]) (auto simp: calm_def)

lemma calm_guards:
  "writeback_calls h r \<Longrightarrow> calm r" "apply_guard tc h r \<Longrightarrow> calm r" "early_guard tc h r \<Longrightarrow> \<not> host_mutation r"
proof -
  show "writeback_calls h r \<Longrightarrow> calm r" by (cases r) (simp_all add: writeback_calls_def)
  show "apply_guard tc h r \<Longrightarrow> calm r" by (cases r) (simp_all add: apply_guard_def calm_def)
qed (simp add: early_guard_def hands_off_def)

lemma pass_inv_calm:
  assumes "pass_inv tc b p" and "trace_ext Q (p_trace p) (p_trace q)" and "\<And>h r. Q h r \<Longrightarrow> calm r"
    and "p_storage q = p_storage p" "p_tc q = p_tc p" "p_pruneFailed q = p_pruneFailed p" "heap_kinds q"
  shows "pass_inv tc b q"
  using assms storage_ok_same [of q p] trace_ext_subset [OF assms(2)] recorded_calm [of Q p q]
  by (simp add: pass_inv_def)

lemma keeps_writeback:
  assumes "\<And>p. heap_kinds p \<Longrightarrow> wb_ok p (f p)"
  shows "keeps (pass_inv tc b) (pass_guard tc) f"
proof
  fix p assume i: "pass_inv tc b p"
  then have w: "wb_ok p (f p)" using assms by (simp add: pass_inv_def)
  then have t: "trace_ext writeback_calls (p_trace p) (p_trace (f p))" and fr: "wb_frame (f p) p" and h: "heap_kinds (f p)"
    by (simp_all add: wb_ok_def)
  have "pass_inv tc b (f p)"
    by (rule pass_inv_calm [OF i t calm_guards(1)]) (use fr h in \<open>simp_all add: wb_frame_def\<close>)
  moreover have "trace_ext (pass_guard tc) (p_trace p) (p_trace (f p))"
    using t by (rule trace_ext_mono) (rule pass_guards(4))
  ultimately show "pass_inv tc b (f p) \<and> trace_ext (pass_guard tc) (p_trace p) (p_trace (f p))" ..
qed

lemma keeps_storage:
  assumes "\<And>p. storage_ok p \<Longrightarrow> step_ok p (f p)"
  shows "keeps (pass_inv tc b) (pass_guard tc) f"
proof
  fix p assume i: "pass_inv tc b p"
  then have s: "step_ok p (f p)" and ok: "storage_ok p" using assms by (simp_all add: pass_inv_def)
  have "pass_inv tc b (f p)"
    using i s storage_ok_step [OF s ok] by (auto simp: pass_inv_def step_ok_def st_same_def heap_kinds_def)
  moreover have "trace_ext (storage_guard tc) (p_trace p) (p_trace (f p))"
    using s i by (simp add: step_ok_def pass_inv_def)
  then have "trace_ext (pass_guard tc) (p_trace p) (p_trace (f p))"
    by (rule trace_ext_mono) (rule pass_guards(6))
  ultimately show "pass_inv tc b (f p) \<and> trace_ext (pass_guard tc) (p_trace p) (p_trace (f p))" ..
qed

lemma keeps_pruneAll: "keeps (pass_inv tc b) (pass_guard tc) (pruneAll env)"
proof
  fix p assume i: "pass_inv tc b p"
  let ?q = "pruneAll env p"
  have f: "prune_frame ?q p" and t: "trace_ext (prune_guard p) (p_trace p) (p_trace ?q)"
    using pruneAll_phase by blast+
  have "storage_ok ?q"
    by (rule storage_ok_same [of ?q p]) (use f t trace_ext_subset i in \<open>auto simp: prune_frame_def pass_inv_def\<close>)
  then have "pass_inv tc b ?q"
    using i f recorded_pruneAll [of p env] by (simp add: pass_inv_def prune_frame_def heap_kinds_def)
  moreover have "trace_ext (pass_guard tc) (p_trace p) (p_trace ?q)"
    using t by (rule trace_ext_mono) (use i prune_pass_guard in \<open>auto simp: pass_inv_def\<close>)
  ultimately show "pass_inv tc b ?q \<and> trace_ext (pass_guard tc) (p_trace p) (p_trace ?q)" ..
qed

text \<open>Applying needs the desired state as the gathers left it.\<close>

definition desired_inv :: "tenant_cluster \<Rightarrow> bool \<Rightarrow> pass \<Rightarrow> bool" where
  "desired_inv tc b p \<longleftrightarrow> pass_inv tc b p \<and> desired_ok p"

lemma desired_ok_same: "same_objects q p \<Longrightarrow> p_tc q = p_tc p \<Longrightarrow> desired_ok p \<Longrightarrow> desired_ok q"
  by (simp add: desired_ok_def same_objects_def)

lemma apply_framed:
  assumes "pass_inv tc b p" and "same_frame q p" and "trace_ext (apply_guard (p_tc p)) (p_trace p) (p_trace q)"
  shows "pass_inv tc b q \<and> trace_ext (pass_guard tc) (p_trace p) (p_trace q)"
proof -
  have tc: "p_tc p = tc" using assms(1) by (simp add: pass_inv_def)
  have "pass_inv tc b q"
    by (rule pass_inv_calm [OF assms(1,3) calm_guards(2)])
      (use assms(1,2) in \<open>simp_all add: same_frame_def pass_inv_def heap_kinds_def\<close>)
  moreover have "trace_ext (pass_guard tc) (p_trace p) (p_trace q)"
    using assms(3) unfolding tc by (rule trace_ext_mono) (rule pass_guards(5))
  ultimately show ?thesis ..
qed

lemma apply_phase_ok:
  assumes "desired_inv tc b p"
  shows "pass_inv tc b (apply_phase env p) \<and> trace_ext (pass_guard tc) (p_trace p) (p_trace (apply_phase env p))"
proof -
  let ?p1 = "snd (ensureHostNamespace env p)" and ?p2 = "applyAll env (snd (ensureHostNamespace env p))"
  have i: "pass_inv tc b p" and d: "desired_ok p" using assms by (simp_all add: desired_inv_def)
  note n = ensureHostNamespace_phase [of env p]
  have 1: "pass_inv tc b ?p1 \<and> trace_ext (pass_guard tc) (p_trace p) (p_trace ?p1)"
    using n by (intro apply_framed [OF i]) simp_all
  have "desired_ok ?p1" by (rule desired_ok_same [OF _ _ d]) (use n in \<open>simp_all add: same_frame_def\<close>)
  then have 2: "pass_inv tc b ?p2 \<and> trace_ext (pass_guard tc) (p_trace ?p1) (p_trace ?p2)"
    using applyAll_phase 1 by (intro apply_framed) simp_all
  have k: "keeps (pass_inv tc b) (pass_guard tc) (applyStorage env)" by (rule keeps_storage) (rule applyStorage_ok)
  have 3: "pass_inv tc b (applyStorage env ?p2)"
    "trace_ext (pass_guard tc) (p_trace ?p2) (p_trace (applyStorage env ?p2))"
    using keepsD [OF k] 2 by blast+
  have 4: "trace_ext (pass_guard tc) (p_trace p) (p_trace ?p2)" using 1 2 by (blast intro: trace_ext_trans)
  show ?thesis
    using 1 3(1) trace_ext_trans [OF 3(2) 4] by (simp add: apply_phase_def Let_def split_beta)
qed

lemma keeps_ensure: "keeps (pass_inv tc b) (pass_guard tc) (ensureGuestFinalizers env)"
  by (rule keeps_writeback) (rule ensureGuestFinalizers_ok)

text \<open>The phases after applying, under one contract.\<close>

definition settle :: "env \<Rightarrow> pass \<Rightarrow> pass" where
  "settle env p = writeBackStorage env (writeBack env (releaseGuestFinalizers env (pruneStorage env (pruneAll env p))))"

lemma keeps_settle: "keeps (pass_inv tc b) (pass_guard tc) (settle env)"
proof -
  have k: "keeps (pass_inv tc b) (pass_guard tc) (pruneStorage env)"
    "keeps (pass_inv tc b) (pass_guard tc) (releaseGuestFinalizers env)"
    "keeps (pass_inv tc b) (pass_guard tc) (writeBack env)"
    "keeps (pass_inv tc b) (pass_guard tc) (writeBackStorage env)"
    by (rule keeps_storage, erule pruneStorage_ok, rule keeps_writeback, erule releaseGuestFinalizers_ok,
        rule keeps_writeback, erule writeBack_ok, rule keeps_storage, rule writeBackStorage_ok)
  show ?thesis
    unfolding settle_def [abs_def]
    by (rule keeps_comp [OF keeps_comp [OF keeps_comp [OF keeps_comp [OF keeps_pruneAll k(1)] k(2)] k(3)] k(4)])
qed

interpretation settle: guarded_phase "pass_inv tc b" "pass_guard tc" "settle env" for tc b env
  by unfold_locales (rule keeps_settle)

interpretation ensure: guarded_phase "pass_inv tc b" "pass_guard tc" "ensureGuestFinalizers env" for tc b env
  by unfold_locales (rule keeps_ensure)

lemma write_phase_split: "write_phase env p = settle env (apply_phase env (ensureGuestFinalizers env p))"
  by (simp add: write_phase_def prune_phase_def settle_def Let_def)

lemma write_phase_ok:
  assumes "desired_inv tc b p"
  shows "pass_inv tc b (write_phase env p) \<and> trace_ext (pass_guard tc) (p_trace p) (p_trace (write_phase env p))"
proof -
  let ?p1 = "ensureGuestFinalizers env p"
  have i: "pass_inv tc b p" and d: "desired_ok p" using assms by (simp_all add: desired_inv_def)
  have 1: "pass_inv tc b ?p1" "trace_ext (pass_guard tc) (p_trace p) (p_trace ?p1)"
    by (rule ensure.invariant [OF i], rule ensure.extends [OF i])
  have "wb_frame ?p1 p" using ensureGuestFinalizers_ok i by (simp add: pass_inv_def wb_ok_def)
  then have "desired_inv tc b ?p1"
    using 1(1) desired_ok_same [OF _ _ d] by (simp add: desired_inv_def wb_frame_def)
  note 2 = apply_phase_ok [OF this, of env]
  have 3: "trace_ext (pass_guard tc) (p_trace p) (p_trace (apply_phase env ?p1))"
    using 1(2) 2 by (blast intro: trace_ext_trans)
  show ?thesis
    using settle.invariant settle.extends 2 trace_ext_trans [OF settle.extends 3] unfolding write_phase_split by blast
qed

section \<open>The contract of the pass\<close>

lemma newPass_simps [simp]:
  "p_tc (newPass tc gw fams hot images tr) = tc" "p_trace (newPass tc gw fams hot images tr) = tr"
  "p_lbPairs (newPass tc gw fams hot images tr) = []" "heap_kinds (newPass tc gw fams hot images tr)"
  "p_storage (newPass tc gw fams hot images tr) = None" "\<not> p_pruneFailed (newPass tc gw fams hot images tr)"
  by (simp_all add: newPass_def heap_kinds_def)

text \<open>The desired state, when every guest list succeeded.\<close>

definition desired_state :: "env \<Rightarrow> pass \<Rightarrow> pass option" where
  "desired_state env p =
     (case gather_guest env p of (Some e, q) \<Rightarrow> None | (None, q) \<Rightarrow> Some (limit_and_class env q))"

lemma gather_guest_new:
  "gathered (early_guard tc) (newPass tc gw fams hot images tr)
     (snd (gather_guest env (newPass tc gw fams hot images tr)))"
  by (rule gathered_mono [OF gather_guest_phase]) (simp_all add: early_guards(1))

lemma limit_and_class_new:
  "gathered (early_guard tc) (newPass tc gw fams hot images tr)
     (limit_and_class env (snd (gather_guest env (newPass tc gw fams hot images tr))))"
proof -
  let ?p = "snd (gather_guest env (newPass tc gw fams hot images tr))"
  note 1 = gather_guest_new [of tc gw fams hot images tr env]
  then have g: "gather_inv ?p" "heap_kinds ?p" "p_tc ?p = tc" by (simp_all add: gathered_def)
  show ?thesis by (rule gathered_trans [OF 1 limit_and_class_phase [OF g(1,2), unfolded g(3)]])
qed

lemma guest_lists_calm: "guest_lists h r \<Longrightarrow> calm r"
  by (auto simp: guest_lists_def)

lemma host_reads_calm: "host_reads h r \<Longrightarrow> calm r"
  by (auto simp: host_reads_def)

lemma class_calls_calm: "class_calls h r \<Longrightarrow> calm r"
  by (cases r) (simp_all add: class_calls_def)

text \<open>The read phase: nothing written on the host, and what the write phase builds on.\<close>

lemma read_phase_ok:
  fixes env tc gw fams hot images tr
  defines "q \<equiv> snd (read_phase env (newPass tc gw fams hot images tr))"
  shows "trace_ext (early_guard tc) tr (p_trace q) \<and>
     (fst (read_phase env (newPass tc gw fams hot images tr)) = None \<longrightarrow>
        desired_inv tc (\<forall>e \<in> set tr. \<not> prune_trouble e) q)"
proof -
  let ?new = "newPass tc gw fams hot images tr"
  let ?p1 = "snd (gather_guest env ?new)"
  let ?p2 = "limit_and_class env ?p1"
  let ?p3 = "snd (gatherStorage env ?p2)"
  note g1 = gather_guest_new [of tc gw fams hot images tr env]
  note g2 = limit_and_class_new [of tc gw fams hot images tr env]
  have t1: "trace_ext (early_guard tc) tr (p_trace ?p1)" and t2: "trace_ext (early_guard tc) tr (p_trace ?p2)"
    and tc2: "p_tc ?p2 = tc" and st2: "p_storage ?p2 = None" and pf2: "p_pruneFailed ?p2 = False"
    and h2: "heap_kinds ?p2" and d2: "desired_ok ?p2"
    using g1 g2 by (simp_all add: gathered_def kept_def gather_inv_def core_inv_def)
  from gatherStorage_ok [OF st2, of env] have sg: "sg_ok ?p2 ?p3" and ok: "storage_ok ?p3" by blast+
  have tc3: "p_tc ?p3 = tc" and h3: "heap_kinds ?p3" using sg tc2 h2 by (simp_all add: sg_ok_def)
  have "trace_ext (early_guard tc) (p_trace ?p2) (p_trace ?p3)"
    using sg [unfolded sg_ok_def tc2] early_guards(4) by (blast intro: trace_ext_mono)
  then have t3: "trace_ext (early_guard tc) tr (p_trace ?p3)" by (rule trace_ext_trans) (rule t2)
  have d3: "desired_ok ?p3" by (rule desired_ok_same [OF _ _ d2]) (use sg in \<open>simp_all add: sg_ok_def\<close>)
  have rec: "recorded ?p3" if clean: "\<forall>e \<in> set tr. \<not> prune_trouble e"
  proof -
    have t: "trace_ext guest_lists (p_trace ?new) (p_trace ?p1)"
      using gather_guest_phase [of ?new env] by (simp add: gathered_def)
    have k: "p_pruneFailed ?p1 = p_pruneFailed ?new" using g1 by (simp add: gathered_def kept_def)
    have "recorded ?new" using clean by (simp add: recorded_def)
    from recorded_calm [OF t guest_lists_calm k this] have 1: "recorded ?p1" .
    have "gathered host_reads ?p1 (applyAddressLimit env ?p1)"
      using g1 by (intro gatheredI [OF gathers_limit applyAddressLimit_phase]) (simp_all add: gathered_def)
    then have t: "trace_ext host_reads (p_trace ?p1) (p_trace (applyAddressLimit env ?p1))"
      and k: "p_pruneFailed (applyAddressLimit env ?p1) = p_pruneFailed ?p1" by (simp_all add: gathered_def kept_def)
    from recorded_calm [OF t host_reads_calm k 1] have 2: "recorded (applyAddressLimit env ?p1)" .
    have k: "p_pruneFailed ?p2 = p_pruneFailed (applyAddressLimit env ?p1)"
      using class_step(3) [of env "applyAddressLimit env ?p1"] by (simp add: limit_and_class_def kept_def)
    from recorded_calm [OF class_step(5) class_calls_calm k [unfolded limit_and_class_def] 2]
    have "recorded ?p2" by (simp add: limit_and_class_def)
    then show ?thesis using sg by (simp add: sg_ok_def)
  qed
  have inv: "desired_inv tc (\<forall>e \<in> set tr. \<not> prune_trouble e) ?p3"
    using tc3 h3 ok d3 rec by (simp add: desired_inv_def pass_inv_def)
  show ?thesis
    using t1 t3 inv unfolding q_def
    by (simp add: read_phase_def Let_def split_beta split: option.split)
qed

lemma run_guarded:
  "trace_ext (pass_guard tc) tr (p_trace (snd (run env (newPass tc gw fams hot images tr))))"
proof -
  let ?q = "snd (read_phase env (newPass tc gw fams hot images tr))"
  note r = read_phase_ok [of tc tr env gw fams hot images]
  have 1: "trace_ext (pass_guard tc) tr (p_trace ?q)"
    using conjunct1 [OF r] by (rule trace_ext_mono) (simp add: early_guard_def)
  show ?thesis
  proof (cases "fst (read_phase env (newPass tc gw fams hot images tr))")
    case None
    then have "desired_inv tc (\<forall>e \<in> set tr. \<not> prune_trouble e) ?q" using r by simp
    from write_phase_ok [OF this, of env] have "trace_ext (pass_guard tc) (p_trace ?q) (p_trace (write_phase env ?q))" ..
    then have "trace_ext (pass_guard tc) tr (p_trace (write_phase env ?q))" by (rule trace_ext_trans) (rule 1)
    then show ?thesis using None by (simp add: run_def Let_def split_beta)
  next
    case (Some e)
    then show ?thesis using 1 by (simp add: run_def Let_def split_beta)
  qed
qed

lemma run_guarded_mono:
  "(\<And>h r. pass_guard tc h r \<Longrightarrow> Q h r) \<Longrightarrow>
   trace_ext Q tr (p_trace (snd (run env (newPass tc gw fams hot images tr))))"
  by (rule trace_ext_mono [OF run_guarded])

text \<open>The views of the guard that the properties state.\<close>

definition guards_deletes :: "tenant_cluster \<Rightarrow> event list \<Rightarrow> request \<Rightarrow> bool" where
  "guards_deletes tc h r \<longleftrightarrow> (case r of HostDelete x uid \<Rightarrow> delete_ok tc h x uid | _ \<Rightarrow> True)"

definition guards_writes :: "tenant_cluster \<Rightarrow> event list \<Rightarrow> request \<Rightarrow> bool" where
  "guards_writes tc h r \<longleftrightarrow> (case r of
     HostCreate x \<Rightarrow> (kind_of x \<in> host_kinds \<and> create_ok tc h x) \<or>
       namespace_ok tc h x
   | HostUpdate x \<Rightarrow> kind_of x \<in> synced_kinds \<and> update_ok tc h x
   | HostStatusUpdate x \<Rightarrow> False
   | AddVolume ns vm vol claim serial \<Rightarrow>
       ns = host_ns tc \<and> vol = VolumeName claim \<and> serial = SerialFor claim
   | RemoveVolume ns vm vol \<Rightarrow> ns = host_ns tc
   | _ \<Rightarrow> True)"

text \<open>Kinds a tenant's workloads live in are updated, never created or deleted.\<close>

definition guards_guest :: "event list \<Rightarrow> request \<Rightarrow> bool" where
  "guards_guest h r \<longleftrightarrow> (case r of
     GuestCreate x \<Rightarrow> plugin_object x \<or> x \<in> OGatewayClass ` range mirrorGatewayClass \<or> kind_of x = KEvent
   | GuestUpdate x \<Rightarrow> kind_of x \<in> guest_kinds \<union> {KGatewayClass, KVolumeAttachment} \<or> plugin_update_ok h x
   | GuestStatusUpdate x \<Rightarrow> kind_of x \<in> guest_kinds \<union> {KGatewayClass, KVolumeAttachment}
   | GuestDelete x \<Rightarrow> kind_of x \<in> {KStorageClass, KPV, KGatewayClass}
   | _ \<Rightarrow> True)"

text \<open>What was sent when the finalizers come to be released.\<close>

definition at_release :: "env \<Rightarrow> pass \<Rightarrow> pass option" where
  "at_release env p =
     (case read_phase env p of (Some e, q) \<Rightarrow> None | (None, q) \<Rightarrow> Some (prune_phase env q))"

lemma prune_phase_ok:
  assumes "desired_inv tc b p"
  shows "pass_inv tc b (prune_phase env p)"
proof -
  let ?p1 = "ensureGuestFinalizers env p"
  have i: "pass_inv tc b p" and d: "desired_ok p" using assms by (simp_all add: desired_inv_def)
  have "wb_frame ?p1 p" using ensureGuestFinalizers_ok i by (simp add: pass_inv_def wb_ok_def)
  then have "desired_inv tc b ?p1"
    using ensure.invariant [OF i, of env] desired_ok_same [OF _ _ d] by (simp add: desired_inv_def wb_frame_def)
  from apply_phase_ok [OF this, of env] have a: "pass_inv tc b (apply_phase env ?p1)" ..
  have k: "keeps (pass_inv tc b) (pass_guard tc) (pruneStorage env)" by (rule keeps_storage) (rule pruneStorage_ok)
  show ?thesis using keepsD(1) [OF k keepsD(1) [OF keeps_pruneAll a]] by (simp add: prune_phase_def Let_def)
qed

lemma release_recorded: "recorded p \<Longrightarrow> releaseGuestFinalizers env p = p \<or> filter prune_trouble (p_trace p) = []"
  by (auto simp: recorded_def releaseGuestFinalizers_def filter_empty_conv)

section \<open>Who is seen holding the finalizer\<close>

text \<open>The Services noted as holders, and the guest Services in the store.\<close>

definition noted_services :: "pass \<Rightarrow> guest_ref set" where
  "noted_services p = {ref \<in> set (p_seenFinalizer p). ref_kind ref = KService}"

definition stored_services :: "pass \<Rightarrow> guest_ref \<Rightarrow> obj option" where
  "stored_services p = p_heap p |` {ref. ref_kind ref = KService}"

text \<open>A LoadBalancer of the tenant's class with the finalizer on.\<close>

definition pinned_load_balancer :: "tenant_cluster \<Rightarrow> obj option \<Rightarrow> bool" where
  "pinned_load_balancer tc x \<longleftrightarrow> (\<exists>svc. x = Some (OService svc) \<and> wantsLoadBalancer tc svc \<and>
     GuestFinalizer \<in> set (om_finalizers (svc_meta svc)))"

text \<open>The fields these read; what changes neither is left alone by the gathers of other kinds.\<close>

definition hfields :: "pass \<Rightarrow> guest_ref list \<times> (guest_ref \<Rightarrow> obj option) \<times> tenant_cluster" where
  "hfields p = (p_seenFinalizer p, p_heap p, p_tc p)"

definition service_view :: "pass \<Rightarrow> guest_ref set \<times> (guest_ref \<Rightarrow> obj option) \<times> tenant_cluster" where
  "service_view p = (noted_services p, stored_services p, p_tc p)"

lemma service_view_fields: "hfields q = hfields p \<Longrightarrow> service_view q = service_view p"
  by (simp add: hfields_def service_view_def noted_services_def stored_services_def)

lemma hfields_simps [simp]:
  "hfields (refuse ref m p) = hfields p" "hfields (wantFinalizer ref p) = hfields p"
  "hfields (problem m p) = hfields p" "hfields (inScope ref b p) = hfields p"
  "hfields (snd (call env r p)) = hfields p"
  "hfields (p\<lparr>p_services := a1\<rparr>) = hfields p" "hfields (p\<lparr>p_ingresses := a2\<rparr>) = hfields p"
  "hfields (p\<lparr>p_gateways := a3\<rparr>) = hfields p" "hfields (p\<lparr>p_routes := a4\<rparr>) = hfields p"
  "hfields (p\<lparr>p_backendNeeded := a6\<rparr>) = hfields p" "hfields (p\<lparr>p_guestObjs := a8\<rparr>) = hfields p"
  "hfields (p\<lparr>p_hostOwner := a7\<rparr>) = hfields p" "hfields (p\<lparr>p_lbPairs := a9\<rparr>) = hfields p"
  "hfields (p\<lparr>p_ingressPairs := a10\<rparr>) = hfields p" "hfields (p\<lparr>p_gatewayPairs := a11\<rparr>) = hfields p"
  by (simp_all add: hfields_def refuse_def wantFinalizer_def problem_def inScope_def)

lemma hfields_fold: "(\<And>x q. hfields (f x q) = hfields q) \<Longrightarrow> hfields (fold f xs p) = hfields p"
  by (rule fold_frame)

lemma hfields_refusals [simp]: "hfields (fold (refuse ref) ms p) = hfields p"
  by (rule hfields_fold) simp

lemma hfields_backends [simp]: "hfields (addBackends ns ms p) = hfields p"
  unfolding addBackends_def
  by (rule hfields_fold) (simp add: add_backend_def Let_def split: option.split sum.split)

lemma hfields_desire [simp]:
  "hfields (desire_ingress ref ing p) = hfields p" "hfields (desire_gateway ref gw p) = hfields p"
  "hfields (desire_route ref rt p) = hfields p"
  by (simp_all add: desire_ingress_def desire_gateway_def desire_route_def Let_def split_beta split: option.split)

lemma seen_note:
  "p_seenFinalizer (noteFinalizerHolder m ref p) =
     p_seenFinalizer p @ (if GuestFinalizer \<in> set (om_finalizers m) then [ref] else [])"
  by (simp add: noteFinalizerHolder_def)

lemma note_frame [simp]:
  "p_heap (noteFinalizerHolder m ref p) = p_heap p" "p_tc (noteFinalizerHolder m ref p) = p_tc p"
  by (simp_all add: noteFinalizerHolder_def)

lemma service_view_observe: "kind_of x \<noteq> KService \<Longrightarrow> service_view (observe x p) = service_view p"
  by (auto simp: service_view_def noted_services_def stored_services_def observe_def Let_def seen_note store_def
      ref_of_def restrict_map_def)

lemma service_view_objects:
  "service_view (gather_ingress ing p) = service_view p" "service_view (gather_gateway gw p) = service_view p"
  "service_view (gather_route rt p) = service_view p"
proof -
  have "hfields (gather_ingress ing p) = hfields (observe (OIngress ing) p)"
    "hfields (gather_gateway gw p) = hfields (observe (OGateway gw) p)"
    "hfields (gather_route rt p) = hfields (observe (OHTTPRoute rt) p)"
    by (simp_all add: gather_ingress_def gather_gateway_def gather_route_def Let_def)
  note this [THEN service_view_fields]
  then show "service_view (gather_ingress ing p) = service_view p" "service_view (gather_gateway gw p) = service_view p"
    "service_view (gather_route rt p) = service_view p"
    by (simp_all add: service_view_observe)
qed

text \<open>One Service: it is noted exactly if it is such a LoadBalancer; the store stays.\<close>

lemma gather_service_holders:
  "p_heap (gather_service ref p) = p_heap p" "p_tc (gather_service ref p) = p_tc p"
  "set (p_seenFinalizer (gather_service ref p)) =
     set (p_seenFinalizer p) \<union> (if pinned_load_balancer (p_tc p) (p_heap p ref) then {ref} else {})"
proof -
  show "p_heap (gather_service ref p) = p_heap p" "p_tc (gather_service ref p) = p_tc p"
    by (simp_all add: gather_service_def Let_def split: option.split sum.split)
  show "set (p_seenFinalizer (gather_service ref p)) =
      set (p_seenFinalizer p) \<union> (if pinned_load_balancer (p_tc p) (p_heap p ref) then {ref} else {})"
  proof (cases "heap_as to_service p ref")
    case None
    then have "\<not> pinned_load_balancer (p_tc p) (p_heap p ref)"
      using heap_as_service [of p ref] by (auto simp: pinned_load_balancer_def)
    then show ?thesis using None by (simp add: gather_service_def)
  next
    case (Some svc)
    have h: "p_heap p ref = Some (OService svc)" using Some by (simp add: heap_as_service)
    have "p_seenFinalizer (gather_service ref p) =
        (if wantsLoadBalancer (p_tc p) svc then p_seenFinalizer (noteFinalizerHolder (svc_meta svc) ref p)
         else p_seenFinalizer p)"
      using Some by (simp add: gather_service_def Let_def wantFinalizer_def refuse_def inScope_def split: sum.split)
    then show ?thesis using h by (simp add: seen_note pinned_load_balancer_def)
  qed
qed

lemma gather_services_holders:
  "p_heap (fold gather_service refs p) = p_heap p \<and> p_tc (fold gather_service refs p) = p_tc p \<and>
   set (p_seenFinalizer (fold gather_service refs p)) =
     set (p_seenFinalizer p) \<union> {ref \<in> set refs. pinned_load_balancer (p_tc p) (p_heap p ref)}"
  by (induction refs arbitrary: p) (auto simp: gather_service_holders)

text \<open>Listing the Services fills store and \<open>guestSvcs\<close> alike.\<close>

definition listed :: "pass \<Rightarrow> bool" where
  "listed p \<longleftrightarrow> {ref. p_heap p ref \<noteq> None} = set (p_guestSvcs p) \<and> (\<forall>ref \<in> set (p_guestSvcs p). ref_kind ref = KService) \<and>
     p_seenFinalizer p = []"

lemma listed_services: "listed p \<Longrightarrow> listed (fold list_service xs p)"
proof (induction xs arbitrary: p)
  case (Cons x xs)
  have "listed (list_service x p)"
    using Cons.prems by (auto simp: listed_def list_service_def Let_def store_def ref_of_def)
  then show ?case using Cons.IH by simp
qed simp

lemma services_exact:
  assumes "p_heap p = Map.empty" and "p_guestSvcs p = []" and "p_seenFinalizer p = []"
  shows "noted_services (snd (gatherServices env p)) =
     {ref. ref_kind ref = KService \<and> SyncServices (p_tc p) \<and>
        pinned_load_balancer (p_tc p) (p_heap (snd (gatherServices env p)) ref)} \<and>
     p_tc (snd (gatherServices env p)) = p_tc p"
proof -
  let ?p = "snd (call env (GuestList KService []) p)"
  show ?thesis
  proof (cases "decode_list to_service (api env (p_trace p) (GuestList KService []))")
    case (Inl e)
    then show ?thesis
      using assms by (simp add: gatherServices_def Let_def split_beta noted_services_def pinned_load_balancer_def)
  next
    case (Inr items)
    let ?q = "fold list_service items ?p"
    have "listed ?q" by (rule listed_services) (use assms in \<open>simp add: listed_def\<close>)
    then have l: "{ref. p_heap ?q ref \<noteq> None} = set (p_guestSvcs ?q)" "p_seenFinalizer ?q = []"
      "\<forall>ref \<in> set (p_guestSvcs ?q). ref_kind ref = KService" by (simp_all add: listed_def)
    have tc: "p_tc ?q = p_tc ?p" by (rule fold_frame) (simp add: list_service_def Let_def store_def)
    have n: "pinned_load_balancer tc (p_heap ?q ref) \<Longrightarrow> ref \<in> set (p_guestSvcs ?q)" for tc ref
      using l(1) by (auto simp: pinned_load_balancer_def)
    show ?thesis
      using Inr l(2,3) n gather_services_holders [of "go_range (map_order env (p_trace ?q) ''gatherServices'') (p_guestSvcs ?q)" ?q] tc
      by (auto simp: gatherServices_def Let_def split_beta noted_services_def)
  qed
qed

lemma gather_guest_holders:
  "service_view (snd (gather_guest env p)) = service_view (snd (gatherServices env p))"
proof -
  have c: "service_view (snd (call env r q)) = service_view q" for r q by (rule service_view_fields) simp
  have "service_view (fold gather_ingress xs q) = service_view q" "service_view (fold gather_gateway gs q) = service_view q"
    "service_view (fold gather_route hs q) = service_view q" for xs gs hs q
    by (rule fold_frame, rule service_view_objects)+
  then have "service_view (snd (gatherIngresses env q)) = service_view q"
    "service_view (snd (gatherGateways env q)) = service_view q" for q
    using c by (simp_all add: gatherIngresses_def gatherGateways_def Let_def split_beta split: sum.split)
  then show ?thesis by (simp add: gather_guest_def Let_def split_beta split: option.split)
qed

section \<open>Properties\<close>

text \<open>
  Claim C13. A pass that stops with an error (a guest that cannot be listed, most of all) has made
  no request that changes the host: no create, update, delete, plug or unplug.  In the guest it
  has at most written GatewayClasses.
\<close>

theorem run_error_hands_off:
  "case run env (newPass tc gw fams hot images tr) of
     (Some e, q) \<Rightarrow> trace_ext hands_off tr (p_trace q)
   | (None, q) \<Rightarrow> True"
proof -
  have "trace_ext hands_off tr (p_trace (snd (read_phase env (newPass tc gw fams hot images tr))))"
    using conjunct1 [OF read_phase_ok] by (rule trace_ext_mono) (simp add: early_guard_def)
  then show ?thesis by (simp add: run_def Let_def split_beta split: option.split)
qed

text \<open>
  Claim C1. Every delete a pass sends to the host, whatever the servers answer, is of an object
  that carries this tenant's labels, that was listed in this tenant's namespace under its selector
  earlier in the history, with that object's UID as precondition; a PVC is deleted only when the
  VM volumes read from the host did not include its volume.
\<close>

theorem run_deletes_only_own:
  "trace_ext (guards_deletes tc) tr (p_trace (snd (run env (newPass tc gw fams hot images tr))))"
  by (rule run_guarded_mono) (auto simp: guards_deletes_def pass_guard_def split: request.split)

text \<open>
  Claim C2. Every create on the host directly follows a read that found nothing under that name
  (in this tenant's namespace; for the namespace itself, under its name), and carries this
  tenant's labels; every update directly follows a
  read of an object this tenant owns, keeps that object's metadata apart from its labels, and
  keeps the ownership labels; VMs are only touched in this tenant's namespace, and a plugged
  volume is named and numbered after its claim.  Nothing else is written on the host.
\<close>

theorem run_host_writes_guarded:
  "trace_ext (guards_writes tc) tr (p_trace (snd (run env (newPass tc gw fams hot images tr))))"
  by (rule run_guarded_mono) (auto simp: guards_writes_def pass_guard_def split: request.split)

text \<open>
  Claim C25. In the guest a pass creates only the CSI plugin's namespace, account, driver and
  DaemonSet exactly as the syncer builds them, PVs and StorageClasses of the plugin's driver under
  the managed label, the mirrored GatewayClass and events; it deletes only StorageClasses, PVs and
  GatewayClasses; it updates only Services, Ingresses, Gateways, HTTPRoutes, PVCs,
  VolumeAttachments, GatewayClasses and, directly after reading it, the plugin's DaemonSet, whose
  metadata it keeps.  So it creates no other namespace or workload and no Secret, and never
  deletes a tenant's Service, Ingress, Gateway, HTTPRoute or PVC.
\<close>

theorem run_guest_writes_confined:
  "trace_ext guards_guest tr (p_trace (snd (run env (newPass tc gw fams hot images tr))))"
  by (rule run_guarded_mono) (auto simp: guards_guest_def pass_guard_def split: request.split)

text \<open>
  Claim C12. The desired host state after the gathers and the address limit is closed: every
  Service an Ingress or an HTTPRoute of it routes to is in it as well, even where the limit
  withdrew that Service's address; every object of it stems from a guest object that is to hold
  the finalizer; each has this tenant's namespace and labels and the name it is filed under.
\<close>

theorem desired_state_closed:
  "set_option (desired_state env (newPass tc gw fams hot images tr)) \<subseteq>
     {q. routed q \<and> backed q \<and> pinned q \<and> desired_ok q \<and> p_tc q = tc}"
  using limit_and_class_new [of tc gw fams hot images tr env]
  by (auto simp: desired_state_def gathered_def gather_inv_def core_inv_def split: prod.splits option.splits)

text \<open>
  Claim C9. Finalizers are released only after a clean prune: when the time comes to release
  them, either nothing in the history leaves a host object in doubt (no failed delete, no failed
  list of host objects or VMs), or the release does nothing at all.
\<close>

theorem release_needs_clean_prune:
  "set_option (at_release env (newPass tc gw fams hot images [])) \<subseteq>
     {q. releaseGuestFinalizers env q = q \<or> filter prune_trouble (p_trace q) = []}"
proof -
  let ?new = "newPass tc gw fams hot images []"
  let ?q = "snd (read_phase env ?new)"
  have "recorded (prune_phase env ?q)" if "fst (read_phase env ?new) = None"
    using prune_phase_ok [of tc True ?q env] that read_phase_ok [of tc "[]" env gw fams hot images]
    by (simp add: pass_inv_def)
  then show ?thesis
    using release_recorded [of "prune_phase env ?q" env]
    by (auto simp: at_release_def split: prod.splits option.splits)
qed

text \<open>
  Claim C39. Every Service that gets host state, ClusterIP backends of Ingresses and routes
  included, comes from a guest Service that is to hold the finalizer; but the guest Services the
  pass notes as holding it are exactly those that carry it and are LoadBalancers of the tenant's
  class right now (none at all when Services are not synced).  So a ClusterIP backend, and a
  Service that stopped being a LoadBalancer, carries the finalizer without ever being noted as a
  holder; and whatever is not noted is left with its finalizers when a pass releases them.
\<close>

theorem service_holders_exact:
  "let q = snd (gather_guest env (newPass tc gw fams hot images tr))
   in keys (p_services q) \<subseteq> host_name_of q ` {ref \<in> set (p_wantFinalizer q). ref_kind ref = KService} \<and>
      {ref \<in> set (p_seenFinalizer q). ref_kind ref = KService} =
      {ref. ref_kind ref = KService \<and> SyncServices tc \<and>
         (\<exists>svc. p_heap q ref = Some (OService svc) \<and> wantsLoadBalancer tc svc \<and>
            GuestFinalizer \<in> set (om_finalizers (svc_meta svc)))} \<and>
      {ref. p_heap (releaseGuestFinalizers env q') ref \<noteq> p_heap q' ref} \<subseteq> set (p_seenFinalizer q')"
proof -
  let ?new = "newPass tc gw fams hot images tr"
  let ?q = "snd (gather_guest env ?new)" and ?s = "snd (gatherServices env ?new)"
  have "pinned ?q" using gather_guest_new [of tc gw fams hot images tr env]
    by (simp add: gathered_def gather_inv_def core_inv_def)
  then have 1: "keys (p_services ?q) \<subseteq> host_name_of ?q ` {ref \<in> set (p_wantFinalizer ?q). ref_kind ref = KService}"
    by (simp add: pinned_def pins_def)
  have s: "noted_services ?s = {ref. ref_kind ref = KService \<and> SyncServices tc \<and> pinned_load_balancer tc (p_heap ?s ref)}"
    using services_exact [of ?new env] by (simp add: newPass_def)
  have v: "noted_services ?q = noted_services ?s" "stored_services ?q = stored_services ?s"
    using gather_guest_holders [of env ?new] by (simp_all add: service_view_def)
  have "p_heap ?q ref = p_heap ?s ref" if "ref_kind ref = KService" for ref
    using fun_cong [OF v(2), of ref] that by (simp add: stored_services_def)
  then have "noted_services ?q = {ref. ref_kind ref = KService \<and> SyncServices tc \<and> pinned_load_balancer tc (p_heap ?q ref)}"
    unfolding v(1) s by auto
  moreover have "{ref. p_heap (releaseGuestFinalizers env q') ref \<noteq> p_heap q' ref} \<subseteq> set (p_seenFinalizer q')"
    using fold_release_heap [where p = q' and env = env and refs = "p_seenFinalizer q'"]
    unfolding releaseGuestFinalizers_def by (simp split: if_split) blast
  ultimately show ?thesis using 1 by (simp add: Let_def noted_services_def pinned_load_balancer_def)
qed

end
