(* ===== verification/HostSync.thy ===== *)
theory HostSync
  imports Pass
begin

text \<open>
  What a pass amounts to on a host that does what it is told: the apply and prune phases together
  implement one function on the host's objects, \<open>sync_host\<close>.  Under every desired name the host
  holds the desired object, unless a foreign object has that name, which stays as it is; what this
  tenant owns under another name is gone; and nothing else has changed.
\<close>

section \<open>A host that does what it is told\<close>

text \<open>
  An API server is a parameter; this is its documented behaviour as far as a pass relies on it.
  \<open>objs\<close> gives the objects after a history: creates and updates are stored as the server
  admits them (\<open>adm\<close>, its defaulting), deletes respect the UID precondition and the finalizers, and
  nobody else writes.  Reads and lists answer from the store, and a create under a free name is not
  refused.
\<close>

type_synonym host_store = "kind \<times> string \<times> string \<Rightarrow> obj option"

definition key_of :: "obj \<Rightarrow> kind \<times> string \<times> string" where
  "key_of x = (kind_of x, om_namespace (meta_of x), om_name (meta_of x))"

text \<open>
  A delete removes an object without finalizers; one that has some is only marked, as the PVCs of a
  real host are by their protection finalizer, and is there until these are taken off.
\<close>

definition terminating :: "obj \<Rightarrow> obj" where
  "terminating x = set_meta ((meta_of x)\<lparr>om_deleting := True\<rparr>) x"

definition reaped :: "obj \<Rightarrow> obj option" where
  "reaped x = (if om_finalizers (meta_of x) = [] then None else Some (terminating x))"

lemma terminating_simps [simp]:
  "kind_of (terminating x) = kind_of x" "om_uid (meta_of (terminating x)) = om_uid (meta_of x)"
  "om_labels (meta_of (terminating x)) = om_labels (meta_of x)"
  "om_finalizers (meta_of (terminating x)) = om_finalizers (meta_of x)" "key_of (terminating x) = key_of x"
  "terminating (terminating x) = terminating x"
  by (cases x; simp add: terminating_def key_of_def)+

lemma terminating_owned [simp]: "ownedBy (meta_of (terminating x)) tc = ownedBy (meta_of x) tc"
  by (simp add: ownedBy_def)

lemma reaped_twice [simp]: "Option.bind (reaped x) reaped = reaped x" "reaped (terminating x) = reaped x"
  by (simp_all add: reaped_def)

definition written :: "(obj \<Rightarrow> obj) \<Rightarrow> request \<Rightarrow> host_store \<Rightarrow> host_store" where
  "written adm r s =
     (case r of
        HostCreate x \<Rightarrow> if s (key_of x) = None then s(key_of x \<mapsto> adm x) else s
      | HostUpdate x \<Rightarrow> if s (key_of x) = None then s else s(key_of x \<mapsto> adm x)
      | HostDelete x uid \<Rightarrow>
          (case s (key_of x) of
             None \<Rightarrow> s
           | Some y \<Rightarrow> if om_uid (meta_of y) = uid then s(key_of x := reaped y) else s)
      | _ \<Rightarrow> s)"

definition selected :: "selector \<Rightarrow> obj_meta \<Rightarrow> bool" where
  "selected sel m \<longleftrightarrow> (\<forall>(l, v) \<in> set sel. om_labels m l = Some v)"

definition honest_host :: "env \<Rightarrow> (event list \<Rightarrow> host_store) \<Rightarrow> (obj \<Rightarrow> obj) \<Rightarrow> bool" where
  "honest_host env objs adm \<longleftrightarrow>
     (\<forall>h r resp. (\<forall>x. r \<noteq> HostStatusUpdate x) \<longrightarrow> objs ((r, resp) # h) = written adm r (objs h)) \<and>
     (\<forall>h key x. objs h key = Some x \<longrightarrow> key_of x = key) \<and>
     (\<forall>h k ns n. case objs h (k, ns, n) of
        None \<Rightarrow> api env h (HostGet k ns n) \<in> range (\<lambda>m. RErr (NotFound m))
      | Some x \<Rightarrow> api env h (HostGet k ns n) = RObj x) \<and>
     (\<forall>h x. objs h (key_of x) = None \<longrightarrow> write_error (api env h (HostCreate x)) = None) \<and>
     (\<forall>h k ns sel. \<exists>xs. api env h (HostList k ns sel) = RObjs xs \<and>
        set xs = {x. (\<exists>n. objs h (k, ns, n) = Some x) \<and> selected sel (meta_of x)})"

lemma honest_hostD:
  assumes "honest_host env objs adm"
  shows "(\<And>x. r \<noteq> HostStatusUpdate x) \<Longrightarrow> objs ((r, resp) # h) = written adm r (objs h)"
    and "objs h key = Some x \<Longrightarrow> key_of x = key"
    and "objs h (k, ns, n) = None \<Longrightarrow> \<exists>m. api env h (HostGet k ns n) = RErr (NotFound m)"
    and "objs h (k, ns, n) = Some x \<Longrightarrow> api env h (HostGet k ns n) = RObj x"
    and "objs h (key_of x) = None \<Longrightarrow> write_error (api env h (HostCreate x)) = None"
    and "\<exists>xs. api env h (HostList k ns sel) = RObjs xs \<and>
      set xs = {x. (\<exists>n. objs h (k, ns, n) = Some x) \<and> selected sel (meta_of x)}"
proof -
  note a = assms [unfolded honest_host_def]
  show "(\<And>x. r \<noteq> HostStatusUpdate x) \<Longrightarrow> objs ((r, resp) # h) = written adm r (objs h)"
    "objs h key = Some x \<Longrightarrow> key_of x = key"
    "objs h (key_of x) = None \<Longrightarrow> write_error (api env h (HostCreate x)) = None"
    "\<exists>xs. api env h (HostList k ns sel) = RObjs xs \<and>
      set xs = {x. (\<exists>n. objs h (k, ns, n) = Some x) \<and> selected sel (meta_of x)}"
    using a by blast+
  have "case objs h (k, ns, n) of None \<Rightarrow> api env h (HostGet k ns n) \<in> range (\<lambda>m. RErr (NotFound m))
    | Some x \<Rightarrow> api env h (HostGet k ns n) = RObj x" using a by blast
  then show "objs h (k, ns, n) = None \<Longrightarrow> \<exists>m. api env h (HostGet k ns n) = RErr (NotFound m)"
    "objs h (k, ns, n) = Some x \<Longrightarrow> api env h (HostGet k ns n) = RObj x" by auto
qed

section \<open>What a pass is to do\<close>

text \<open>One name of one kind: what is wanted there, if anything, and what is there.\<close>

definition sync_object ::
  "(obj \<Rightarrow> 'a option) \<Rightarrow> ('a \<Rightarrow> obj) \<Rightarrow> ('a \<Rightarrow> 'a \<Rightarrow> 'a) \<Rightarrow> (obj \<Rightarrow> obj) \<Rightarrow> tenant_cluster \<Rightarrow>
     'a option \<Rightarrow> obj option \<Rightarrow> obj option" where
  "sync_object dec enc merge adm tc want have =
     (case have of
        None \<Rightarrow> map_option (adm \<circ> enc) want
      | Some x \<Rightarrow>
          if \<not> ownedBy (meta_of x) tc then Some x
          else
            (case want of
               None \<Rightarrow> reaped x
             | Some w \<Rightarrow> map_option (\<lambda>h. adm (enc (merge h w))) (dec x)))"

text \<open>The kinds a pass keeps in step: Gateway kinds only where the host has them.\<close>

definition kept_in_step :: "bool \<Rightarrow> kind set" where
  "kept_in_step gw = {KService, KIngress} \<union> (if gw then {KGateway, KHTTPRoute} else {})"

definition sync_host :: "(obj \<Rightarrow> obj) \<Rightarrow> pass \<Rightarrow> host_store \<Rightarrow> host_store" where
  "sync_host adm d s = (\<lambda>(k, ns, n).
     if ns \<noteq> host_ns (p_tc d) then s (k, ns, n)
     else
       case k of
         KService \<Rightarrow> sync_object to_service OService merge_service adm (p_tc d) (map_of (p_services d) n) (s (k, ns, n))
       | KIngress \<Rightarrow> sync_object to_ingress OIngress merge_ingress adm (p_tc d) (map_of (p_ingresses d) n) (s (k, ns, n))
       | KGateway \<Rightarrow> sync_object to_gateway OGateway merge_gateway adm (p_tc d) (map_of (p_gateways d) n) (s (k, ns, n))
       | KHTTPRoute \<Rightarrow> sync_object to_route OHTTPRoute merge_route adm (p_tc d) (map_of (p_routes d) n) (s (k, ns, n))
       | _ \<Rightarrow> s (k, ns, n))"

section \<open>One step of the apply phase\<close>

text \<open>The trace of a step does not depend on what is assigned to the pass.\<close>

definition step_trace ::
  "env \<Rightarrow> kind \<Rightarrow> (obj \<Rightarrow> 'a option) \<Rightarrow> ('a \<Rightarrow> obj) \<Rightarrow> ('a \<Rightarrow> 'a \<Rightarrow> 'a) \<Rightarrow> tenant_cluster \<Rightarrow> 'a \<Rightarrow> event list \<Rightarrow> event list" where
  "step_trace env k dec enc merge tc want t =
     (let get = HostGet k (om_namespace (meta_of (enc want))) (om_name (meta_of (enc want)));
          t1 = (get, api env t get) # t;
          send = (\<lambda>r. (r, api env t1 r) # t1)
      in case decode_with dec (api env t get) of
           Inl e \<Rightarrow> if IsNotFound e then send (HostCreate (enc want)) else t1
         | Inr have \<Rightarrow> if ownedBy (meta_of (enc have)) tc then send (HostUpdate (enc (merge have want))) else t1)"

text \<open>What a step does: its trace, and that it gives up its name only over a foreign object.\<close>

definition foreign_there ::
  "env \<Rightarrow> kind \<Rightarrow> (obj \<Rightarrow> 'a option) \<Rightarrow> ('a \<Rightarrow> obj) \<Rightarrow> 'a \<Rightarrow> pass \<Rightarrow> bool" where
  "foreign_there env k dec enc want p \<longleftrightarrow>
     (\<exists>have. decode_with dec (api env (p_trace p)
          (HostGet k (om_namespace (meta_of (enc want))) (om_name (meta_of (enc want))))) = Inr have \<and>
        \<not> ownedBy (meta_of (enc have)) (p_tc p))"

definition step_law ::
  "env \<Rightarrow> kind \<Rightarrow> (obj \<Rightarrow> 'a option) \<Rightarrow> ('a \<Rightarrow> obj) \<Rightarrow> ('a \<Rightarrow> 'a \<Rightarrow> 'a) \<Rightarrow> (pass \<Rightarrow> (string \<times> 'a) list) \<Rightarrow>
     'a \<Rightarrow> pass \<Rightarrow> pass \<Rightarrow> bool" where
  "step_law env k dec enc merge field want p q \<longleftrightarrow>
     p_trace q = step_trace env k dec enc merge (p_tc p) want (p_trace p) \<and> p_tc q = p_tc p \<and>
     (keys (field p) \<subseteq> keys (field q) \<or> foreign_there env k dec enc want p)"

context apply_target
begin

lemma step_law_step:
  assumes "\<And>b. same_objects b p \<Longrightarrow> keys (field p) \<subseteq> keys (field b)"
    and "\<And>b x. same_objects b p \<Longrightarrow> keys (field p) \<subseteq> keys (field (created x b))"
    and "\<And>b x. same_objects b p \<Longrightarrow> keys (field p) \<subseteq> keys (field (updated x b))"
  shows "step_law env k dec enc merge field want p (apply_step env k dec enc merge created foreign updated want p)"
proof -
  let ?q = "apply_step env k dec enc merge created foreign updated want p"
  have "p_trace ?q = step_trace env k dec enc merge (p_tc p) want (p_trace p)"
    by (simp add: apply_step_def step_trace_def Let_def split_beta traces split: sum.split)
  moreover have "p_tc ?q = p_tc p" using step_frame by (simp add: same_frame_def)
  moreover have "keys (field p) \<subseteq> keys (field ?q)" if "\<not> foreign_there env k dec enc want p"
    using that by (simp add: apply_step_def foreign_there_def Let_def split_beta assms split: sum.split)
  ultimately show ?thesis unfolding step_law_def by blast
qed

end

section \<open>The objects of a host after a history\<close>

lemma key_of_iff:
  "key_of x = (k, ns, n) \<longleftrightarrow> kind_of x = k \<and> om_namespace (meta_of x) = ns \<and> om_name (meta_of x) = n"
  by (simp add: key_of_def)

lemma written_reads [simp]:
  "written adm (HostGet k ns n) s = s" "written adm (HostList k ns sel) s = s"
  by (simp_all add: written_def)

text \<open>Requests that leave a kind of host object alone.\<close>

definition spares :: "kind \<Rightarrow> request \<Rightarrow> bool" where
  "spares k r \<longleftrightarrow> (case r of
     HostCreate x \<Rightarrow> kind_of x \<noteq> k | HostUpdate x \<Rightarrow> kind_of x \<noteq> k | HostDelete x uid \<Rightarrow> kind_of x \<noteq> k
   | HostStatusUpdate x \<Rightarrow> False | _ \<Rightarrow> True)"

lemma written_spares: "spares k r \<Longrightarrow> written adm r s (k, ns, n) = s (k, ns, n)"
  by (auto simp: spares_def written_def key_of_def split: request.splits option.split)

lemma objs_spared:
  assumes "honest_host env objs adm" and "trace_ext Q t t'" and "\<And>h r. Q h r \<Longrightarrow> spares k r"
  shows "objs t' (k, ns, n) = objs t (k, ns, n)"
  using assms(2)
proof (induction rule: trace_ext.induct)
  case (trace_ext_step t t' r resp)
  have s: "spares k r" using assms(3) trace_ext_step.hyps(2) .
  then have "r \<noteq> HostStatusUpdate x" for x by (auto simp: spares_def)
  then show ?case
    using honest_hostD(1) [OF assms(1)] written_spares [OF s] trace_ext_step.IH by simp
qed simp

lemma objs_append:
  assumes "honest_host env objs adm" and "\<And>r x. r \<in> set (map fst new) \<Longrightarrow> r \<noteq> HostStatusUpdate x"
  shows "objs (new @ t) = foldr (written adm) (map fst new) (objs t)"
  using assms(2)
proof (induction new)
  case (Cons e new)
  obtain r resp where e: "e = (r, resp)" by (cases e)
  have "r \<noteq> HostStatusUpdate x" for x using Cons.prems e by simp
  then show ?case using honest_hostD(1) [OF assms(1)] Cons e by simp
qed simp

lemma written_deletes:
  "(\<And>x. x \<in> set xs \<Longrightarrow> s (key_of x) \<in> {None, Some x, Some (terminating x)}) \<Longrightarrow>
   fold (written adm) (map delete_request xs) s =
     (\<lambda>key. if key \<in> key_of ` set xs then Option.bind (s key) reaped else s key)"
proof (induction xs arbitrary: s)
  case (Cons x xs)
  let ?s = "s(key_of x := Option.bind (s (key_of x)) reaped)"
  have 1: "written adm (delete_request x) s = ?s"
    using Cons.prems [of x] by (auto simp: written_def delete_request_def fun_eq_iff)
  have "?s (key_of y) \<in> {None, Some y, Some (terminating y)}" if "y \<in> set xs" for y
    using Cons.prems [of y] that by (auto simp: reaped_def split: if_splits)
  from Cons.IH [OF this] have "fold (written adm) (map delete_request xs) ?s =
      (\<lambda>key. if key \<in> key_of ` set xs then Option.bind (?s key) reaped else ?s key)" .
  then show ?case by (auto simp: 1 fun_eq_iff bind_assoc)
qed simp

lemma selected_owned:
  assumes "tc_name tc \<noteq> []" and "tc_namespace tc \<noteq> []"
  shows "selected (tenantSelector tc) m \<longleftrightarrow> ownedBy m tc"
  using assms by (auto simp: selected_def tenantSelector_def ownedBy_def at_def split: option.splits)

section \<open>One kind\<close>

text \<open>The apply and the prune of one kind, as functions on the objects of a host.\<close>

definition applied_on ::
  "string set \<Rightarrow> kind \<Rightarrow> (obj \<Rightarrow> 'a option) \<Rightarrow> ('a \<Rightarrow> obj) \<Rightarrow> ('a \<Rightarrow> 'a \<Rightarrow> 'a) \<Rightarrow> (obj \<Rightarrow> obj) \<Rightarrow> tenant_cluster \<Rightarrow>
     (string \<times> 'a) list \<Rightarrow> host_store \<Rightarrow> host_store" where
  "applied_on names k dec enc merge adm tc desired s = (\<lambda>(k', ns, n).
     if k' = k \<and> ns = host_ns tc \<and> n \<in> names \<and> n \<in> keys desired
     then sync_object dec enc merge adm tc (map_of desired n) (s (k', ns, n)) else s (k', ns, n))"

abbreviation applied ::
  "kind \<Rightarrow> (obj \<Rightarrow> 'a option) \<Rightarrow> ('a \<Rightarrow> obj) \<Rightarrow> ('a \<Rightarrow> 'a \<Rightarrow> 'a) \<Rightarrow> (obj \<Rightarrow> obj) \<Rightarrow> tenant_cluster \<Rightarrow>
     (string \<times> 'a) list \<Rightarrow> host_store \<Rightarrow> host_store" where
  "applied k dec enc merge adm tc desired \<equiv> applied_on (keys desired) k dec enc merge adm tc desired"

text \<open>\<open>settled\<close>: after applying, a desired name is given up only to a foreign object.\<close>

definition settled :: "kind \<Rightarrow> tenant_cluster \<Rightarrow> host_store \<Rightarrow> string set \<Rightarrow> string set \<Rightarrow> bool" where
  "settled k tc s names names' \<longleftrightarrow> names' \<subseteq> names \<and>
     (\<forall>n \<in> names - names'. \<exists>x. s (k, host_ns tc, n) = Some x \<and> \<not> ownedBy (meta_of x) tc)"

lemma settled_cong: "(\<And>n. s' (k, host_ns tc, n) = s (k, host_ns tc, n)) \<Longrightarrow> settled k tc s' a b = settled k tc s a b"
  by (simp add: settled_def)

definition pruned :: "kind \<Rightarrow> tenant_cluster \<Rightarrow> string set \<Rightarrow> host_store \<Rightarrow> host_store" where
  "pruned k tc names s = (\<lambda>(k', ns, n).
     case s (k', ns, n) of
       None \<Rightarrow> None
     | Some x \<Rightarrow> if k' = k \<and> ns = host_ns tc \<and> n \<notin> names \<and> ownedBy (meta_of x) tc then reaped x else Some x)"

section \<open>A kind of host object, and what is listed of it\<close>

locale host_kind =
  fixes k :: kind and dec :: "obj \<Rightarrow> 'a option" and enc :: "'a \<Rightarrow> obj"
  assumes dec_iff: "dec x = Some y \<longleftrightarrow> x = enc y"
    and kind_iff: "kind_of x = k \<longleftrightarrow> (\<exists>y. x = enc y)"
begin

lemma dec_of_kind: "kind_of x = k \<Longrightarrow> \<exists>y. dec x = Some y \<and> x = enc y"
  using dec_iff kind_iff by blast

lemma decode_kind_list:
  "(\<And>x. x \<in> set xs \<Longrightarrow> kind_of x = k) \<Longrightarrow> \<exists>ys. decode_list dec (RObjs xs) = Inr ys \<and> xs = map enc ys"
proof (induction xs)
  case (Cons x xs)
  then obtain ys where "decode_all dec xs = Some ys" "xs = map enc ys"
    by (auto split: option.splits)
  moreover obtain y where "dec x = Some y" "x = enc y" using dec_of_kind Cons.prems [of x] by auto
  ultimately show ?case by simp
qed simp

text \<open>What an honest host lists under the tenant's selector, and the keys of a part of it.\<close>

lemma listed_objs:
  assumes "honest_host env objs adm" and "tc_name tc \<noteq> []" and "tc_namespace tc \<noteq> []"
  obtains ys where "decode_list dec (api env t (HostList k (host_ns tc) (tenantSelector tc))) = Inr ys"
    and "\<And>x. x \<in> enc ` set ys \<longleftrightarrow> objs t (k, host_ns tc, om_name (meta_of x)) = Some x \<and> ownedBy (meta_of x) tc"
proof -
  obtain xs where xs: "api env t (HostList k (host_ns tc) (tenantSelector tc)) = RObjs xs"
    "set xs = {x. (\<exists>n. objs t (k, host_ns tc, n) = Some x) \<and> selected (tenantSelector tc) (meta_of x)}"
    using honest_hostD(6) [OF assms(1)] by blast
  have known: "kind_of x = k \<and> om_namespace (meta_of x) = host_ns tc \<and> om_name (meta_of x) = n"
    if "objs t (k, host_ns tc, n) = Some x" for n x
    using honest_hostD(2) [OF assms(1) that] by (simp add: key_of_iff)
  obtain ys where ys: "decode_list dec (RObjs xs) = Inr ys" "xs = map enc ys"
    using decode_kind_list [of xs] xs(2) known by blast
  have "x \<in> set xs \<longleftrightarrow> objs t (k, host_ns tc, om_name (meta_of x)) = Some x \<and> ownedBy (meta_of x) tc" for x
    unfolding xs(2) using known selected_owned [OF assms(2,3)] by blast
  then show thesis using that [OF ys(1) [folded xs(1)]] ys(2) by simp
qed

lemma without_listed:
  assumes "\<And>x. x \<in> gone \<longleftrightarrow> s (k, host_ns tc, om_name (meta_of x)) = Some x \<and> ownedBy (meta_of x) tc \<and>
      om_name (meta_of x) \<notin> names"
    and "\<And>key x. s key = Some x \<Longrightarrow> key_of x = key"
  shows "(\<lambda>key. if key \<in> key_of ` gone then Option.bind (s key) reaped else s key) = pruned k tc names s"
proof (rule ext)
  fix key :: "kind \<times> string \<times> string"
  obtain k' ns n where key: "key = (k', ns, n)" by (cases key)
  have "key \<in> key_of ` gone \<longleftrightarrow>
      (\<exists>x. s key = Some x \<and> k' = k \<and> ns = host_ns tc \<and> n \<notin> names \<and> ownedBy (meta_of x) tc)"
  proof
    assume "key \<in> key_of ` gone"
    then obtain x where x: "x \<in> gone" "key = key_of x" by blast
    then have "key_of x = (k, host_ns tc, om_name (meta_of x))" using assms by blast
    then show "\<exists>x. s key = Some x \<and> k' = k \<and> ns = host_ns tc \<and> n \<notin> names \<and> ownedBy (meta_of x) tc"
      using x key assms(1) [of x] by auto
  next
    assume "\<exists>x. s key = Some x \<and> k' = k \<and> ns = host_ns tc \<and> n \<notin> names \<and> ownedBy (meta_of x) tc"
    then obtain x where x: "s key = Some x" "k' = k" "ns = host_ns tc" "n \<notin> names" "ownedBy (meta_of x) tc" by blast
    have kx: "key_of x = key" by (rule assms(2) [OF x(1)])
    then have "om_name (meta_of x) = n" by (simp add: key key_of_def)
    then have "x \<in> gone" using x key by (simp add: assms(1))
    then show "key \<in> key_of ` gone" using kx by blast
  qed
  then show "(if key \<in> key_of ` gone then Option.bind (s key) reaped else s key) = pruned k tc names s key"
    unfolding pruned_def key by (auto split: option.split)
qed

end

locale sync_target = prune_target k dec enc "\<lambda>p. keys (field p)" + host_kind k dec enc
  for k :: kind and dec :: "obj \<Rightarrow> 'a option" and enc :: "'a \<Rightarrow> obj" and field :: "pass \<Rightarrow> (string \<times> 'a) list" +
  fixes merge :: "'a \<Rightarrow> 'a \<Rightarrow> 'a"
    and apply1 :: "env \<Rightarrow> 'a \<Rightarrow> pass \<Rightarrow> pass"
  assumes merge_key: "key_of (enc (merge h w)) = key_of (enc h)"
    and apply1_law: "step_law env k dec enc merge field w p (apply1 env w p)"
    and apply1_others: "n \<noteq> om_name (meta_of (enc w)) \<Longrightarrow> map_of (field (apply1 env w p)) n = map_of (field p) n"
begin

lemma apply1_trace: "p_trace (apply1 env w p) = step_trace env k dec enc merge (p_tc p) w (p_trace p)"
  and apply1_tc: "p_tc (apply1 env w p) = p_tc p"
  and apply1_keeps: "keys (field p) \<subseteq> keys (field (apply1 env w p)) \<or> foreign_there env k dec enc w p"
  using apply1_law by (simp_all add: step_law_def)

lemma apply1_objs:
  assumes "honest_host env objs adm" and "mapped_meta (p_tc p) n (meta_of (enc w))"
  shows "objs (p_trace (apply1 env w p)) =
     (objs (p_trace p))((k, host_ns (p_tc p), n) :=
        sync_object dec enc merge adm (p_tc p) (Some w) (objs (p_trace p) (k, host_ns (p_tc p), n)))"
proof -
  let ?t = "p_trace p" and ?ns = "host_ns (p_tc p)"
  let ?get = "HostGet k ?ns n"
  have m: "om_namespace (meta_of (enc w)) = ?ns" "om_name (meta_of (enc w)) = n"
    using assms(2) by (simp_all add: mapped_meta_def)
  have kw: "key_of (enc w) = (k, ?ns, n)" using m by (simp add: key_of_def kind_enc)
  have st: "objs ((r, resp) # h) = written adm r (objs h)" if "\<And>x. r \<noteq> HostStatusUpdate x" for r resp h
    by (rule honest_hostD(1) [OF assms(1) that])
  show ?thesis
  proof (cases "objs ?t (k, ?ns, n)")
    case None
    then obtain e where "api env ?t ?get = RErr (NotFound e)" using honest_hostD(3) [OF assms(1)] by blast
    then show ?thesis
      using None kw by (simp add: apply1_trace step_trace_def Let_def m st written_def sync_object_def)
  next
    case (Some x)
    have r: "api env ?t ?get = RObj x" by (rule honest_hostD(4) [OF assms(1) Some])
    have kx: "key_of x = (k, ?ns, n)" by (rule honest_hostD(2) [OF assms(1) Some])
    then obtain h where h: "dec x = Some h" "x = enc h" using dec_of_kind [of x] by (auto simp: key_of_def)
    have "key_of (enc (merge h w)) = (k, ?ns, n)" unfolding merge_key using kx h(2) by simp
    then show ?thesis
      using Some r h
      by (simp add: apply1_trace step_trace_def Let_def m st written_def sync_object_def fun_upd_idem)
  qed
qed

text \<open>The loop over the desired names, as a relation that composes.\<close>

definition loop_rel ::
  "(event list \<Rightarrow> host_store) \<Rightarrow> (obj \<Rightarrow> obj) \<Rightarrow> string list \<Rightarrow> pass \<Rightarrow> pass \<Rightarrow> bool" where
  "loop_rel objs adm ns p q \<longleftrightarrow> p_tc q = p_tc p \<and>
     (\<forall>n. n \<notin> set ns \<longrightarrow> map_of (field q) n = map_of (field p) n) \<and>
     settled k (p_tc p) (objs (p_trace p)) (keys (field p)) (keys (field q)) \<and>
     objs (p_trace q) =
       applied_on (set ns) k dec enc merge adm (p_tc p) (field p) (objs (p_trace p))"

lemma loop_rel_keys: "loop_rel objs adm ns p q \<Longrightarrow> n \<notin> set ns \<Longrightarrow> n \<in> keys (field q) \<longleftrightarrow> n \<in> keys (field p)"
  unfolding loop_rel_def by (metis map_of_eq_None_iff)

lemma loop_rel_trans:
  assumes p: "loop_rel objs adm ms p q" and q: "loop_rel objs adm ns q r" and "set ms \<inter> set ns = {}"
  shows "loop_rel objs adm (ms @ ns) p r"
proof -
  have tc: "p_tc q = p_tc p" and other: "\<And>n. n \<notin> set ms \<Longrightarrow> map_of (field q) n = map_of (field p) n"
    and sp: "settled k (p_tc p) (objs (p_trace p)) (keys (field p)) (keys (field q))"
    and op: "objs (p_trace q) = applied_on (set ms) k dec enc merge adm (p_tc p) (field p) (objs (p_trace p))"
    using p by (simp_all add: loop_rel_def)
  have sq: "settled k (p_tc p) (objs (p_trace q)) (keys (field q)) (keys (field r))"
    and oq: "objs (p_trace r) = applied_on (set ns) k dec enc merge adm (p_tc p) (field q) (objs (p_trace q))"
    using q tc by (simp_all add: loop_rel_def)
  have same: "n \<notin> set ms \<Longrightarrow> objs (p_trace q) (k', s, n) = objs (p_trace p) (k', s, n)" for k' s n
    by (simp add: op applied_on_def)
  have "\<exists>x. objs (p_trace p) (k, host_ns (p_tc p), n) = Some x \<and> \<not> ownedBy (meta_of x) (p_tc p)"
    if n: "n \<in> keys (field p) - keys (field r)" for n
  proof (cases "n \<in> keys (field q)")
    case True
    then have "n \<notin> set ms" using n loop_rel_keys [OF q, of n] assms(3) by blast
    moreover obtain x where "objs (p_trace q) (k, host_ns (p_tc p), n) = Some x" "\<not> ownedBy (meta_of x) (p_tc p)"
      using sq True n unfolding settled_def by blast
    ultimately show ?thesis using same [of n k "host_ns (p_tc p)"] by simp
  qed (use n sp in \<open>auto simp: settled_def\<close>)
  moreover have "keys (field r) \<subseteq> keys (field p)"
    by (rule subset_trans [OF conjunct1 [OF sq [unfolded settled_def]] conjunct1 [OF sp [unfolded settled_def]]])
  ultimately have settled: "settled k (p_tc p) (objs (p_trace p)) (keys (field p)) (keys (field r))"
    unfolding settled_def by (intro conjI ballI)
  have "objs (p_trace r) (k', s, n) =
      applied_on (set (ms @ ns)) k dec enc merge adm (p_tc p) (field p) (objs (p_trace p)) (k', s, n)" for k' s n
    using assms(3) other [of n] loop_rel_keys [OF p, of n] by (auto simp: oq op applied_on_def)
  then have "objs (p_trace r) =
      applied_on (set (ms @ ns)) k dec enc merge adm (p_tc p) (field p) (objs (p_trace p))" by auto
  then show ?thesis using p q tc settled by (simp add: loop_rel_def)
qed

lemma foreign_there_objs:
  assumes "honest_host env objs adm" and "mapped_meta (p_tc p) n (meta_of (enc w))" and "foreign_there env k dec enc w p"
  shows "\<exists>x. objs (p_trace p) (k, host_ns (p_tc p), n) = Some x \<and> \<not> ownedBy (meta_of x) (p_tc p)"
proof -
  let ?key = "(k, host_ns (p_tc p), n)"
  obtain h where h: "decode_with dec (api env (p_trace p) (HostGet k (host_ns (p_tc p)) n)) = Inr h"
    "\<not> ownedBy (meta_of (enc h)) (p_tc p)"
    using assms(2,3) by (auto simp: foreign_there_def mapped_meta_def)
  show ?thesis
  proof (cases "objs (p_trace p) ?key")
    case None
    then show ?thesis using honest_hostD(3) [OF assms(1) None] h(1) by auto
  next
    case (Some x)
    then show ?thesis using honest_hostD(4) [OF assms(1) Some] h dec_enc by (auto split: option.splits)
  qed
qed

lemma loop_rel_step:
  assumes "honest_host env objs adm" and "\<And>w. map_of (field p) m = Some w \<Longrightarrow> mapped_meta (p_tc p) m (meta_of (enc w))"
  shows "loop_rel objs adm [m] p (case map_of (field p) m of None \<Rightarrow> p | Some w \<Rightarrow> apply1 env w p)"
proof (cases "map_of (field p) m")
  case None
  then have "m \<notin> keys (field p)" by (simp add: map_of_eq_None_iff)
  then show ?thesis using None by (auto simp: loop_rel_def settled_def applied_on_def)
next
  case (Some w)
  let ?q = "apply1 env w p"
  have w: "mapped_meta (p_tc p) m (meta_of (enc w))" using Some assms(2) by simp
  have m: "m \<in> keys (field p)" using Some by (rule map_of_Some_keys)
  have others: "map_of (field ?q) n = map_of (field p) n" if "n \<noteq> m" for n
    using that w apply1_others by (simp add: mapped_meta_def)
  then have keys: "n \<in> keys (field ?q) \<longleftrightarrow> n \<in> keys (field p)" if "n \<noteq> m" for n
    using that by (metis map_of_eq_None_iff)
  have "\<exists>x. objs (p_trace p) (k, host_ns (p_tc p), m) = Some x \<and> \<not> ownedBy (meta_of x) (p_tc p)"
    if "m \<notin> keys (field ?q)"
    using that m apply1_keeps [of p env w] foreign_there_objs [OF assms(1) w] by blast
  then have "settled k (p_tc p) (objs (p_trace p)) (keys (field p)) (keys (field ?q))"
    using keys m unfolding settled_def by (metis DiffD1 DiffD2 subsetI)
  moreover have "objs (p_trace ?q) = applied_on {m} k dec enc merge adm (p_tc p) (field p) (objs (p_trace p))"
    using m Some by (auto simp: apply1_objs [OF assms(1) w] applied_on_def fun_eq_iff)
  ultimately show ?thesis using Some apply1_tc others by (simp add: loop_rel_def)
qed

lemma loop_rel_fold:
  assumes "honest_host env objs adm" and "distinct ns"
    and "\<And>n w. n \<in> set ns \<Longrightarrow> map_of (field p) n = Some w \<Longrightarrow> mapped_meta (p_tc p) n (meta_of (enc w))"
  shows "loop_rel objs adm ns p
    (fold (\<lambda>name q. case map_of (field q) name of None \<Rightarrow> q | Some w \<Rightarrow> apply1 env w q) ns p)"
  using assms(2,3)
proof (induction ns arbitrary: p)
  case Nil
  then show ?case by (auto simp: loop_rel_def settled_def applied_on_def)
next
  case (Cons m ns)
  let ?q = "case map_of (field p) m of None \<Rightarrow> p | Some w \<Rightarrow> apply1 env w p"
  have m: "loop_rel objs adm [m] p ?q" by (rule loop_rel_step [OF assms(1)]) (simp add: Cons.prems(2))
  have "mapped_meta (p_tc ?q) n (meta_of (enc w))" if "n \<in> set ns" "map_of (field ?q) n = Some w" for n w
    using that m Cons.prems unfolding loop_rel_def by (metis distinct.simps(2) list.set_intros(2) list.set(1) set_ConsD empty_iff)
  from loop_rel_trans [OF m Cons.IH [OF _ this]] Cons.prems(1) show ?case by simp
qed

lemma each_objs:
  assumes "honest_host env objs adm" and "distinct (map fst (field p))"
    and "\<And>n w. map_of (field p) n = Some w \<Longrightarrow> mapped_meta (p_tc p) n (meta_of (enc w))"
  shows "p_tc (apply_each field (apply1 env) p) = p_tc p"
    and "objs (p_trace (apply_each field (apply1 env) p)) =
      applied k dec enc merge adm (p_tc p) (field p) (objs (p_trace p))"
    and "settled k (p_tc p) (objs (p_trace p)) (keys (field p)) (keys (field (apply_each field (apply1 env) p)))"
  using loop_rel_fold [OF assms(1) iffD2 [OF distinct_sortedKeys assms(2)] assms(3), folded apply_each_def]
  by (simp_all add: loop_rel_def)

lemma prune_objs:
  assumes "honest_host env objs adm" and "tc_name (p_tc p) \<noteq> []" and "tc_namespace (p_tc p) \<noteq> []"
  shows "objs (p_trace (prune_kind env k dec enc (\<lambda>p. keys (field p)) optional p)) =
    pruned k (p_tc p) (keys (field p)) (objs (p_trace p))"
proof -
  let ?t = "p_trace p" and ?tc = "p_tc p"
  let ?list = "HostList k (host_ns ?tc) (tenantSelector ?tc)"
  let ?q = "prune_kind env k dec enc (\<lambda>p. keys (field p)) optional p"
  obtain ys where ys: "decode_list dec (api env ?t ?list) = Inr ys"
    "\<And>x. x \<in> enc ` set ys \<longleftrightarrow> objs ?t (k, host_ns ?tc, om_name (meta_of x)) = Some x \<and> ownedBy (meta_of x) ?tc"
    using listed_objs [OF assms] by blast
  define gone where "gone = map enc (filter (\<lambda>y. om_name (meta_of (enc y)) \<notin> keys (field p) \<and> ownedBy (meta_of (enc y)) ?tc) ys)"
  have "set gone = {x \<in> enc ` set ys. om_name (meta_of x) \<notin> keys (field p) \<and> ownedBy (meta_of x) ?tc}"
    by (auto simp: gone_def)
  then have g: "x \<in> set gone \<longleftrightarrow> objs ?t (k, host_ns ?tc, om_name (meta_of x)) = Some x \<and> ownedBy (meta_of x) ?tc \<and>
      om_name (meta_of x) \<notin> keys (field p)" for x
    using ys(2) [of x] by blast
  obtain new where new: "p_trace ?q = new @ ?t" using trace_ext_suffix [OF kind_guarded] by blast
  have "map fst (p_trace ?q) = rev (map delete_request gone) @ ?list # map fst ?t"
    using kind_requests [of env optional p] ys(1) by (simp add: gone_def comp_def)
  then have rs: "map fst new = rev (map delete_request gone) @ [?list]" using new by simp
  have "objs (p_trace ?q) = foldr (written adm) (map fst new) (objs ?t)"
    unfolding new by (rule objs_append [OF assms(1)]) (auto simp: rs delete_request_def)
  also have "\<dots> = fold (written adm) (map delete_request gone) (objs ?t)"
    unfolding rs by (simp add: foldr_conv_fold)
  also have "\<dots> = (\<lambda>key. if key \<in> key_of ` set gone then Option.bind (objs ?t key) reaped else objs ?t key)"
    by (rule written_deletes) (metis g honest_hostD(2) [OF assms(1)] insertCI)
  also have "\<dots> = pruned k ?tc (keys (field p)) (objs ?t)"
    by (rule without_listed [OF g honest_hostD(2) [OF assms(1)]])
  finally show ?thesis .
qed

end

section \<open>The four kinds\<close>

lemma apply_laws:
  "step_law env KService to_service OService merge_service p_services s p (applyService env s p)"
  "step_law env KIngress to_ingress OIngress merge_ingress p_ingresses i p (applyIngress env i p)"
  "step_law env KGateway to_gateway OGateway merge_gateway p_gateways g p (applyGateway env g p)"
  "step_law env KHTTPRoute to_route OHTTPRoute merge_route p_routes r p (applyRoute env r p)"
  unfolding applyService_def applyIngress_def applyGateway_def applyRoute_def Let_def
  subgoal by (rule at_service.step_law_step) (auto simp: same_objects_def put_service_def)
  subgoal by (rule at_ingress.step_law_step) (auto simp: same_objects_def put_ingress_def)
  subgoal by (rule at_gateway.step_law_step) (auto simp: same_objects_def put_gateway_def)
  subgoal by (rule at_route.step_law_step) (auto simp: same_objects_def put_route_def)
  done

interpretation hk_service: host_kind KService to_service OService
  by unfold_locales (auto elim: to_service.elims kind_of.elims)

interpretation hk_ingress: host_kind KIngress to_ingress OIngress
  by unfold_locales (auto elim: to_ingress.elims kind_of.elims)

interpretation hk_gateway: host_kind KGateway to_gateway OGateway
  by unfold_locales (auto elim: to_gateway.elims kind_of.elims)

interpretation hk_route: host_kind KHTTPRoute to_route OHTTPRoute
  by unfold_locales (auto elim: to_route.elims kind_of.elims)

interpretation hk_pvc: host_kind KPVC to_pvc OPVC
  by unfold_locales (auto elim: to_pvc.elims kind_of.elims)

interpretation st_service: sync_target KService to_service OService p_services merge_service applyService
  by unfold_locales
    (use apply_laws applyService_fields(4) in \<open>auto simp: key_of_def merge_service_def merge_meta_def Let_def elim: kind_of.elims\<close>)

interpretation st_ingress: sync_target KIngress to_ingress OIngress p_ingresses merge_ingress applyIngress
  by unfold_locales
    (use apply_laws applyIngress_fields(4) in \<open>auto simp: key_of_def merge_ingress_def merge_meta_def Let_def elim: kind_of.elims\<close>)

interpretation st_gateway: sync_target KGateway to_gateway OGateway p_gateways merge_gateway applyGateway
  by unfold_locales
    (use apply_laws applyGateway_fields(4) in \<open>auto simp: key_of_def merge_gateway_def merge_meta_def Let_def elim: kind_of.elims\<close>)

interpretation st_route: sync_target KHTTPRoute to_route OHTTPRoute p_routes merge_route applyRoute
  by unfold_locales
    (use apply_laws applyRoute_fields(4) in \<open>auto simp: key_of_def merge_route_def merge_meta_def Let_def elim: kind_of.elims\<close>)

section \<open>The phases together\<close>

lemma applied_other: "k' \<noteq> k \<Longrightarrow> applied k dec enc merge adm tc m s (k', ns, n) = s (k', ns, n)"
  by (simp add: applied_on_def)

lemma pruned_other: "k' \<noteq> k \<Longrightarrow> pruned k tc names s (k', ns, n) = s (k', ns, n)"
  by (simp add: pruned_def split: option.split)

text \<open>Applying and then pruning one kind is \<open>sync_object\<close> under every name.\<close>

lemma sync_kind:
  assumes "s' (k, host_ns tc, n) = applied k dec enc merge adm tc m s (k, host_ns tc, n)"
    and "n \<in> names \<Longrightarrow> n \<in> keys m"
    and "n \<in> keys m \<Longrightarrow> n \<in> names \<or> (\<exists>x. s (k, host_ns tc, n) = Some x \<and> \<not> ownedBy (meta_of x) tc)"
  shows "pruned k tc names s' (k, host_ns tc, n) =
     sync_object dec enc merge adm tc (map_of m n) (s (k, host_ns tc, n))"
proof (cases "n \<in> keys m")
  case True
  then have s': "s' (k, host_ns tc, n) = sync_object dec enc merge adm tc (map_of m n) (s (k, host_ns tc, n))"
    using assms(1) by (simp add: applied_on_def)
  show ?thesis
  proof (cases "n \<in> names")
    case True
    then show ?thesis using s' by (simp add: pruned_def split: option.split)
  next
    case False
    then obtain x where "s (k, host_ns tc, n) = Some x" "\<not> ownedBy (meta_of x) tc" using assms(3) \<open>n \<in> keys m\<close> by blast
    then show ?thesis using s' by (simp add: pruned_def sync_object_def)
  qed
next
  case False
  then have "map_of m n = None" "n \<notin> names" using assms(2) by (auto simp: map_of_eq_None_iff)
  then show ?thesis using assms(1) False by (simp add: applied_on_def pruned_def sync_object_def split: option.split)
qed

text \<open>The apply phase, on the store of a host.\<close>

definition applied_all :: "(obj \<Rightarrow> obj) \<Rightarrow> pass \<Rightarrow> host_store \<Rightarrow> host_store" where
  "applied_all adm p s =
     applied KHTTPRoute to_route OHTTPRoute merge_route adm (p_tc p) (p_routes p)
       (applied KGateway to_gateway OGateway merge_gateway adm (p_tc p) (p_gateways p)
         (applied KIngress to_ingress OIngress merge_ingress adm (p_tc p) (p_ingresses p)
           (applied KService to_service OService merge_service adm (p_tc p) (p_services p) s)))"

lemma desired_mapped:
  assumes "desired_ok p"
  shows "map_of (p_services p) n = Some s \<Longrightarrow> mapped_meta (p_tc p) n (meta_of (OService s))"
    "map_of (p_ingresses p) n = Some i \<Longrightarrow> mapped_meta (p_tc p) n (meta_of (OIngress i))"
    "map_of (p_gateways p) n = Some g \<Longrightarrow> mapped_meta (p_tc p) n (meta_of (OGateway g))"
    "map_of (p_routes p) n = Some r \<Longrightarrow> mapped_meta (p_tc p) n (meta_of (OHTTPRoute r))"
  using assms unfolding desired_ok_def by (auto dest: map_of_SomeD)

text \<open>The desired state and the tenant of two passes agree in one kind.\<close>

definition same_field :: "(pass \<Rightarrow> (string \<times> 'a) list) \<Rightarrow> pass \<Rightarrow> pass \<Rightarrow> bool" where
  "same_field field q p \<longleftrightarrow> field q = field p \<and> p_tc q = p_tc p"

context sync_target
begin

text \<open>The loop of one kind after those of other kinds, which have not touched it.\<close>

lemma each_later:
  assumes "honest_host env objs adm" and "same_field field q p" and "distinct (map fst (field p))"
    and "\<And>n w. map_of (field p) n = Some w \<Longrightarrow> mapped_meta (p_tc p) n (meta_of (enc w))"
    and "\<And>n. s (k, host_ns (p_tc p), n) = objs (p_trace q) (k, host_ns (p_tc p), n)"
  shows "p_tc (apply_each field (apply1 env) q) = p_tc p"
    and "objs (p_trace (apply_each field (apply1 env) q)) =
      applied k dec enc merge adm (p_tc p) (field p) (objs (p_trace q))"
    and "settled k (p_tc p) s (keys (field p)) (keys (field (apply_each field (apply1 env) q)))"
proof -
  have q: "field q = field p" "p_tc q = p_tc p" using assms(2) by (simp_all add: same_field_def)
  note e = each_objs [of env objs adm q, unfolded q, OF assms(1,3,4)]
  show "p_tc (apply_each field (apply1 env) q) = p_tc p" by (rule e(1))
  show "objs (p_trace (apply_each field (apply1 env) q)) =
      applied k dec enc merge adm (p_tc p) (field p) (objs (p_trace q))" by (rule e(2))
  show "settled k (p_tc p) s (keys (field p)) (keys (field (apply_each field (apply1 env) q)))"
    using e(3) by (simp only: settled_cong [of s k "p_tc p" "objs (p_trace q)", OF assms(5)])
qed

end

lemma applyAll_objs:
  assumes "honest_host env objs adm" and "desired_ok p"
  shows "objs (p_trace (applyAll env p)) = applied_all adm p (objs (p_trace p))"
    and "k \<in> synced_kinds \<Longrightarrow> settled k (p_tc p) (objs (p_trace p)) (desired_names p k) (desired_names (applyAll env p) k)"
proof -
  let ?s = "objs (p_trace p)" and ?tc = "p_tc p"
  let ?p1 = "apply_each p_services (applyService env) p"
  let ?p2 = "apply_each p_ingresses (applyIngress env) ?p1"
  let ?p3 = "apply_each p_gateways (applyGateway env) ?p2"
  let ?p4 = "apply_each p_routes (applyRoute env) ?p3"
  have f: "p_ingresses ?p1 = p_ingresses p" "p_gateways ?p2 = p_gateways p" "p_routes ?p3 = p_routes p"
    "p_services ?p4 = p_services ?p1" "p_ingresses ?p4 = p_ingresses ?p2" "p_gateways ?p4 = p_gateways ?p3"
    by (simp_all add: apply_each_field [of p_services] apply_each_field [of p_ingresses] apply_each_field [of p_gateways]
        apply_each_field [of p_routes] applyService_fields applyIngress_fields applyGateway_fields applyRoute_fields)
  note m = desired_mapped [OF assms(2)]
  have d: "distinct (map fst (p_services p))" "distinct (map fst (p_ingresses p))" "distinct (map fst (p_gateways p))"
    "distinct (map fst (p_routes p))" using assms(2) by (simp_all add: desired_ok_def)
  have "same_field p_services p p" by (simp add: same_field_def)
  note e1 = st_service.each_later [OF assms(1) this d(1) m(1) refl]
  have "same_field p_ingresses ?p1 p" "\<And>n. ?s (KIngress, host_ns ?tc, n) = objs (p_trace ?p1) (KIngress, host_ns ?tc, n)"
    by (simp_all add: same_field_def f e1(1,2) applied_other)
  note e2 = st_ingress.each_later [OF assms(1) this(1) d(2) m(2) this(2)]
  have "same_field p_gateways ?p2 p" "\<And>n. ?s (KGateway, host_ns ?tc, n) = objs (p_trace ?p2) (KGateway, host_ns ?tc, n)"
    by (simp_all add: same_field_def f e1(2) e2(1,2) applied_other)
  note e3 = st_gateway.each_later [OF assms(1) this(1) d(3) m(3) this(2)]
  have "same_field p_routes ?p3 p" "\<And>n. ?s (KHTTPRoute, host_ns ?tc, n) = objs (p_trace ?p3) (KHTTPRoute, host_ns ?tc, n)"
    by (simp_all add: same_field_def f e1(2) e2(2) e3(1,2) applied_other)
  note e4 = st_route.each_later [OF assms(1) this(1) d(4) m(4) this(2)]
  show "objs (p_trace (applyAll env p)) = applied_all adm p ?s"
    by (simp add: applyAll_def applied_all_def e1(2) e2(2) e3(2) e4(2))
  show "k \<in> synced_kinds \<Longrightarrow> settled k ?tc ?s (desired_names p k) (desired_names (applyAll env p) k)"
    using e1(3) e2(3) e3(3) e4(3) by (auto simp: synced_kinds_def applyAll_def f)
qed

lemma pruneAll_objs:
  assumes "honest_host env objs adm" and "tc_name (p_tc p) \<noteq> []" "tc_namespace (p_tc p) \<noteq> []"
    and "k \<in> kept_in_step (p_gatewayAPIOnHost p)"
  shows "objs (p_trace (pruneAll env p)) (k, ns, n) =
    pruned k (p_tc p) (desired_names p k) (objs (p_trace p)) (k, ns, n)"
proof -
  let ?p1 = "prune_kind env KService to_service OService (\<lambda>p. keys (p_services p)) False p"
  let ?p2 = "prune_kind env KIngress to_ingress OIngress (\<lambda>p. keys (p_ingresses p)) False ?p1"
  let ?p3 = "prune_kind env KGateway to_gateway OGateway (\<lambda>p. keys (p_gateways p)) True ?p2"
  have f1: "prune_frame ?p1 p" by (rule pt_service.kind_frame)
  have f2: "prune_frame ?p2 p" using pt_ingress.kind_frame f1 by (rule prune_frame_trans)
  have f3: "prune_frame ?p3 p" using pt_gateway.kind_frame f2 by (rule prune_frame_trans)
  from f1 f2 f3 have tc: "p_tc ?p1 = p_tc p" "p_tc ?p2 = p_tc p" "p_tc ?p3 = p_tc p" "p_gatewayAPIOnHost ?p2 = p_gatewayAPIOnHost p"
    and f: "p_ingresses ?p1 = p_ingresses p" "p_gateways ?p2 = p_gateways p" "p_routes ?p3 = p_routes p"
    by (simp_all add: prune_frame_def same_objects_def)
  have s: "objs (p_trace ?p1) = pruned KService (p_tc p) (keys (p_services p)) (objs (p_trace p))"
    "objs (p_trace ?p2) = pruned KIngress (p_tc p) (keys (p_ingresses p)) (objs (p_trace ?p1))"
    "objs (p_trace ?p3) = pruned KGateway (p_tc p) (keys (p_gateways p)) (objs (p_trace ?p2))"
    "objs (p_trace (prune_kind env KHTTPRoute to_route OHTTPRoute (\<lambda>p. keys (p_routes p)) True ?p3)) =
      pruned KHTTPRoute (p_tc p) (keys (p_routes p)) (objs (p_trace ?p3))"
    using st_service.prune_objs [OF assms(1), of p] st_ingress.prune_objs [OF assms(1), of ?p1]
      st_gateway.prune_objs [OF assms(1), of ?p2] st_route.prune_objs [OF assms(1), of ?p3] tc f assms(2,3)
    by simp_all
  have other: "k' \<noteq> j \<Longrightarrow> pruned k' tc names (pruned j tc' names' s) (k', ns, n) = pruned k' tc names s (k', ns, n)"
    for k' j tc tc' names names' s by (simp add: pruned_def split: option.split)
  show ?thesis
    using assms(4) tc(4)
    by (auto simp: pruneAll_def Let_def kept_in_step_def s other pruned_other split: if_splits)
qed

section \<open>The pass\<close>

lemma sync_host_cong: "s (k, ns, n) = s' (k, ns, n) \<Longrightarrow> sync_host adm d s (k, ns, n) = sync_host adm d s' (k, ns, n)"
  by (cases k; cases "ns = host_ns (p_tc d)"; simp add: sync_host_def)

lemma sync_host_same:
  "same_objects q d \<Longrightarrow> p_tc q = p_tc d \<Longrightarrow> sync_host adm q s = sync_host adm d s"
  by (auto simp: fun_eq_iff sync_host_def same_objects_def split: kind.split)

lemma spared:
  "early_guard tc h r \<Longrightarrow> spares k r" "writeback_calls h r \<Longrightarrow> spares k r"
  "k \<noteq> KPVC \<Longrightarrow> storage_guard tc h r \<Longrightarrow> spares k r"
proof -
  show "early_guard tc h r \<Longrightarrow> spares k r" by (cases r) (simp_all add: early_guard_def hands_off_def spares_def)
  show "writeback_calls h r \<Longrightarrow> spares k r" by (cases r) (simp_all add: writeback_calls_def spares_def)
  show "k \<noteq> KPVC \<Longrightarrow> storage_guard tc h r \<Longrightarrow> spares k r" by (cases r) (auto simp: storage_guard_def spares_def)
qed

lemma namespace_objs:
  assumes "honest_host env objs adm"
  shows "fst (ensureHostNamespace env p)"
    and "k \<noteq> KNamespace \<Longrightarrow> objs (p_trace (snd (ensureHostNamespace env p))) (k, ns, n) = objs (p_trace p) (k, ns, n)"
proof -
  let ?t = "p_trace p" and ?name = "host_ns (p_tc p)" and ?new = "ONamespace (host_namespace (p_tc p))"
  let ?get = "HostGet KNamespace [] ?name"
  have key: "key_of ?new = (KNamespace, [], ?name)" by (simp add: key_of_def host_namespace_def no_meta_def)
  have st: "objs ((?get, resp) # ?t) = objs ?t" for resp using honest_hostD(1) [OF assms] by simp
  have st': "objs ((HostCreate ?new, resp') # (?get, resp) # ?t) (k, ns, n) = objs ?t (k, ns, n)"
    if "k \<noteq> KNamespace" for resp resp'
    using honest_hostD(1) [OF assms] that by (simp add: written_def key)
  have "fst (ensureHostNamespace env p) \<and>
    (k \<noteq> KNamespace \<longrightarrow> objs (p_trace (snd (ensureHostNamespace env p))) (k, ns, n) = objs ?t (k, ns, n))"
  proof (cases "objs ?t (KNamespace, [], ?name)")
    case None
    then obtain m where m: "api env ?t ?get = RErr (NotFound m)" using honest_hostD(3) [OF assms] by blast
    have "objs ((?get, RErr (NotFound m)) # ?t) (key_of ?new) = None" using None key st by simp
    from honest_hostD(5) [OF assms this]
    have "write_error (api env ((?get, RErr (NotFound m)) # ?t) (HostCreate ?new)) = None" .
    then show ?thesis using m st' by (simp add: ensureHostNamespace_def Let_def split_beta)
  next
    case (Some x)
    have "api env ?t ?get = RObj x" by (rule honest_hostD(4) [OF assms Some])
    moreover have "kind_of x = KNamespace" using honest_hostD(2) [OF assms Some] by (simp add: key_of_iff)
    then obtain y where "to_namespace x = Some y" by (cases x) simp_all
    ultimately show ?thesis using st by (simp add: ensureHostNamespace_def Let_def split_beta)
  qed
  then show "fst (ensureHostNamespace env p)"
    "k \<noteq> KNamespace \<Longrightarrow> objs (p_trace (snd (ensureHostNamespace env p))) (k, ns, n) = objs ?t (k, ns, n)" by simp_all
qed

text \<open>Applying, then pruning, as stores: together they are \<open>sync_host\<close>.\<close>

lemma apply_then_prune:
  assumes "k \<in> synced_kinds" and "settled k (p_tc p) s (desired_names p k) names"
    and "\<And>ns n. s' (k, ns, n) = applied_all adm p s (k, ns, n)"
  shows "pruned k (p_tc p) names s' (k, ns, n) = sync_host adm p s (k, ns, n)"
proof (cases "ns = host_ns (p_tc p)")
  case False
  then show ?thesis
    using assms(3) by (auto simp: pruned_def applied_all_def applied_on_def sync_host_def split: option.split)
next
  case True
  have sub: "n \<in> names \<Longrightarrow> n \<in> desired_names p k"
    and lost: "n \<in> desired_names p k \<Longrightarrow> n \<in> names \<or>
      (\<exists>x. s (k, host_ns (p_tc p), n) = Some x \<and> \<not> ownedBy (meta_of x) (p_tc p))"
    using assms(2) by (auto simp: settled_def)
  have kinds: "k = KService \<or> k = KIngress \<or> k = KGateway \<or> k = KHTTPRoute"
    using assms(1) by (auto simp: synced_kinds_def)
  note sync = sync_kind [where s' = s' and s = s and names = names]
  show ?thesis
    using kinds sync [where m = "p_services p"] sync [where m = "p_ingresses p"] sync [where m = "p_gateways p"]
      sync [where m = "p_routes p"] assms(3) [of "host_ns (p_tc p)" n] sub lost True
    by (elim disjE) (simp_all add: applied_all_def applied_on_def sync_host_def)
qed

text \<open>What each phase leaves of the synced kinds.\<close>

lemma phases_spare:
  assumes "honest_host env objs adm" and "k \<in> kept_in_step gw"
  shows "wb_ok p q \<Longrightarrow> objs (p_trace q) (k, ns, n) = objs (p_trace p) (k, ns, n)"
    and "step_ok p q \<Longrightarrow> objs (p_trace q) (k, ns, n) = objs (p_trace p) (k, ns, n)"
proof -
  have "k \<noteq> KPVC" using assms(2) by (auto simp: kept_in_step_def split: if_splits)
  then show "step_ok p q \<Longrightarrow> objs (p_trace q) (k, ns, n) = objs (p_trace p) (k, ns, n)"
    by (intro objs_spared [OF assms(1), where Q = "storage_guard (p_tc p)"]) (auto simp: step_ok_def spared(3))
  show "wb_ok p q \<Longrightarrow> objs (p_trace q) (k, ns, n) = objs (p_trace p) (k, ns, n)"
    by (rule objs_spared [OF assms(1), where Q = writeback_calls]) (auto simp: wb_ok_def spared(2))
qed

text \<open>The phases up to the prune: the store they leave, and the state the prune finds.\<close>

lemma before_prune:
  assumes h: "honest_host env objs adm" and inv: "desired_inv tc b p" and k: "k \<in> kept_in_step (p_gatewayAPIOnHost p)"
  defines "q \<equiv> apply_phase env (ensureGuestFinalizers env p)"
  shows "pass_inv tc b q" and "p_gatewayAPIOnHost q = p_gatewayAPIOnHost p" and "p_tc q = tc"
    and "\<exists>s. (\<forall>ns n. s (k, ns, n) = objs (p_trace p) (k, ns, n)) \<and>
      settled k tc s (desired_names p k) (desired_names q k) \<and>
      (\<forall>ns n. objs (p_trace q) (k, ns, n) = applied_all adm p s (k, ns, n))"
proof -
  let ?p1 = "ensureGuestFinalizers env p"
  let ?p2 = "snd (ensureHostNamespace env ?p1)"
  let ?p3 = "applyAll env ?p2"
  have ks: "k \<in> synced_kinds" "k \<noteq> KNamespace" using k by (auto simp: kept_in_step_def synced_kinds_def split: if_splits)
  have i: "pass_inv tc b p" and d: "desired_ok p" and tc: "p_tc p = tc"
    using inv by (simp_all add: desired_inv_def pass_inv_def)
  have w1: "wb_ok p ?p1" using ensureGuestFinalizers_ok i by (simp add: pass_inv_def)
  then have so1: "same_objects ?p1 p" "p_tc ?p1 = tc" "p_gatewayAPIOnHost ?p1 = p_gatewayAPIOnHost p"
    using tc by (simp_all add: wb_ok_def wb_frame_def)
  have i1: "desired_inv tc b ?p1"
    using ensure.invariant [OF i, of env] desired_ok_same [OF so1(1) _ d] so1(2) tc by (simp add: desired_inv_def)
  have so2: "same_objects ?p2 p" "p_tc ?p2 = tc" "p_gatewayAPIOnHost ?p2 = p_gatewayAPIOnHost p"
    using ensureHostNamespace_phase [of env ?p1] so1 by (simp_all add: same_objects_def same_frame_def)
  have d2: "desired_ok ?p2" by (rule desired_ok_same [OF so2(1) _ d]) (simp add: so2(2) tc)
  have f3: "p_tc ?p3 = tc" "p_gatewayAPIOnHost ?p3 = p_gatewayAPIOnHost p"
    using applyAll_phase [OF d2, of env] so2 by (simp_all add: same_frame_def)
  have q: "q = applyStorage env ?p3"
    by (simp add: q_def apply_phase_def Let_def split_beta namespace_objs(1) [OF h])
  have s4: "step_ok ?p3 q" unfolding q by (rule applyStorage_ok)
  then have f4: "same_objects q ?p3" "p_tc q = tc" "p_gatewayAPIOnHost q = p_gatewayAPIOnHost p"
    using f3 by (simp_all add: step_ok_def st_same_def)
  show "pass_inv tc b q" unfolding q_def by (rule conjunct1 [OF apply_phase_ok [OF i1]])
  show "p_gatewayAPIOnHost q = p_gatewayAPIOnHost p" "p_tc q = tc" by (rule f4)+
  have names: "desired_names ?p2 k = desired_names p k" "desired_names q k = desired_names ?p3 k"
    using so2(1) f4(1) by (cases k; simp add: same_objects_def)+
  have "objs (p_trace ?p2) (k, ns, n) = objs (p_trace p) (k, ns, n)" for ns n
    using phases_spare(1) [OF h k w1] namespace_objs(2) [OF h ks(2)] by simp
  moreover have "settled k tc (objs (p_trace ?p2)) (desired_names p k) (desired_names q k)"
    using applyAll_objs(2) [OF h d2 ks(1)] so2(2) by (simp add: names)
  moreover have "objs (p_trace q) (k, ns, n) = applied_all adm p (objs (p_trace ?p2)) (k, ns, n)" for ns n
    using phases_spare(2) [OF h k s4] applyAll_objs(1) [OF h d2] so2 tc by (simp add: applied_all_def same_objects_def)
  ultimately show "\<exists>s. (\<forall>ns n. s (k, ns, n) = objs (p_trace p) (k, ns, n)) \<and>
      settled k tc s (desired_names p k) (desired_names q k) \<and>
      (\<forall>ns n. objs (p_trace q) (k, ns, n) = applied_all adm p s (k, ns, n))"
    by blast
qed

text \<open>The phases after the prune leave its store alone.\<close>

lemma after_prune:
  assumes h: "honest_host env objs adm" and i: "pass_inv tc b q" and k: "k \<in> kept_in_step gw"
  shows "objs (p_trace (writeBackStorage env (writeBack env (releaseGuestFinalizers env
      (pruneStorage env (pruneAll env q)))))) (k, ns, n) = objs (p_trace (pruneAll env q)) (k, ns, n)"
proof -
  let ?p5 = "pruneAll env q"
  let ?p6 = "pruneStorage env ?p5"
  let ?p7 = "releaseGuestFinalizers env ?p6"
  have i5: "pass_inv tc b ?p5" using keepsD(1) [OF keeps_pruneAll i] .
  have i6: "pass_inv tc b ?p6" by (rule keepsD(1) [OF keeps_storage i5]) (rule pruneStorage_ok)
  have "step_ok ?p5 ?p6" using pruneStorage_ok i5 by (simp add: pass_inv_def)
  moreover have w7: "wb_ok ?p6 ?p7" using releaseGuestFinalizers_ok i6 by (simp add: pass_inv_def)
  moreover have "wb_ok ?p7 (writeBack env ?p7)" using writeBack_ok w7 by (simp add: wb_ok_def)
  moreover have "step_ok (writeBack env ?p7) (writeBackStorage env (writeBack env ?p7))" by (rule writeBackStorage_ok)
  ultimately show ?thesis using phases_spare [OF h k] by simp
qed

lemma write_phase_objs:
  assumes "honest_host env objs adm" and "tc_name tc \<noteq> []" "tc_namespace tc \<noteq> []"
    and "desired_inv tc b p" and "k \<in> kept_in_step (p_gatewayAPIOnHost p)"
  shows "objs (p_trace (write_phase env p)) (k, ns, n) = sync_host adm p (objs (p_trace p)) (k, ns, n)"
proof -
  let ?q = "apply_phase env (ensureGuestFinalizers env p)"
  have tc: "p_tc p = tc" using assms(4) by (simp add: desired_inv_def pass_inv_def)
  have k: "k \<in> synced_kinds" using assms(5) by (auto simp: kept_in_step_def synced_kinds_def split: if_splits)
  note q = before_prune(1-3) [OF assms(1,4,5)]
  obtain s where s: "\<And>ns n. s (k, ns, n) = objs (p_trace p) (k, ns, n)"
    "settled k tc s (desired_names p k) (desired_names ?q k)"
    "\<And>ns n. objs (p_trace ?q) (k, ns, n) = applied_all adm p s (k, ns, n)"
    using before_prune(4) [OF assms(1,4,5)] by blast
  have "objs (p_trace (write_phase env p)) (k, ns, n) = objs (p_trace (pruneAll env ?q)) (k, ns, n)"
    using after_prune [OF assms(1) q(1) assms(5)] by (simp add: write_phase_split settle_def)
  also have "\<dots> = pruned k tc (desired_names ?q k) (objs (p_trace ?q)) (k, ns, n)"
    using pruneAll_objs [OF assms(1), of ?q k ns n] assms(2,3,5) q(2,3) by simp
  also have "\<dots> = sync_host adm p s (k, ns, n)"
    using apply_then_prune [OF k, of p s] s(2,3) tc by simp
  also have "\<dots> = sync_host adm p (objs (p_trace p)) (k, ns, n)" by (rule sync_host_cong) (rule s(1))
  finally show ?thesis .
qed

lemma run_syncs:
  assumes "honest_host env objs adm" and "tc_name tc \<noteq> []" "tc_namespace tc \<noteq> []"
    and "fst (run env (newPass tc gw fams hot images tr)) = None"
    and "desired_state env (newPass tc gw fams hot images tr) = Some d" and "k \<in> kept_in_step gw"
  shows "objs (p_trace (snd (run env (newPass tc gw fams hot images tr)))) (k, ns, n) =
    sync_host adm d (objs tr) (k, ns, n)"
proof -
  let ?new = "newPass tc gw fams hot images tr"
  let ?p = "snd (read_phase env ?new)"
  have ok: "fst (read_phase env ?new) = None" using assms(4) by (auto simp: run_def Let_def split_beta split: option.splits)
  note r = read_phase_ok [of tc tr env gw fams hot images]
  have inv: "desired_inv tc (\<forall>e \<in> set tr. \<not> prune_trouble e) ?p" using r ok by simp
  have d: "d = limit_and_class env (snd (gather_guest env ?new))" "fst (gather_guest env ?new) = None"
    using assms(5) by (auto simp: desired_state_def split: prod.splits option.splits)
  then have p: "?p = snd (gatherStorage env d)" by (simp add: read_phase_def Let_def split_beta)
  have g: "gathered (early_guard tc) ?new d" unfolding d(1) by (rule limit_and_class_new)
  then have gd: "p_storage d = None" "p_tc d = tc" "p_gatewayAPIOnHost d = gw"
    by (simp_all add: gathered_def kept_def newPass_def)
  then have sg: "sg_ok d ?p" using gatherStorage_ok [of d env] p by simp
  then have so: "same_objects ?p d" "p_tc ?p = p_tc d" "p_gatewayAPIOnHost ?p = gw" using gd by (simp_all add: sg_ok_def)
  have "objs (p_trace ?p) (k, ns, n) = objs tr (k, ns, n)"
    by (rule objs_spared [OF assms(1), where Q = "early_guard tc"]) (use r spared(1) in auto)
  then have "sync_host adm ?p (objs (p_trace ?p)) (k, ns, n) = sync_host adm d (objs tr) (k, ns, n)"
    unfolding sync_host_same [OF so(1,2)] by (rule sync_host_cong)
  moreover have "snd (run env ?new) = write_phase env ?p" using ok by (simp add: run_def Let_def split_beta)
  ultimately show ?thesis
    using write_phase_objs [OF assms(1-3) inv, of k ns n] assms(6) so(3) by simp
qed

text \<open>
  Claim C3. On a host that does what it is told (\<open>honest_host\<close>: reads and lists are current, nothing is
  refused that it need not refuse, and nobody else writes while the pass runs), a pass implements its
  specification: after a pass that ends without an error, the Services and Ingresses of the host, and
  the Gateways and HTTPRoutes where it has them, are exactly what \<open>sync_host\<close> makes of the objects
  there before.  Under a desired name there is the desired object as the server admits it, merged into
  what this tenant already had there; a foreign object under that name is untouched; what this tenant
  owned under any other name of its namespace is gone, or only marked as being deleted where it has
  finalizers; other objects and other namespaces are as they were.
\<close>

theorem pass_implements_sync:
  assumes "honest_host env objs adm" and "tc_name tc \<noteq> []" "tc_namespace tc \<noteq> []"
    and "fst (run env (newPass tc gw fams hot images tr)) = None"
    and "desired_state env (newPass tc gw fams hot images tr) = Some d" and "k \<in> kept_in_step gw"
  shows "objs (p_trace (snd (run env (newPass tc gw fams hot images tr)))) (k, ns, n) =
    sync_host adm d (objs tr) (k, ns, n)"
  by (rule run_syncs [OF assms])

text \<open>
  A host that keeps what it is sent, from given objects on, and a guest with one LoadBalancer Service:
  its host Service comes into being, a Service of the tenant that nobody wants any more goes, a
  foreign one of the namespace stays.
\<close>

definition kept_objects :: "(obj \<Rightarrow> obj) \<Rightarrow> obj list \<Rightarrow> event list \<Rightarrow> host_store" where
  "kept_objects adm xs h = foldr (\<lambda>e. written adm (fst e)) h (map_of (map (\<lambda>x. (key_of x, x)) xs))"

fun sent :: "request \<Rightarrow> obj list" where
  "sent (HostCreate x) = [x]"
| "sent (HostUpdate x) = [x]"
| "sent _ = []"

text \<open>Whatever may be in the store after a history, a terminating object or not.\<close>

definition candidates :: "(obj \<Rightarrow> obj) \<Rightarrow> obj list \<Rightarrow> event list \<Rightarrow> obj list" where
  "candidates adm xs h = (let cs = xs @ map adm (concat (map (sent \<circ> fst) h)) in cs @ map terminating cs)"

definition keeping_host :: "(obj \<Rightarrow> obj) \<Rightarrow> obj list \<Rightarrow> obj list \<Rightarrow> event list \<Rightarrow> request \<Rightarrow> response" where
  "keeping_host adm guest xs h r =
     (case r of
        HostGet k ns n \<Rightarrow> (case kept_objects adm xs h (k, ns, n) of None \<Rightarrow> RErr (NotFound ''not found'') | Some x \<Rightarrow> RObj x)
      | HostList k ns sel \<Rightarrow> RObjs (filter (\<lambda>x. kept_objects adm xs h (key_of x) = Some x \<and> kind_of x = k \<and>
          om_namespace (meta_of x) = ns \<and> selected sel (meta_of x)) (candidates adm xs h))
      | GuestList k sel \<Rightarrow> RObjs (filter (\<lambda>x. kind_of x = k) guest)
      | VMs ns \<Rightarrow> RVMs []
      | _ \<Rightarrow> ROk)"

lemma candidates_Cons: "set (candidates adm xs h) \<subseteq> set (candidates adm xs (e # h))"
  by (auto simp: candidates_def Let_def)

lemma terminating_candidate: "x \<in> set (candidates adm xs h) \<Longrightarrow> terminating x \<in> set (candidates adm xs h)"
  by (auto simp: candidates_def Let_def)

lemma sent_candidate: "x \<in> set (sent r) \<Longrightarrow> adm x \<in> set (candidates adm xs ((r, resp) # h))"
  by (auto simp: candidates_def Let_def)

lemma kept_objects_known:
  assumes "\<And>x. key_of (adm x) = key_of x"
  shows "kept_objects adm xs h key = Some x \<Longrightarrow> key_of x = key \<and> x \<in> set (candidates adm xs h)"
proof (induction h arbitrary: x)
  case Nil
  then show ?case by (auto simp: kept_objects_def candidates_def dest: map_of_SomeD)
next
  case (Cons e h)
  obtain r resp where e: "e = (r, resp)" by (cases e)
  have k: "written adm r (kept_objects adm xs h) key = Some x" using Cons.prems e by (simp add: kept_objects_def)
  have old: "key_of y = key \<and> y \<in> set (candidates adm xs (e # h))" if "kept_objects adm xs h key = Some y" for y
    using Cons.IH [OF that] candidates_Cons by blast
  show ?case
  proof (cases "kept_objects adm xs h key = Some x")
    case False
    have "(\<exists>z \<in> set (sent r). key = key_of z \<and> x = adm z) \<or> (\<exists>y. kept_objects adm xs h key = Some y \<and> reaped y = Some x)"
      using k False by (auto simp: written_def split: request.splits if_splits option.splits)
    then show ?thesis
    proof (elim disjE bexE exE conjE)
      fix z assume "z \<in> set (sent r)" "key = key_of z" "x = adm z"
      then show ?thesis using sent_candidate [of z r adm xs resp h] assms e by simp
    next
      fix y assume y: "kept_objects adm xs h key = Some y" "reaped y = Some x"
      then have "x = terminating y" by (auto simp: reaped_def split: if_splits)
      then show ?thesis using old [OF y(1)] terminating_candidate by simp
    qed
  qed (rule old)
qed

lemma keeping_host_honest:
  assumes "\<And>x. key_of (adm x) = key_of x"
  shows "honest_host (ex_env (keeping_host adm guest xs)) (kept_objects adm xs) adm"
proof -
  have l: "api (ex_env (keeping_host adm guest xs)) h (HostList k ns sel) = RObjs (filter (\<lambda>x. kept_objects adm xs h (key_of x) = Some x \<and>
      kind_of x = k \<and> om_namespace (meta_of x) = ns \<and> selected sel (meta_of x)) (candidates adm xs h))" for h k ns sel
    by (simp add: keeping_host_def)
  have s: "set (filter (\<lambda>x. kept_objects adm xs h (key_of x) = Some x \<and> kind_of x = k \<and> om_namespace (meta_of x) = ns \<and>
      selected sel (meta_of x)) (candidates adm xs h)) =
      {x. (\<exists>n. kept_objects adm xs h (k, ns, n) = Some x) \<and> selected sel (meta_of x)}" (is "?A = ?B") for h k ns sel
  proof (rule set_eqI)
    fix x
    show "x \<in> ?A \<longleftrightarrow> x \<in> ?B"
      using kept_objects_known [OF assms, of xs h _ x] key_of_iff [of x] unfolding set_filter mem_Collect_eq by metis
  qed
  show ?thesis
    unfolding honest_host_def l response.inject ex_simps simp_thms
    using s kept_objects_known [OF assms]
    by (auto simp: kept_objects_def keeping_host_def split: option.split)
qed

text \<open>A guest with Services only.\<close>

lemma services_only:
  assumes "\<And>h k sel. k \<noteq> KService \<Longrightarrow> api env h (GuestList k sel) = RObjs []"
    and "gatherServices env p = (None, q)" and "\<not> p_gatewayAPIOnHost q" and "LoadBalancerLimit (p_tc q) = (l, False)"
  shows "fst (gather_guest env p) = None" and "fst (gatherStorage env p') = None"
    and "same_objects (limit_and_class env (snd (gather_guest env p))) q"
    and "p_tc (limit_and_class env (snd (gather_guest env p))) = p_tc q"
proof -
  note call = call_def [of env "GuestList k sel" r for k sel r, unfolded Let_def]
  have c: "p_tc (snd (call env r p)) = p_tc p" "p_gatewayAPIOnHost (snd (call env r p)) = p_gatewayAPIOnHost p" for r p
    by (simp_all add: call_def Let_def)
  have ing: "gatherIngresses env p = (None, snd (call env (GuestList KIngress []) p))" for p
    by (simp add: gatherIngresses_def call assms(1))
  show "fst (gatherStorage env p') = None" by (simp add: gatherStorage_def call assms(1))
  define r where "r = snd (gather_guest env p)"
  have g: "fst (gather_guest env p) = None \<and> same_objects r q \<and> p_tc r = p_tc q \<and> \<not> p_gatewayAPIOnHost r"
    using assms(3) by (simp add: r_def gather_guest_def assms(2) ing Let_def c)
  show "fst (gather_guest env p) = None" using g by blast
  have "applyAddressLimit env r = set_loadBalancers (length (claims_in_order (map_order env (p_trace r) ''sort.Slice'') r)) r"
    using assms(4) g by (simp add: applyAddressLimit_def)
  moreover have "wanted_class r' = []" if "\<not> p_gatewayAPIOnHost r'" for r' using that by (simp add: wanted_class_def)
  then have "reconcileGuestGatewayClass env r' = snd (call env (GuestList KGatewayClass managedSelector) r')"
    if "\<not> p_gatewayAPIOnHost r'" for r' using that by (simp add: reconcileGuestGatewayClass_def call assms(1))
  ultimately have "limit_and_class env r = snd (call env (GuestList KGatewayClass managedSelector)
      (set_loadBalancers (length (claims_in_order (map_order env (p_trace r) ''sort.Slice'') r)) r))"
    using g by (simp add: limit_and_class_def set_loadBalancers_def)
  then show "same_objects (limit_and_class env (snd (gather_guest env p))) q"
    "p_tc (limit_and_class env (snd (gather_guest env p))) = p_tc q"
    using g unfolding r_def [symmetric] by (simp_all add: c set_loadBalancers_def same_objects_def)
qed

definition ex_web :: service where
  "ex_web = (ex_service ''web'')\<lparr>svc_ports := [\<lparr>sp_name = ''web'', sp_protocol = ''TCP'', sp_port = 80,
     sp_targetPort = IntVal 80, sp_nodePort = 30080\<rparr>]\<rparr>"

definition ex_host_web :: service where
  "ex_host_web = new_host_service ex_tc ex_web ServiceTypeLoadBalancer (map host_port (svc_ports ex_web))"

lemma ex_web_mapped: "mapService ex_tc ex_web ServiceTypeLoadBalancer [] = Inr ex_host_web"
  by (simp add: mapService_def ex_host_web_def map_ports_Inr ex_web_def ex_service_def ex_meta_def no_meta_def
      requestedAddressFamilies_def families_step_def unsupportedFamilyRefusal_def new_host_service_def Let_def)

lemma ex_web_name: "om_name (svc_meta ex_host_web) = ''t-shop-web''"
proof -
  have "HostObjectName ''t'' ''shop'' ''web'' = ''t-shop-web''" by code_simp
  then show ?thesis
    by (simp add: ex_host_web_def new_host_service_def new_host_meta_def ex_web_def ex_service_def ex_meta_def ex_tc_def no_meta_def)
qed

lemma ex_web_gathered:
  assumes "\<And>h. api env h (GuestList KService []) = RObjs [OService ex_web]"
  shows "\<exists>q. gatherServices env (newPass ex_tc False [] hot images tr) = (None, q) \<and>
    p_services q = [(''t-shop-web'', ex_host_web)] \<and> p_ingresses q = [] \<and> p_gateways q = [] \<and> p_routes q = [] \<and>
    p_tc q = ex_tc \<and> \<not> p_gatewayAPIOnHost q"
proof -
  let ?ref = "ref_of KService (svc_meta ex_web)"
  have w: "wantsLoadBalancer ex_tc ex_web" "SyncServices ex_tc" "om_finalizers (svc_meta ex_web) = []"
    "\<not> om_deleting (svc_meta ex_web)"
    by (simp_all add: wantsLoadBalancer_def SyncServices_def ex_tc_def ex_web_def ex_service_def ex_meta_def no_meta_def
        ServiceTypeLoadBalancer_def tri_state_def)
  let ?p = "newPass ex_tc False [] hot images ((GuestList KService [], RObjs [OService ex_web]) # tr)"
  have l: "gatherServices env (newPass ex_tc False [] hot images tr) = (None, gather_service ?ref (list_service ex_web ?p))"
    using w(2) by (simp add: gatherServices_def call_def Let_def assms newPass_def list_service_def store_def add_key_def)
  have "gather_service ?ref (list_service ex_web ?p) =
      wantFinalizer ?ref ((inScope ?ref (\<lambda>c. c\<lparr>n_services := n_services c + 1\<rparr>) (list_service ex_web ?p))
        \<lparr>p_services := [(''t-shop-web'', ex_host_web)], p_lbPairs := [(?ref, ''t-shop-web'')],
         p_hostOwner := [(''t-shop-web'', ?ref)]\<rparr>)"
    using w by (simp add: gather_service_def list_service_def store_def heap_as_def noteFinalizerHolder_def inScope_def
        newPass_def ex_web_mapped ex_web_name Let_def)
  then show ?thesis unfolding l by (simp add: wantFinalizer_def inScope_def list_service_def store_def newPass_def Let_def)
qed

definition ex_held :: "string \<Rightarrow> strmap \<Rightarrow> obj" where
  "ex_held n ls = OService ((ex_service n)\<lparr>svc_meta :=
     (ex_meta n)\<lparr>om_namespace := ''host-t'', om_labels := ls\<rparr>\<rparr>)"

lemma ex_web_run:
  fixes hot images tr xs adm
  defines "env \<equiv> ex_env (keeping_host adm [OService ex_web] xs)" and "p \<equiv> newPass ex_tc False [] hot images tr"
  shows "fst (run env p) = None"
    and "\<exists>d. desired_state env p = Some d \<and> p_tc d = ex_tc \<and> p_services d = [(''t-shop-web'', ex_host_web)] \<and>
      p_ingresses d = [] \<and> p_gateways d = [] \<and> p_routes d = []"
proof -
  have guest: "api env h (GuestList KService []) = RObjs [OService ex_web]"
    "k \<noteq> KService \<Longrightarrow> api env h (GuestList k sel) = RObjs []" for h k sel
    by (simp_all add: env_def keeping_host_def)
  obtain q where q: "gatherServices env p = (None, q)" "p_services q = [(''t-shop-web'', ex_host_web)]"
    "p_ingresses q = []" "p_gateways q = []" "p_routes q = []" "p_tc q = ex_tc" "\<not> p_gatewayAPIOnHost q"
    using ex_web_gathered [OF guest(1)] unfolding p_def by blast
  have "LoadBalancerLimit (p_tc q) = (0, False)" by (simp add: q LoadBalancerLimit_def ex_tc_def)
  note s = services_only [OF guest(2) q(1,7) this]
  show "fst (run env p) = None" by (simp add: run_def read_phase_def Let_def split_beta s(1,2))
  show "\<exists>d. desired_state env p = Some d \<and> p_tc d = ex_tc \<and> p_services d = [(''t-shop-web'', ex_host_web)] \<and>
      p_ingresses d = [] \<and> p_gateways d = [] \<and> p_routes d = []"
    using s(1,3,4) q by (simp add: desired_state_def split_beta same_objects_def)
qed

lemma pass_implements_sync_witness:
  "let old = ex_held ''old'' (ownershipLabels ex_tc (ex_meta ''old'')); other = ex_held ''other'' Map.empty;
       host = keeping_host (\<lambda>x. x) [OService ex_web] [old, other];
       p = snd (run (ex_env host) (newPass ex_tc False [] True \<lparr>img_Node = [], img_Registrar = []\<rparr> []));
       after = (\<lambda>n. kept_objects (\<lambda>x. x) [old, other] (p_trace p) (KService, ''host-t'', n))
   in after ''old'' = None \<and> after ''other'' = Some other \<and> after ''t-shop-web'' = Some (OService ex_host_web)"
proof -
  let ?old = "ex_held ''old'' (ownershipLabels ex_tc (ex_meta ''old''))" and ?other = "ex_held ''other'' Map.empty"
  let ?env = "ex_env (keeping_host (\<lambda>x. x) [OService ex_web] [?old, ?other])"
  let ?new = "newPass ex_tc False [] True \<lparr>img_Node = [], img_Registrar = []\<rparr> []"
  obtain d where d: "desired_state ?env ?new = Some d" "p_tc d = ex_tc" "p_services d = [(''t-shop-web'', ex_host_web)]"
    using ex_web_run(2) by blast
  have pass: "kept_objects (\<lambda>x. x) [?old, ?other] (p_trace (snd (run ?env ?new))) (KService, ''host-t'', n) =
      sync_host (\<lambda>x. x) d (kept_objects (\<lambda>x. x) [?old, ?other] []) (KService, ''host-t'', n)" for n
    by (rule pass_implements_sync [OF keeping_host_honest [OF refl] _ _ ex_web_run(1) d(1)])
      (simp_all add: ex_tc_def no_meta_def kept_in_step_def)
  show ?thesis
    unfolding Let_def pass
    by (simp add: sync_host_def d sync_object_def kept_objects_def key_of_def ex_held_def ex_service_def ex_meta_def
        ownedBy_def ownershipLabels_def ex_tc_def at_def reaped_def no_meta_def)
qed

end
