(* ===== verification/Convergence.thy ===== *)
theory Convergence
  imports HostSync
begin

text \<open>
  Passes converge: with the same wishes, a second pass over what the first one left changes no host
  object of the kinds a pass keeps in step.  The host may fill in what a request leaves open
  (defaults, node ports, cluster addresses), as API servers do.
\<close>

section \<open>A server that only fills in\<close>

text \<open>
  An API server completes what it is sent: types, target ports, node ports, cluster addresses, address
  families, labels of its own, the defaults of Gateway and route specs, the fields of the metadata.
  \<open>resent\<close> is the completed object \<open>y\<close> as a client returns it that sets the fields it cares for as
  it did in \<open>x\<close> and leaves the others, node ports among them, as they came; the families of a Service
  are returned one way or the other.  The server completes that to \<open>y\<close> again.
\<close>

definition resent_ports :: "service_port list \<Rightarrow> service_port list \<Rightarrow> service_port list" where
  "resent_ports xs ys = map2 (\<lambda>x y. x\<lparr>sp_nodePort := sp_nodePort y\<rparr>) xs ys"

definition resent_service :: "bool \<Rightarrow> service \<Rightarrow> service \<Rightarrow> service" where
  "resent_service families x y =
     (let z = y\<lparr>svc_type := svc_type x, svc_selector := svc_selector x,
                svc_ports := resent_ports (svc_ports x) (svc_ports y)\<rparr>
      in if families then z\<lparr>svc_ipFamilies := svc_ipFamilies x, svc_ipFamilyPolicy := svc_ipFamilyPolicy x\<rparr> else z)"

text \<open>Ports with a protocol keep protocol and number; labels that were sent are there.\<close>

definition completes_service :: "(obj \<Rightarrow> obj) \<Rightarrow> service \<Rightarrow> service \<Rightarrow> bool" where
  "completes_service adm x y \<longleftrightarrow>
     adm (OService x) = OService y \<and> om_labels (svc_meta x) \<subseteq>\<^sub>m om_labels (svc_meta y) \<and>
     ([] \<notin> sp_protocol ` set (svc_ports x) \<longrightarrow> map port_key (svc_ports y) = map port_key (svc_ports x)) \<and>
     adm (OService (resent_service False x y)) = OService y \<and>
     (svc_ipFamilies x \<noteq> [] \<longrightarrow> adm (OService (resent_service True x y)) = OService y)"

definition fills_in :: "(obj \<Rightarrow> obj) \<Rightarrow> bool" where
  "fills_in adm \<longleftrightarrow>
     (\<forall>x. \<exists>y. completes_service adm x y) \<and>
     (\<forall>x. \<exists>y. adm (OIngress x) = OIngress y \<and> om_labels (ing_meta x) \<subseteq>\<^sub>m om_labels (ing_meta y) \<and>
        adm (OIngress (y\<lparr>ing_spec := ing_spec x\<rparr>)) = OIngress y) \<and>
     (\<forall>x. \<exists>y. adm (OGateway x) = OGateway y \<and> om_labels (gw_meta x) \<subseteq>\<^sub>m om_labels (gw_meta y) \<and>
        adm (OGateway (y\<lparr>gw_spec := gw_spec x\<rparr>)) = OGateway y) \<and>
     (\<forall>x. \<exists>y. adm (OHTTPRoute x) = OHTTPRoute y \<and> om_labels (rt_meta x) \<subseteq>\<^sub>m om_labels (rt_meta y) \<and>
        adm (OHTTPRoute (y\<lparr>rt_spec := rt_spec x\<rparr>)) = OHTTPRoute y)"

text \<open>Ports that an API server accepts, with the protocol that it has put into the guest's Service.\<close>

definition well_put :: "service \<Rightarrow> bool" where
  "well_put w \<longleftrightarrow> distinct (map port_key (svc_ports w)) \<and> [] \<notin> sp_protocol ` set (svc_ports w)"

section \<open>Merging into what was filled in\<close>

definition unnumbered :: "service_port list \<Rightarrow> service_port list" where
  "unnumbered ps = map (\<lambda>p. p\<lparr>sp_nodePort := 0\<rparr>) ps"

lemma unnumbered_reconciled: "unnumbered (reconcilePorts have ws) = unnumbered ws"
  by (simp add: unnumbered_def reconcilePorts_map o_def)

lemma unnumbered_eq:
  assumes "unnumbered xs = unnumbered ws"
  shows "length xs = length ws" and "i < length ws \<Longrightarrow> (xs ! i)\<lparr>sp_nodePort := n\<rparr> = (ws ! i)\<lparr>sp_nodePort := n\<rparr>"
    and "map port_key xs = map port_key ws" and "sp_protocol ` set xs = sp_protocol ` set ws"
proof -
  show len: "length xs = length ws" using assms by (metis length_map unnumbered_def)
  have nth: "(xs ! i)\<lparr>sp_nodePort := 0\<rparr> = (ws ! i)\<lparr>sp_nodePort := 0\<rparr>" if "i < length ws" for i
    using assms that len by (metis nth_map unnumbered_def)
  have same: "p\<lparr>sp_nodePort := n\<rparr> = q\<lparr>sp_nodePort := n\<rparr> \<and> port_key p = port_key q \<and> sp_protocol p = sp_protocol q"
    if "p\<lparr>sp_nodePort := 0\<rparr> = q\<lparr>sp_nodePort := 0\<rparr>" for p q n
    using that by (cases p; cases q) (simp add: port_key_def)
  show "i < length ws \<Longrightarrow> (xs ! i)\<lparr>sp_nodePort := n\<rparr> = (ws ! i)\<lparr>sp_nodePort := n\<rparr>" using same [OF nth] by blast
  show "map port_key xs = map port_key ws" using same [OF nth] len by (intro nth_equalityI) auto
  have "map sp_protocol xs = map sp_protocol ws" using same [OF nth] len by (intro nth_equalityI) auto
  then show "sp_protocol ` set xs = sp_protocol ` set ws" by (metis list.set_map)
qed

text \<open>Reconciling the desired ports with the completed ones takes over their node ports, one by one.\<close>

lemma reconcilePorts_completed:
  assumes "distinct (map port_key ws)" and "unnumbered xs = unnumbered ws" and "map port_key ys = map port_key xs"
  shows "reconcilePorts ys ws = resent_ports xs ys"
proof -
  note x = unnumbered_eq [OF assms(2)]
  have keys: "map port_key ys = map port_key ws" using assms(3) x(3) by simp
  then have len: "length ys = length ws" by (metis length_map)
  have "reconcilePorts ys ws ! i = resent_ports xs ys ! i" if i: "i < length ws" for i
  proof -
    have key: "port_key (ys ! i) = port_key (ws ! i)" using keys i len by (metis nth_map)
    have "surviving_port ys (ws ! i) \<noteq> None"
      using key i len by (auto simp: surviving_port_def find_rev_None port_key_eq_iff)
    then obtain h where h: "surviving_port ys (ws ! i) = Some h" by blast
    then have "h \<in> set (rev ys) \<and> same_port h (ws ! i)" unfolding surviving_port_def by (rule find_in_set)
    then have "h \<in> set ys" "port_key h = port_key (ys ! i)" using key by (simp_all add: port_key_eq_iff same_port_def)
    moreover have "inj_on port_key (set ys)" using assms(1) keys by (metis distinct_map)
    ultimately have "h = ys ! i" using i len by (auto dest: inj_onD)
    then show ?thesis using x(1,2) len h i by (simp add: reconcilePorts_map resent_ports_def)
  qed
  then show ?thesis using len x(1) by (intro nth_equalityI) (simp_all add: reconcilePorts_map resent_ports_def)
qed

lemma map_add_le: "w \<subseteq>\<^sub>m m \<Longrightarrow> m ++ w = m"
  by (auto simp: map_add_def map_le_def fun_eq_iff dom_def split: option.split)

lemma merge_meta_completed: "om_labels w \<subseteq>\<^sub>m om_labels m \<Longrightarrow> merge_meta m w = m"
  unfolding merge_meta_def mergeLabels_def by (cases m) (simp add: map_add_le)

lemma merge_meta_le: "om_labels w \<subseteq>\<^sub>m om_labels (merge_meta h w)"
  by (simp add: merge_meta_def mergeLabels_def)

lemma merge_service_completed:
  assumes "well_put w" and "x = w \<or> (\<exists>h. x = merge_service h w)" and "completes_service adm x y"
  shows "adm (OService (merge_service y w)) = OService y"
proof -
  have x: "svc_type x = svc_type w" "svc_selector x = svc_selector w"
    "unnumbered (svc_ports x) = unnumbered (svc_ports w)"
    "svc_ipFamilies w \<noteq> [] \<Longrightarrow> svc_ipFamilies x = svc_ipFamilies w \<and> svc_ipFamilyPolicy x = svc_ipFamilyPolicy w"
    "om_labels (svc_meta w) \<subseteq>\<^sub>m om_labels (svc_meta x)"
    using assms(2) by (auto simp: merge_service_def unnumbered_reconciled Let_def merge_meta_le)
  have "[] \<notin> sp_protocol ` set (svc_ports x)"
    using assms(1) unnumbered_eq(4) [OF x(3)] by (simp add: well_put_def)
  then have "reconcilePorts (svc_ports y) (svc_ports w) = resent_ports (svc_ports x) (svc_ports y)"
    using assms(1,3) x(3) by (intro reconcilePorts_completed) (simp_all add: well_put_def completes_service_def)
  moreover have "merge_meta (svc_meta y) (svc_meta w) = svc_meta y"
    using x(5) assms(3) by (intro merge_meta_completed) (auto simp: completes_service_def intro: map_le_trans)
  ultimately have "merge_service y w = resent_service (svc_ipFamilies w \<noteq> []) x y"
    using x by (cases y) (simp add: merge_service_def resent_service_def Let_def)
  then show ?thesis using assms(3) x(4) by (cases "svc_ipFamilies w = []") (simp_all add: completes_service_def)
qed

section \<open>One object, twice\<close>

text \<open>
  \<open>filled adm enc merge w\<close>: whatever is stored on behalf of the wish \<open>w\<close>, a merge of \<open>w\<close> into it
  is stored as the same, and it carries the labels of \<open>w\<close>.
\<close>

definition filled :: "(obj \<Rightarrow> obj) \<Rightarrow> ('a \<Rightarrow> obj) \<Rightarrow> ('a \<Rightarrow> 'a \<Rightarrow> 'a) \<Rightarrow> 'a \<Rightarrow> bool" where
  "filled adm enc merge w \<longleftrightarrow>
     (\<forall>x. x = w \<or> (\<exists>h. x = merge h w) \<longrightarrow>
        (\<exists>y. adm (enc x) = enc y \<and> adm (enc (merge y w)) = enc y \<and>
           om_labels (meta_of (enc w)) \<subseteq>\<^sub>m om_labels (meta_of (enc y))))"

lemma ownedBy_le:
  assumes "l \<in> range (ownershipLabels tc)" and "l \<subseteq>\<^sub>m om_labels m"
  shows "ownedBy m tc"
proof -
  have "LabelTenantCluster \<in> dom l \<and> LabelTenantClusterNamespace \<in> dom l"
    using assms(1) by (auto simp: ownershipLabels_def)
  then have "om_labels m LabelTenantCluster = l LabelTenantCluster"
    "om_labels m LabelTenantClusterNamespace = l LabelTenantClusterNamespace"
    using assms(2) unfolding map_le_def by metis+
  moreover obtain g where "l = ownershipLabels tc g" using assms(1) by blast
  then have "ownedBy (m\<lparr>om_labels := l\<rparr>) tc" by (intro ownedBy_ownershipLabels [of _ tc g]) simp
  ultimately show ?thesis by (simp add: ownedBy_def at_def)
qed

lemma sync_object_twice:
  assumes "\<And>y. dec (enc y) = Some y" and "have \<noteq> None \<Longrightarrow> dec (the have) \<noteq> None"
    and "\<And>w. want = Some w \<Longrightarrow> filled adm enc merge w"
    and "\<And>w. want = Some w \<Longrightarrow> om_labels (meta_of (enc w)) \<in> range (ownershipLabels tc)"
  shows "sync_object dec enc merge adm tc want (sync_object dec enc merge adm tc want have) =
    sync_object dec enc merge adm tc want have"
proof (cases want)
  case None
  have "sync_object dec enc merge adm tc None (reaped x) = reaped x" if "ownedBy (meta_of x) tc" for x
    using that by (simp add: sync_object_def reaped_def)
  then show ?thesis using None by (simp add: sync_object_def split: option.splits)
next
  case (Some w)
  have again: "sync_object dec enc merge adm tc want (Some (adm (enc x))) = Some (adm (enc x))"
    if x: "x = w \<or> (\<exists>h. x = merge h w)" for x
  proof -
    obtain y where y: "adm (enc x) = enc y" "adm (enc (merge y w)) = enc y"
      "om_labels (meta_of (enc w)) \<subseteq>\<^sub>m om_labels (meta_of (enc y))"
      using assms(3) [OF Some] x unfolding filled_def by blast
    have "ownedBy (meta_of (enc y)) tc" by (rule ownedBy_le [OF assms(4) [OF Some] y(3)])
    then show ?thesis using Some y assms(1) by (simp add: sync_object_def)
  qed
  show ?thesis
  proof (cases "have")
    case None
    then show ?thesis using Some again by (simp add: sync_object_def)
  next
    case h: (Some x)
    then obtain z where "dec x = Some z" using assms(2) by auto
    moreover have "sync_object dec enc merge adm tc want (Some (adm (enc (merge z w)))) = Some (adm (enc (merge z w)))"
      by (rule again) blast
    ultimately show ?thesis using Some h by (auto simp: sync_object_def)
  qed
qed

section \<open>All kinds, twice\<close>

lemma filled_service:
  assumes "fills_in adm" and "well_put w"
  shows "filled adm OService merge_service w"
  unfolding filled_def
proof (intro allI impI)
  fix x assume x: "x = w \<or> (\<exists>h. x = merge_service h w)"
  obtain y where y: "completes_service adm x y" using assms(1) unfolding fills_in_def by blast
  have "om_labels (svc_meta w) \<subseteq>\<^sub>m om_labels (svc_meta x)"
    using x by (auto simp: merge_service_def Let_def merge_meta_le)
  then have "om_labels (svc_meta w) \<subseteq>\<^sub>m om_labels (svc_meta y)"
    using y by (auto simp: completes_service_def intro: map_le_trans)
  then show "\<exists>y. adm (OService x) = OService y \<and> adm (OService (merge_service y w)) = OService y \<and>
      om_labels (meta_of (OService w)) \<subseteq>\<^sub>m om_labels (meta_of (OService y))"
    using merge_service_completed [OF assms(2) x y] y by (auto simp: completes_service_def)
qed

text \<open>The other kinds: metadata and a spec that is sent as a whole.\<close>

lemma filled_spec:
  assumes "\<And>x. \<exists>y. adm (enc x) = enc y \<and> om_labels (m x) \<subseteq>\<^sub>m om_labels (m y) \<and> adm (enc (set_spec (spec x) y)) = enc y"
    and "\<And>h w. merge h w = put_meta (merge_meta (m h) (m w)) (set_spec (spec w) h)"
    and "\<And>y s. put_meta (m y) (set_spec s y) = set_spec s y" and "\<And>y. meta_of (enc y) = m y"
    and "\<And>h w. m (merge h w) = merge_meta (m h) (m w)" and "\<And>h w. spec (merge h w) = spec w"
  shows "filled adm enc merge w"
  unfolding filled_def assms(4)
proof (intro allI impI)
  fix x assume x: "x = w \<or> (\<exists>h. x = merge h w)"
  have "spec x = spec w" "om_labels (m w) \<subseteq>\<^sub>m om_labels (m x)" using x assms(5,6) merge_meta_le by auto
  moreover obtain y where y: "adm (enc x) = enc y" "om_labels (m x) \<subseteq>\<^sub>m om_labels (m y)" "adm (enc (set_spec (spec x) y)) = enc y"
    using assms(1) by blast
  ultimately have l: "om_labels (m w) \<subseteq>\<^sub>m om_labels (m y)" and s: "adm (enc (set_spec (spec w) y)) = enc y"
    by (auto intro: map_le_trans)
  from merge_meta_completed [OF l] have "merge y w = set_spec (spec w) y" unfolding assms(2) by (simp only: assms(3))
  then show "\<exists>y. adm (enc x) = enc y \<and> adm (enc (merge y w)) = enc y \<and> om_labels (m w) \<subseteq>\<^sub>m om_labels (m y)"
    using y(1) s l by auto
qed

lemma filled_others:
  assumes "fills_in adm"
  shows "filled adm OIngress merge_ingress i" and "filled adm OGateway merge_gateway g"
    and "filled adm OHTTPRoute merge_route r"
proof -
  show "filled adm OIngress merge_ingress i"
    by (rule filled_spec [where m = ing_meta and spec = ing_spec and set_spec = "\<lambda>s x. x\<lparr>ing_spec := s\<rparr>"
          and put_meta = "\<lambda>m x. x\<lparr>ing_meta := m\<rparr>"]) (use assms in \<open>simp_all add: fills_in_def merge_ingress_def\<close>)
  show "filled adm OGateway merge_gateway g"
    by (rule filled_spec [where m = gw_meta and spec = gw_spec and set_spec = "\<lambda>s x. x\<lparr>gw_spec := s\<rparr>"
          and put_meta = "\<lambda>m x. x\<lparr>gw_meta := m\<rparr>"]) (use assms in \<open>simp_all add: fills_in_def merge_gateway_def\<close>)
  show "filled adm OHTTPRoute merge_route r"
    by (rule filled_spec [where m = rt_meta and spec = rt_spec and set_spec = "\<lambda>s x. x\<lparr>rt_spec := s\<rparr>"
          and put_meta = "\<lambda>m x. x\<lparr>rt_meta := m\<rparr>"]) (use assms in \<open>simp_all add: fills_in_def merge_route_def\<close>)
qed

lemma desired_labels:
  assumes "desired_ok d"
  shows "map_of (p_services d) n = Some s \<Longrightarrow> om_labels (svc_meta s) \<in> range (ownershipLabels (p_tc d))"
    and "map_of (p_ingresses d) n = Some i \<Longrightarrow> om_labels (ing_meta i) \<in> range (ownershipLabels (p_tc d))"
    and "map_of (p_gateways d) n = Some g \<Longrightarrow> om_labels (gw_meta g) \<in> range (ownershipLabels (p_tc d))"
    and "map_of (p_routes d) n = Some r \<Longrightarrow> om_labels (rt_meta r) \<in> range (ownershipLabels (p_tc d))"
  using desired_mapped [OF assms] by (simp_all add: mapped_meta_def)

lemma sync_host_twice:
  assumes "fills_in adm" and "desired_ok d" and "\<And>x. s (k, ns, n) = Some x \<Longrightarrow> kind_of x = k"
    and "\<And>n w. map_of (p_services d) n = Some w \<Longrightarrow> well_put w"
  shows "sync_host adm d (sync_host adm d s) (k, ns, n) = sync_host adm d s (k, ns, n)"
proof -
  have dec: "s (k, ns, n) \<noteq> None \<Longrightarrow> k = KService \<Longrightarrow> to_service (the (s (k, ns, n))) \<noteq> None"
    "s (k, ns, n) \<noteq> None \<Longrightarrow> k = KIngress \<Longrightarrow> to_ingress (the (s (k, ns, n))) \<noteq> None"
    "s (k, ns, n) \<noteq> None \<Longrightarrow> k = KGateway \<Longrightarrow> to_gateway (the (s (k, ns, n))) \<noteq> None"
    "s (k, ns, n) \<noteq> None \<Longrightarrow> k = KHTTPRoute \<Longrightarrow> to_route (the (s (k, ns, n))) \<noteq> None"
    using assms(3) hk_service.dec_of_kind hk_ingress.dec_of_kind hk_gateway.dec_of_kind hk_route.dec_of_kind by fastforce+
  note twice = sync_object_twice [where tc = "p_tc d"]
  show ?thesis
    using dec desired_labels [OF assms(2)] filled_service [OF assms(1) assms(4)] filled_others [OF assms(1)]
    by (cases k) (auto simp: sync_host_def intro!: twice)
qed

section \<open>The second pass\<close>

lemma desired_state_gathered:
  assumes "desired_state env (newPass tc gw fams hot images tr) = Some d"
  shows "gathered (early_guard tc) (newPass tc gw fams hot images tr) d"
  using assms limit_and_class_new [of tc gw fams hot images tr env]
  by (auto simp: desired_state_def split: prod.splits option.splits)

lemma desired_state_new:
  assumes "desired_state env (newPass tc gw fams hot images tr) = Some d"
  shows "desired_ok d" and "p_tc d = tc"
  using desired_state_gathered [OF assms] by (simp_all add: gathered_def gather_inv_def core_inv_def)

text \<open>
  A pass again, after whatever has happened in between: a name that is as the first pass left it
  stays so, provided the wishes are the same.
\<close>

lemma pass_again:
  assumes "p1 = newPass tc gw fams hot images tr" and "p2 = newPass tc gw fams' hot' images' t"
    and "honest_host env objs adm" and "fills_in adm" and "tc_name tc \<noteq> []" "tc_namespace tc \<noteq> []"
    and "fst (run env p1) = None" and "fst (run env p2) = None"
    and "desired_state env p1 = Some d" and "desired_state env p2 = Some d'" and "same_objects d' d"
    and "\<And>n w. map_of (p_services d) n = Some w \<Longrightarrow> well_put w" and "k \<in> kept_in_step gw"
    and "objs t (k, ns, n) = objs (p_trace (snd (run env p1))) (k, ns, n)"
  shows "objs (p_trace (snd (run env p2))) (k, ns, n) = objs (p_trace (snd (run env p1))) (k, ns, n)"
proof -
  note new = assms(1,2)
  note d = desired_state_new [OF assms(9) [unfolded new(1)]]
    and d' = desired_state_new(2) [OF assms(10) [unfolded new(2)]]
  then have tc: "p_tc d' = p_tc d" by simp
  have 1: "objs (p_trace (snd (run env p1))) (k, ns, n) = sync_host adm d (objs tr) (k, ns, n)"
    unfolding new(1) by (rule run_syncs [OF assms(3,5,6) assms(7,9) [unfolded new(1)] assms(13)])
  have "objs (p_trace (snd (run env p2))) (k, ns, n) = sync_host adm d' (objs t) (k, ns, n)"
    unfolding new(2) by (rule run_syncs [OF assms(3,5,6) assms(8,10) [unfolded new(2)] assms(13)])
  also have "\<dots> = sync_host adm d (sync_host adm d (objs tr)) (k, ns, n)"
    unfolding sync_host_same [OF assms(11) tc] by (rule sync_host_cong) (simp only: assms(14) 1)
  also have "\<dots> = sync_host adm d (objs tr) (k, ns, n)"
    using honest_hostD(2) [OF assms(3)]
    by (intro sync_host_twice [OF assms(4) d(1)]) (auto simp: key_of_def assms(12))
  finally show ?thesis unfolding 1 .
qed

section \<open>Properties\<close>

text \<open>
  Claim C5. Passes converge.  Two passes of a tenant, each without an error and with the same desired
  state, on a host that does what it is told (\<open>honest_host\<close>) and completes what it is sent as API
  servers do (\<open>fills_in\<close>: types, ports, node ports, families, defaults of specs and labels of its own are
  filled in, and a completed object that comes back with the client's fields as they were sent is
  completed to the same again); the ports of every desired Service have a protocol and are distinct.
  Whatever has happened in between, each name of a kind that passes keep in step which is as the first
  pass left it is left so by the second pass as well, an object with all that the host filled in, node
  ports above all, or no object: nothing is created, deleted or changed again.
\<close>

theorem passes_converge:
  assumes "p1 = newPass tc gw fams hot images tr" and "p2 = newPass tc gw fams' hot' images' t"
    and "honest_host env objs adm" and "fills_in adm" and "tc_name tc \<noteq> []" "tc_namespace tc \<noteq> []"
    and "fst (run env p1) = None" and "fst (run env p2) = None"
    and "desired_state env p1 = Some d" and "desired_state env p2 = Some d'" and "same_objects d' d"
    and "\<And>n w. map_of (p_services d) n = Some w \<Longrightarrow> well_put w" and "k \<in> kept_in_step gw"
    and "objs t (k, ns, n) = objs (p_trace (snd (run env p1))) (k, ns, n)"
  shows "objs (p_trace (snd (run env p2))) (k, ns, n) = objs (p_trace (snd (run env p1))) (k, ns, n)"
  by (rule pass_again [OF assms])

text \<open>
  A server that fills in: type, protocol and node port of Services, their families, an address, a UID,
  and the defaults of Gateway and route specs.
\<close>

definition or_default :: "'a list \<Rightarrow> 'a list \<Rightarrow> 'a list" where
  "or_default d x = (if x = [] then d else x)"

definition admit_meta :: "obj_meta \<Rightarrow> obj_meta" where
  "admit_meta m = m\<lparr>om_uid := or_default ''0a1b'' (om_uid m)\<rparr>"

definition admit_port :: "service_port \<Rightarrow> service_port" where
  "admit_port p = p\<lparr>sp_protocol := or_default ''TCP'' (sp_protocol p),
     sp_nodePort := if sp_nodePort p = 0 then 30000 + sp_port p else sp_nodePort p\<rparr>"

definition admit_service :: "service \<Rightarrow> service" where
  "admit_service s = s\<lparr>svc_meta := admit_meta (svc_meta s), svc_type := or_default ''ClusterIP'' (svc_type s),
     svc_ports := map admit_port (svc_ports s), svc_ipFamilies := or_default [IPv4Protocol] (svc_ipFamilies s),
     svc_ipFamilyPolicy := Some (case svc_ipFamilyPolicy s of None \<Rightarrow> ''SingleStack'' | Some p \<Rightarrow> p),
     svc_rest := or_default ''clusterIP: 10.0.0.7'' (svc_rest s)\<rparr>"

fun ex_admit :: "obj \<Rightarrow> obj" where
  "ex_admit (OService s) = OService (admit_service s)"
| "ex_admit (OIngress i) = OIngress (i\<lparr>ing_meta := admit_meta (ing_meta i)\<rparr>)"
| "ex_admit (OGateway g) = OGateway (g\<lparr>gw_meta := admit_meta (gw_meta g),
     gw_spec := (gw_spec g)\<lparr>gs_rest := or_default ''allowedRoutes: Same'' (gs_rest (gw_spec g))\<rparr>\<rparr>)"
| "ex_admit (OHTTPRoute r) = OHTTPRoute (r\<lparr>rt_meta := admit_meta (rt_meta r),
     rt_spec := (rt_spec r)\<lparr>rs_rules := map (\<lambda>u. u\<lparr>rr_rest := or_default ''matches: /'' (rr_rest u)\<rparr>) (rs_rules (rt_spec r))\<rparr>\<rparr>)"
| "ex_admit x = x"

lemma or_default_twice [simp]: "or_default d (or_default d x) = or_default d x"
  by (simp add: or_default_def)

lemma admit_meta_twice [simp]: "admit_meta (admit_meta m) = admit_meta m" "om_labels (admit_meta m) = om_labels m"
  by (simp_all add: admit_meta_def)

lemma ex_admit_key: "key_of (ex_admit x) = key_of x"
  by (cases x) (simp_all add: key_of_def admit_service_def admit_meta_def)

lemma admit_ports_again:
  "map admit_port (resent_ports xs (map admit_port xs)) = map admit_port xs"
  by (induction xs) (simp_all add: resent_ports_def admit_port_def)

lemma ex_admit_completes: "completes_service ex_admit s (admit_service s)"
proof -
  have "map port_key (map admit_port ps) = map port_key ps" if "[] \<notin> sp_protocol ` set ps" for ps
    using that by (induction ps) (auto simp: admit_port_def port_key_def or_default_def)
  then show ?thesis
    by (simp add: completes_service_def resent_service_def admit_service_def admit_ports_again Let_def or_default_def)
qed

lemma ex_admit_fills: "fills_in ex_admit"
  using ex_admit_completes by (auto simp: fills_in_def o_def)

text \<open>Two passes with a busy guest: the host Service keeps the node port, address and UID it was given.\<close>

lemma passes_converge_witness:
  "let xs = [ex_held ''old'' (ownershipLabels ex_tc (ex_meta ''old''))];
       env = ex_env (keeping_host ex_admit [OService ex_web] xs); images = \<lparr>img_Node = [], img_Registrar = []\<rparr>;
       tr1 = p_trace (snd (run env (newPass ex_tc False [] True images [])));
       tr2 = p_trace (snd (run env (newPass ex_tc False [] True images tr1)))
   in kept_objects ex_admit xs tr2 (KService, ''host-t'', ''t-shop-web'') = Some (OService (admit_service ex_host_web)) \<and>
      kept_objects ex_admit xs tr2 (KService, ''host-t'', ''old'') = None"
proof -
  let ?xs = "[ex_held ''old'' (ownershipLabels ex_tc (ex_meta ''old''))]"
  let ?env = "ex_env (keeping_host ex_admit [OService ex_web] ?xs)" and ?images = "\<lparr>img_Node = [], img_Registrar = []\<rparr>"
  let ?p1 = "newPass ex_tc False [] True ?images []"
  let ?tr1 = "p_trace (snd (run ?env ?p1))"
  let ?p2 = "newPass ex_tc False [] True ?images ?tr1"
  let ?objs = "kept_objects ex_admit ?xs"
  obtain d where d: "desired_state ?env ?p1 = Some d" "p_services d = [(''t-shop-web'', ex_host_web)]"
    "p_ingresses d = []" "p_gateways d = []" "p_routes d = []"
    using ex_web_run(2) by blast
  obtain d' where d': "desired_state ?env ?p2 = Some d'" "same_objects d' d"
    using ex_web_run(2) d(2-5) unfolding same_objects_def by metis
  have put: "well_put w" if "map_of (p_services d) n = Some w" for n w
    using that d(2) by (auto simp: well_put_def ex_host_web_def new_host_service_def ex_web_def host_port_def split: if_splits)
  have tenant: "tc_name ex_tc \<noteq> []" "tc_namespace ex_tc \<noteq> []" by (simp_all add: ex_tc_def no_meta_def)
  have k: "KService \<in> kept_in_step False" by (simp add: kept_in_step_def)
  note honest = keeping_host_honest [of ex_admit "[OService ex_web]" ?xs, OF ex_admit_key]
  have again: "?objs (p_trace (snd (run ?env ?p2))) (KService, ''host-t'', n) = ?objs ?tr1 (KService, ''host-t'', n)" for n
    by (rule passes_converge [OF refl refl honest ex_admit_fills tenant ex_web_run(1) ex_web_run(1) d(1) d' put k refl])
  have tc: "p_tc d = ex_tc" by (rule desired_state_new(2) [OF d(1)])
  have first: "?objs ?tr1 (KService, ''host-t'', n) = sync_host ex_admit d (?objs []) (KService, ''host-t'', n)" for n
    by (rule run_syncs [OF honest tenant ex_web_run(1) d(1) k])
  show ?thesis
    unfolding Let_def again first
    by (simp add: sync_host_def sync_object_def d(2) tc kept_objects_def key_of_def ex_held_def ex_service_def ex_meta_def
        ownedBy_def ownershipLabels_def ex_tc_def at_def reaped_def no_meta_def)
qed

end
