(* ===== verification/Teardown.thy ===== *)
theory Teardown
  imports Pass
begin

text \<open>
  Deleting a tenant: the parts that work on the servers alone, without a pass.  \<open>storageTeardown\<close>
  and \<open>cleanupGuestStorage\<close> of storage_pass.go, and \<open>stripGuestFinalizers\<close>,
  \<open>cleanupGuestGatewayClasses\<close> and the delete loops of \<open>reconcileDelete\<close> of
  tenantcluster_controller.go.  Every operation takes the trace of requests and returns it grown.
\<close>

section \<open>One request\<close>

definition ask_api :: "env \<Rightarrow> request \<Rightarrow> event list \<Rightarrow> response \<times> event list" where
  "ask_api env r tr = (let resp = api env tr r in (resp, (r, resp) # tr))"

lemma ask_api_simps [simp]:
  "fst (ask_api env r tr) = api env tr r" "snd (ask_api env r tr) = (r, api env tr r) # tr"
  by (simp_all add: ask_api_def Let_def)

section \<open>Storage on the host\<close>

text \<open>One VM that carries the volume of a host PVC.\<close>

definition teardown_unplug ::
  "env \<Rightarrow> string \<Rightarrow> string \<Rightarrow> string \<times> (string \<times> volume_state) list \<Rightarrow> event list \<Rightarrow> event list" where
  "teardown_unplug env ns volName vm tr =
     (case map_of (snd vm) volName of
        None \<Rightarrow> tr
      | Some vol \<Rightarrow> if InSpec vol then snd (ask_api env (RemoveVolume ns (fst vm) volName) tr) else tr)"

text \<open>One host PVC; the state is whether everything so far is done, and the trace.\<close>

definition teardown_pvc ::
  "env \<Rightarrow> tenant_cluster \<Rightarrow> vm_volumes \<Rightarrow> pvc \<Rightarrow> bool \<times> event list \<Rightarrow> bool \<times> event list" where
  "teardown_pvc env tc vms pvc s =
     (let (finished, tr) = s; volName = VolumeName (om_name (pvc_meta pvc)) in
      if \<not> ownedBy (pvc_meta pvc) tc then s
      else
        let order = go_range (map_order env tr ''storageTeardown'') vms;
            attached = (\<exists>vm \<in> set order. carries volName vm);
            tr = fold (teardown_unplug env (host_ns tc) volName) order tr
        in if attached then (False, tr)
           else
             let (resp, tr) = ask_api env (delete_request (OPVC pvc)) tr
             in if delete_failed resp then (False, tr) else (finished, tr))"

definition storageTeardown ::
  "env \<Rightarrow> bool \<Rightarrow> tenant_cluster \<Rightarrow> event list \<Rightarrow> (string + bool) \<times> event list" where
  "storageTeardown env hot tc tr =
     (let (resp, tr) = ask_api env (HostList KPVC (host_ns tc) (tenantSelector tc)) tr in
      case decode_list to_pvc resp of
        Inl e \<Rightarrow> (Inl (err_text e), tr)
      | Inr pvcs \<Rightarrow>
          if \<not> hot then
            ((if pvcs = [] then Inr True
              else Inl (''host PVCs remain for TenantCluster '' @ tc_name tc @
                '' but no hotplug client is configured'')), tr)
          else
            let (resp, tr) = ask_api env (VMs (host_ns tc)) tr in
            case decode_vms resp of
              Inl e \<Rightarrow> (Inl (err_text e), tr)
            | Inr vms \<Rightarrow>
                let (finished, tr) = fold (teardown_pvc env tc vms) pvcs (True, tr);
                    (clean, reports, tr) = removeOrphanVMVolumes env (host_ns tc) vms tr
                in (Inr (finished \<and> clean), tr))"

section \<open>The other host objects\<close>

text \<open>The closure \<open>del\<close> of \<open>reconcileDelete\<close>; the state is whether a delete has failed.\<close>

definition teardown_delete :: "env \<Rightarrow> tenant_cluster \<Rightarrow> obj \<Rightarrow> bool \<times> event list \<Rightarrow> bool \<times> event list" where
  "teardown_delete env tc x s =
     (let (failed, tr) = s in
      if \<not> ownedBy (meta_of x) tc then s
      else
        let (resp, tr) = ask_api env (delete_request x) tr
        in (failed \<or> delete_failed resp, tr))"

text \<open>One kind: list and delete.  An optional kind may be missing on the host.\<close>

definition teardown_kind ::
  "env \<Rightarrow> tenant_cluster \<Rightarrow> kind \<Rightarrow> (obj \<Rightarrow> 'a option) \<Rightarrow> ('a \<Rightarrow> obj) \<Rightarrow> bool \<Rightarrow> bool \<times> event list \<Rightarrow>
     string option \<times> bool \<times> event list" where
  "teardown_kind env tc k dec enc optional s =
     (let (failed, tr) = s;
          (resp, tr) = ask_api env (HostList k (host_ns tc) (tenantSelector tc)) tr in
      case decode_list dec resp of
        Inl e \<Rightarrow> ((if optional \<and> IsNoMatchError e then None else Some (err_text e)), failed, tr)
      | Inr xs \<Rightarrow> (None, fold (\<lambda>x. teardown_delete env tc (enc x)) xs (failed, tr)))"

section \<open>In the guest\<close>

text \<open>Best effort: every answer is ignored but for the objects a list returned.\<close>

definition strip_object :: "env \<Rightarrow> obj \<Rightarrow> event list \<Rightarrow> event list" where
  "strip_object env x tr =
     (let (changed, fs) = remove_finalizer env GuestFinalizer (om_finalizers (meta_of x))
      in if changed then snd (ask_api env (GuestUpdate (set_finalizers fs x)) tr) else tr)"

definition strip_kind :: "env \<Rightarrow> kind \<Rightarrow> (obj \<Rightarrow> 'a option) \<Rightarrow> ('a \<Rightarrow> obj) \<Rightarrow> event list \<Rightarrow> event list" where
  "strip_kind env k dec enc tr =
     (let (resp, tr) = ask_api env (GuestList k []) tr in
      case decode_list dec resp of
        Inl e \<Rightarrow> tr
      | Inr xs \<Rightarrow> fold (\<lambda>x. strip_object env (enc x)) xs tr)"

definition stripGuestFinalizers :: "env \<Rightarrow> event list \<Rightarrow> event list" where
  "stripGuestFinalizers env tr =
     strip_kind env KHTTPRoute to_route OHTTPRoute
       (strip_kind env KGateway to_gateway OGateway
         (strip_kind env KIngress to_ingress OIngress
           (strip_kind env KService to_service OService tr)))"

text \<open>Delete every object of a kind that carries the managed-by label.\<close>

definition delete_managed :: "env \<Rightarrow> kind \<Rightarrow> (obj \<Rightarrow> 'a option) \<Rightarrow> ('a \<Rightarrow> obj) \<Rightarrow> event list \<Rightarrow> event list" where
  "delete_managed env k dec enc tr =
     (let (resp, tr) = ask_api env (GuestList k managedSelector) tr in
      case decode_list dec resp of
        Inl e \<Rightarrow> tr
      | Inr xs \<Rightarrow> fold (\<lambda>x tr. snd (ask_api env (GuestDelete (enc x)) tr)) xs tr)"

definition delete_driver :: "env \<Rightarrow> event list \<Rightarrow> event list" where
  "delete_driver env tr =
     (let (resp, tr) = ask_api env (GuestGet KCSIDriver [] DriverName) tr in
      case decode_with to_csi_driver resp of
        Inl e \<Rightarrow> tr
      | Inr drv \<Rightarrow> snd (ask_api env (GuestDelete (OCSIDriver drv)) tr))"

definition delete_namespace :: "env \<Rightarrow> event list \<Rightarrow> event list" where
  "delete_namespace env tr =
     (let (resp, tr) = ask_api env (GuestGet KNamespace [] GuestCSINamespace) tr in
      case decode_with to_namespace resp of
        Inl e \<Rightarrow> tr
      | Inr ns \<Rightarrow>
          if at (om_labels (po_meta ns)) ManagedByLabel = ManagedByValue
          then snd (ask_api env (GuestDelete (ONamespace ns)) tr) else tr)"

definition cleanupGuestStorage :: "env \<Rightarrow> event list \<Rightarrow> event list" where
  "cleanupGuestStorage env tr =
     (let tr = strip_kind env KPVC to_pvc OPVC tr;
          tr = strip_kind env KVolumeAttachment to_attachment OVolumeAttachment tr;
          tr = delete_managed env KStorageClass to_storage_class OStorageClass tr;
          tr = delete_managed env KPV to_pv OPV tr
      in delete_namespace env (delete_driver env tr))"

definition cleanupGuestGatewayClasses :: "env \<Rightarrow> event list \<Rightarrow> event list" where
  "cleanupGuestGatewayClasses env tr = delete_managed env KGatewayClass to_gateway_class OGatewayClass tr"

end
