(* ===== verification/Reconciler.thy ===== *)
theory Reconciler
  imports Teardown
begin

text \<open>
  The reconciler of internal/syncer/tenantcluster_controller.go: the client into a guest and its
  cache, what is asked of the host before a pass, a reconciliation with its status, the state of a
  guest that cannot be reached, and the teardown of a deleted TenantCluster.

  Beside the servers of an environment, a reconciler meets third-party code that is a parameter: the
  REST mapper of the host, the parser of kubeconfigs, and the constructor of clients.  A client is a
  name; which answers the guest behind it gives is a parameter too.
\<close>

section \<open>State and surroundings\<close>

type_synonym guest_client = string

record cached_guest =
  cg_secretRV :: string
  cg_client :: guest_client

text \<open>\<open>r_factory\<close> is \<open>NewGuestClient\<close>, \<open>r_hot\<close> whether a \<open>Hotplugger\<close> is configured.\<close>

record reconciler =
  r_interval :: int
  r_factory :: "(string \<Rightarrow> string + guest_client) option"
  r_hot :: bool
  r_images :: node_plugin_images
  r_guests :: "(string \<times> cached_guest) list"

record surroundings =
  s_env :: env
  s_guest :: "guest_client \<Rightarrow> event list \<Rightarrow> request \<Rightarrow> response"
  s_mapping :: "event list \<Rightarrow> string \<Rightarrow> api_error option"
  s_restConfig :: "string \<Rightarrow> string + opaque"
  s_newClient :: "opaque \<Rightarrow> int \<Rightarrow> string + guest_client"

fun guest_request :: "request \<Rightarrow> bool" where
  "guest_request (GuestGet _ _ _) = True"
| "guest_request (GuestList _ _) = True"
| "guest_request (GuestCreate _) = True"
| "guest_request (GuestUpdate _) = True"
| "guest_request (GuestStatusUpdate _) = True"
| "guest_request (GuestDelete _) = True"
| "guest_request _ = False"

text \<open>The environment in which guest requests go through one client.\<close>

definition through :: "surroundings \<Rightarrow> guest_client \<Rightarrow> env" where
  "through s g = (s_env s)\<lparr>api := \<lambda>h r. if guest_request r then s_guest s g h r else api (s_env s) h r\<rparr>"

section \<open>The client into a guest\<close>

definition DefaultInterval :: int where "DefaultInterval = 15 * second"
definition DefaultKubeconfigKey :: string where "DefaultKubeconfigKey = ''kubeconfig''"

definition DefaultGuestClient :: "surroundings \<Rightarrow> string \<Rightarrow> string + guest_client" where
  "DefaultGuestClient s kubeconfig =
     (case s_restConfig s kubeconfig of
        Inl e \<Rightarrow> Inl (''parsing guest kubeconfig: '' @ e)
      | Inr cfg \<Rightarrow> s_newClient s cfg (20 * second))"

definition factory_of :: "surroundings \<Rightarrow> reconciler \<Rightarrow> string \<Rightarrow> string + guest_client" where
  "factory_of s r = (case r_factory r of None \<Rightarrow> DefaultGuestClient s | Some f \<Rightarrow> f)"

definition kubeconfig_key :: "tenant_cluster \<Rightarrow> string" where
  "kubeconfig_key tc =
     (let key = skr_key (kubeconfigSecretRef (tc_spec tc)) in if key = [] then DefaultKubeconfigKey else key)"

definition read_secret :: "surroundings \<Rightarrow> tenant_cluster \<Rightarrow> event list \<Rightarrow> (api_error + secret) \<times> event list" where
  "read_secret s tc tr =
     (let (resp, tr) = ask_api (s_env s)
            (HostGet KSecret (tc_namespace tc) (skr_name (kubeconfigSecretRef (tc_spec tc)))) tr
      in (decode_with to_secret resp, tr))"

definition guestClientFor ::
  "surroundings \<Rightarrow> tenant_cluster \<Rightarrow> reconciler \<Rightarrow> event list \<Rightarrow> (string + guest_client) \<times> reconciler \<times> event list" where
  "guestClientFor s tc r tr =
     (let name = skr_name (kubeconfigSecretRef (tc_spec tc)); (sec, tr) = read_secret s tc tr in
      case sec of
        Inl e \<Rightarrow> (Inl (''reading kubeconfig secret '' @ quote name @ '': '' @ err_text e), r, tr)
      | Inr sec \<Rightarrow>
          let key = kubeconfig_key tc; data = at (se_data sec) key; uid = om_uid (tc_meta tc) in
          if data = [] then
            (Inl (''kubeconfig secret '' @ quote name @ '' has nothing under key '' @ quote key), r, tr)
          else
            let cached = (case map_of (r_guests r) uid of
                None \<Rightarrow> None | Some g \<Rightarrow> if cg_secretRV g = se_resourceVersion sec then Some g else None)
            in case cached of
                 Some g \<Rightarrow> (Inr (cg_client g), r, tr)
               | None \<Rightarrow>
                   (case factory_of s r data of
                      Inl e \<Rightarrow> (Inl (''building guest client: '' @ e), r, tr)
                    | Inr c \<Rightarrow> (Inr c, r\<lparr>r_guests := put uid \<lparr>cg_secretRV = se_resourceVersion sec,
                        cg_client = c\<rparr> (r_guests r)\<rparr>, tr)))"

section \<open>What the host can do\<close>

definition cidr_ips :: "service_cidr list \<Rightarrow> ip list" where
  "cidr_ips items = List.map_filter ParseCIDR (concat (map sd_cidrs items))"

definition hostAddressFamilies :: "surroundings \<Rightarrow> event list \<Rightarrow> ip_family list \<times> event list" where
  "hostAddressFamilies s tr =
     (let (resp, tr) = ask_api (s_env s) (HostList KServiceCIDR [] []) tr in
      case decode_list to_service_cidr resp of
        Inl e \<Rightarrow> ([], tr)
      | Inr items \<Rightarrow>
          let v4 = (\<exists>a \<in> set (cidr_ips items). is_to4 a); v6 = (\<exists>a \<in> set (cidr_ips items). \<not> is_to4 a)
          in ((if v4 then [IPv4Protocol] else []) @ (if v6 then [IPv6Protocol] else []), tr))"

definition hostHasGatewayAPI :: "surroundings \<Rightarrow> event list \<Rightarrow> bool" where
  "hostHasGatewayAPI s tr = (s_mapping s tr ''Gateway'' = None)"

definition interval :: "reconciler \<Rightarrow> int" where
  "interval r = (if r_interval r > 0 then r_interval r else DefaultInterval)"

section \<open>Conditions and the texts in them\<close>

definition CondConnected :: string where "CondConnected = ''Connected''"
definition CondGatewayAPIAvailable :: string where "CondGatewayAPIAvailable = ''GatewayAPIAvailable''"
definition CondSynced :: string where "CondSynced = ''Synced''"
definition ConditionTrue :: string where "ConditionTrue = ''True''"
definition ConditionFalse :: string where "ConditionFalse = ''False''"

definition upd_status :: "(tenant_status \<Rightarrow> tenant_status) \<Rightarrow> tenant_cluster \<Rightarrow> tenant_cluster" where
  "upd_status f tc = tc\<lparr>tc_status := f (tc_status tc)\<rparr>"

definition setCond :: "env \<Rightarrow> string \<Rightarrow> string \<Rightarrow> string \<Rightarrow> string \<Rightarrow> tenant_cluster \<Rightarrow> tenant_cluster" where
  "setCond env condType status reason msg tc =
     upd_status (\<lambda>st. st\<lparr>ts_conditions := snd (set_condition env
       \<lparr>cond_type = condType, cond_status = status, cond_reason = reason, cond_message = msg,
        cond_generation = om_generation (tc_meta tc)\<rparr> (ts_conditions st))\<rparr>) tc"

text \<open>
  \<open>time.Since\<close> and \<open>Round(time.Second)\<close>: a \<open>Duration\<close> is 64 bits of nanoseconds, both saturate,
  and halves round away from zero.
\<close>

definition maxDuration :: int where "maxDuration = 2 ^ 63 - 1"
definition minDuration :: int where "minDuration = - (2 ^ 63)"

definition saturate :: "int \<Rightarrow> int" where
  "saturate d = max minDuration (min maxDuration d)"

definition round_second :: "int \<Rightarrow> int" where
  "round_second d = saturate (sgn d * ((\<bar>d\<bar> + second div 2) div second * second))"

text \<open>
  \<open>Duration.String\<close> for a duration of no less than a second, or none: hours and minutes where there
  are any, then the seconds with what remains of them as a fraction without trailing zeros.
\<close>

definition fraction :: "int \<Rightarrow> string" where
  "fraction n =
     (let digits = show_nat (nat n)
      in if n = 0 then []
         else ''.'' @ rev (dropWhile (\<lambda>c. c = CHR ''0'') (rev (replicate (9 - length digits) (CHR ''0'') @ digits))))"

definition show_duration :: "int \<Rightarrow> string" where
  "show_duration d =
     (let s = \<bar>d\<bar> div second; m = s div 60;
          secs = show_nat (nat (s mod 60)) @ fraction (\<bar>d\<bar> mod second) @ ''s'';
          mins = (if m = 0 then secs else show_nat (nat (m mod 60)) @ ''m'' @ secs);
          hours = (if m div 60 = 0 then mins else show_nat (nat (m div 60)) @ ''h'' @ mins)
      in (if d < 0 then ''-'' else []) @ hours)"

lemma digit_chars:
  "digit_char 0 = CHR ''0''" "digit_char (Suc 0) = CHR ''1''" "digit_char 2 = CHR ''2''" "digit_char 3 = CHR ''3''"
  "digit_char 4 = CHR ''4''" "digit_char 5 = CHR ''5''" "digit_char 6 = CHR ''6''" "digit_char 7 = CHR ''7''"
  "digit_char 8 = CHR ''8''" "digit_char 9 = CHR ''9''"
  by code_simp+

lemma show_duration_examples:
  "show_duration (round_second 0) = ''0s''" "show_duration (round_second 1499999999) = ''1s''"
  "show_duration (round_second 90000000000) = ''1m30s''" "show_duration (round_second 7200000000000) = ''2h0m0s''"
  "show_duration maxDuration = ''2562047h47m16.854775807s''"
  by (simp_all add: show_duration_def round_second_def saturate_def minDuration_def maxDuration_def second_def
      fraction_def Let_def show_nat.simps digit_chars)

section \<open>A guest that cannot be reached\<close>

text \<open>The outcome of a reconciliation: an error, and the delay after which it runs again (0: none).\<close>

record outcome =
  o_error :: "string option"
  o_requeue :: int

definition disconnected ::
  "surroundings \<Rightarrow> reconciler \<Rightarrow> tenant_cluster \<Rightarrow> string \<Rightarrow> event list \<Rightarrow> outcome \<times> event list" where
  "disconnected s r tc cause tr =
     (let env = s_env s;
          tc = upd_status (\<lambda>st. st\<lparr>ts_connected := False\<rparr>) tc;
          (last, tr) = (case ts_lastSyncTime (tc_status tc) of
              None \<Rightarrow> (''never'', tr)
            | Some t \<Rightarrow>
                let (resp, tr) = ask_api env Now tr
                in (show_duration (round_second (saturate (decode_time resp - t))) @ '' ago'', tr));
          tc = setCond env CondConnected ConditionFalse ''GuestUnreachable''
            (''cannot reach the guest cluster (last successful sync: '' @ last @ ''): '' @ cause) tc;
          (resp, tr) = ask_api env (HostStatusUpdate (OTenantCluster tc)) tr
      in (\<lparr>o_error = None, o_requeue = interval r\<rparr>, tr))"

section \<open>A deleted TenantCluster\<close>

text \<open>The kinds deleted on the host; an error returned ends the reconciliation.\<close>

definition teardown_gateways ::
  "surroundings \<Rightarrow> tenant_cluster \<Rightarrow> bool \<times> event list \<Rightarrow> string option \<times> bool \<times> event list" where
  "teardown_gateways s tc st =
     (let env = s_env s in
      if \<not> hostHasGatewayAPI s (snd st) then (None, st)
      else
        let (e, st) = teardown_kind env tc KGateway to_gateway OGateway True st in
        case e of
          Some e \<Rightarrow> (Some e, st)
        | None \<Rightarrow> teardown_kind env tc KHTTPRoute to_route OHTTPRoute True st)"

definition teardown_host ::
  "surroundings \<Rightarrow> tenant_cluster \<Rightarrow> event list \<Rightarrow> string option \<times> bool \<times> event list" where
  "teardown_host s tc tr =
     (let env = s_env s; (e, st) = teardown_kind env tc KService to_service OService False (False, tr) in
      case e of
        Some e \<Rightarrow> (Some e, st)
      | None \<Rightarrow>
          let (e, st) = teardown_kind env tc KIngress to_ingress OIngress False st in
          case e of
            Some e \<Rightarrow> (Some e, st)
          | None \<Rightarrow> teardown_gateways s tc st)"

text \<open>What is undone in the guest, when it can be reached.\<close>

definition cleanup_guest :: "env \<Rightarrow> event list \<Rightarrow> event list" where
  "cleanup_guest env tr =
     cleanupGuestGatewayClasses env (cleanupGuestStorage env (stripGuestFinalizers env tr))"

text \<open>The end of a teardown: the guest, the cached client, the finalizer.\<close>

definition release_tenant ::
  "surroundings \<Rightarrow> tenant_cluster \<Rightarrow> reconciler \<Rightarrow> event list \<Rightarrow> outcome \<times> reconciler \<times> event list" where
  "release_tenant s tc r tr =
     (let (guest, r, tr) = guestClientFor s tc r tr;
          tr = (case guest of Inl e \<Rightarrow> tr | Inr g \<Rightarrow> cleanup_guest (through s g) tr);
          r = r\<lparr>r_guests := del (om_uid (tc_meta tc)) (r_guests r)\<rparr>;
          (changed, fs) = remove_finalizer (s_env s) TenantClusterFinalizer (om_finalizers (tc_meta tc))
      in if changed then
           let (resp, tr) = ask_api (s_env s) (HostUpdate (set_finalizers fs (OTenantCluster tc))) tr
           in (\<lparr>o_error = map_option err_text (write_error resp), o_requeue = 0\<rparr>, r, tr)
         else (\<lparr>o_error = None, o_requeue = 0\<rparr>, r, tr))"

definition reconcileDelete ::
  "surroundings \<Rightarrow> tenant_cluster \<Rightarrow> reconciler \<Rightarrow> event list \<Rightarrow> outcome \<times> reconciler \<times> event list" where
  "reconcileDelete s tc r tr =
     (if \<not> contains_finalizer (s_env s) TenantClusterFinalizer (om_finalizers (tc_meta tc))
      then (\<lparr>o_error = None, o_requeue = 0\<rparr>, r, tr)
      else
        let (storage, tr) = storageTeardown (s_env s) (r_hot r) tc tr in
        case storage of
          Inl e \<Rightarrow> (\<lparr>o_error = Some e, o_requeue = 0\<rparr>, r, tr)
        | Inr storageDone \<Rightarrow>
            let (e, failed, tr) = teardown_host s tc tr in
            case e of
              Some e \<Rightarrow> (\<lparr>o_error = Some e, o_requeue = 0\<rparr>, r, tr)
            | None \<Rightarrow>
                if failed \<or> \<not> storageDone then (\<lparr>o_error = None, o_requeue = interval r\<rparr>, r, tr)
                else release_tenant s tc r tr)"

section \<open>A reconciliation\<close>

text \<open>
  The refusals of a pass, counted.  Every refusal is of an object in scope
  (\<open>refused_in_scope\<close> of Refusals), so the sum over these is the sum over the whole map.
\<close>

definition count_refusals :: "pass \<Rightarrow> nat" where
  "count_refusals p = sum_list (map (\<lambda>ref. length (p_refusals p ref)) (remdups (p_guestObjs p)))"

definition gateway_condition :: "env \<Rightarrow> bool \<Rightarrow> tenant_cluster \<Rightarrow> tenant_cluster" where
  "gateway_condition env gw tc =
     (if \<not> SyncGateways tc then tc
      else if gw then setCond env CondGatewayAPIAvailable ConditionTrue ''Available''
             ''the host cluster has the Gateway API'' tc
      else setCond env CondGatewayAPIAvailable ConditionFalse ''HostMissingCRDs''
             ''the host cluster has no Gateway API CRDs; Gateway and HTTPRoute sync is skipped'' tc)"

definition synced_message :: "resource_counts \<Rightarrow> string" where
  "synced_message n = ''synced '' @ show_nat (n_services n) @ '' service(s), '' @ show_nat (n_ingresses n) @
     '' ingress(es), '' @ show_nat (n_gateways n) @ '' gateway(s), '' @ show_nat (n_httpRoutes n) @
     '' route(s), '' @ show_nat (n_pvcs n) @ '' PVC(s)''"

definition synced_condition :: "env \<Rightarrow> pass \<Rightarrow> tenant_cluster \<Rightarrow> tenant_cluster" where
  "synced_condition env p tc =
     (if p_problems p \<noteq> [] then
        setCond env CondSynced ConditionFalse ''Errors'' (summarize (p_problems p) 3) tc
      else if count_refusals p > 0 then
        setCond env CondSynced ConditionFalse ''Refusals''
          (show_nat (count_refusals p) @ '' hostname/backend refusal(s); details are on the guest resources'') tc
      else setCond env CondSynced ConditionTrue ''AllSynced'' (synced_message (p_counts p)) tc)"

definition synced_status ::
  "env \<Rightarrow> bool \<Rightarrow> ip_family list \<Rightarrow> instant \<Rightarrow> pass \<Rightarrow> tenant_cluster \<Rightarrow> tenant_cluster" where
  "synced_status env gw fams now p tc =
     (let tc = upd_status (\<lambda>st. st\<lparr>ts_connected := True, ts_lastSyncTime := Some now,
            ts_observed := p_counts p, ts_usage := n_loadBalancers (p_counts p), ts_families := fams\<rparr>) tc;
          tc = setCond env CondConnected ConditionTrue ''Connected'' ''the guest API is reachable'' tc
      in synced_condition env p (gateway_condition env gw tc))"

text \<open>The part of a reconciliation after the finalizer is on.\<close>

definition sync_tenant ::
  "surroundings \<Rightarrow> tenant_cluster \<Rightarrow> reconciler \<Rightarrow> event list \<Rightarrow> outcome \<times> reconciler \<times> event list" where
  "sync_tenant s tc r tr =
     (let (guest, r, tr) = guestClientFor s tc r tr in
      case guest of
        Inl e \<Rightarrow> (let (res, tr) = disconnected s r tc e tr in (res, r, tr))
      | Inr g \<Rightarrow>
          let gw = hostHasGatewayAPI s tr;
              (fams, tr) = hostAddressFamilies s tr;
              (e, p) = run (through s g) (newPass tc gw fams (r_hot r) (r_images r) tr);
              tr = p_trace p
          in case e of
               Some e \<Rightarrow> (let (res, tr) = disconnected s r tc e tr in (res, r, tr))
             | None \<Rightarrow>
                 let (now, tr) = ask_api (s_env s) Now tr;
                     tc = synced_status (s_env s) gw fams (decode_time now) p tc;
                     (resp, tr) = ask_api (s_env s) (HostStatusUpdate (OTenantCluster tc)) tr
                 in case write_error resp of
                      Some e \<Rightarrow> (\<lparr>o_error = Some (err_text e), o_requeue = 0\<rparr>, r, tr)
                    | None \<Rightarrow> (\<lparr>o_error = None, o_requeue = interval r\<rparr>, r, tr))"

definition Reconcile ::
  "surroundings \<Rightarrow> string \<Rightarrow> string \<Rightarrow> reconciler \<Rightarrow> event list \<Rightarrow> outcome \<times> reconciler \<times> event list" where
  "Reconcile s ns name r tr =
     (let (resp, tr) = ask_api (s_env s) (HostGet KTenantCluster ns name) tr in
      case decode_with to_tenant_cluster resp of
        Inl e \<Rightarrow> (\<lparr>o_error = (if IsNotFound e then None else Some (err_text e)), o_requeue = 0\<rparr>, r, tr)
      | Inr tc \<Rightarrow>
          if om_deleting (tc_meta tc) then reconcileDelete s tc r tr
          else
            let (changed, fs) = add_finalizer (s_env s) TenantClusterFinalizer (om_finalizers (tc_meta tc)) in
            if \<not> changed then sync_tenant s tc r tr
            else
              let tc = tc\<lparr>tc_meta := (tc_meta tc)\<lparr>om_finalizers := fs\<rparr>\<rparr>;
                  (resp, tr) = ask_api (s_env s) (HostUpdate (OTenantCluster tc)) tr
              in case decode_write to_tenant_cluster tc resp of
                   Inl e \<Rightarrow> (\<lparr>o_error = Some (err_text e), o_requeue = 0\<rparr>, r, tr)
                 | Inr tc \<Rightarrow> sync_tenant s tc r tr)"

section \<open>Routing events of host objects\<close>

definition mapHostObjectToTenant :: "obj_meta \<Rightarrow> (string \<times> string) list" where
  "mapHostObjectToTenant m =
     (let name = at (om_labels m) LabelTenantCluster; ns = at (om_labels m) LabelTenantClusterNamespace
      in if name = [] \<or> ns = [] then [] else [(ns, name)])"

end
