(* ===== verification/TeardownInv.thy ===== *)
theory TeardownInv
  imports Reconciler
begin

text \<open>
  What the teardown of a tenant may ask of the servers, and what has been achieved when it comes to
  the release of the finalizer: every object listed is gone as far as the servers answered.
\<close>

section \<open>What counts as torn down\<close>

text \<open>An owned object for which a delete succeeded, or found nothing.\<close>

definition gone :: "tenant_cluster \<Rightarrow> event list \<Rightarrow> obj \<Rightarrow> bool" where
  "gone tc h x \<longleftrightarrow> ownedBy (meta_of x) tc \<longrightarrow>
     (\<exists>resp. (delete_request x, resp) \<in> set h \<and> \<not> delete_failed resp)"

text \<open>A kind whose objects were listed and are gone, or that the host does not have.\<close>

definition cleared :: "tenant_cluster \<Rightarrow> event list \<Rightarrow> kind \<Rightarrow> bool" where
  "cleared tc h k \<longleftrightarrow>
     (\<exists>xs. (HostList k (host_ns tc) (tenantSelector tc), RObjs xs) \<in> set h \<and> (\<forall>x \<in> set xs. gone tc h x))"

definition absent :: "tenant_cluster \<Rightarrow> event list \<Rightarrow> kind \<Rightarrow> bool" where
  "absent tc h k \<longleftrightarrow> (\<exists>m. (HostList k (host_ns tc) (tenantSelector tc), RErr (NoMatch m)) \<in> set h)"

text \<open>No VM was listed with a volume of a host PVC that does not exist.\<close>

definition claim_found :: "string \<Rightarrow> event list \<Rightarrow> string \<times> volume_state \<Rightarrow> bool" where
  "claim_found ns h v \<longleftrightarrow> Claim (snd v) \<noteq> [] \<and> VolumeName (Claim (snd v)) = fst v \<longrightarrow>
     (\<exists>x. (HostGet KPVC ns (Claim (snd v)), RObj (OPVC x)) \<in> set h)"

definition no_orphans :: "tenant_cluster \<Rightarrow> event list \<Rightarrow> bool" where
  "no_orphans tc h \<longleftrightarrow>
     (\<exists>vms. (VMs (host_ns tc), RVMs vms) \<in> set h \<and>
        (\<forall>vm \<in> set vms. \<forall>v \<in> set (snd vm). claim_found (host_ns tc) h v))"

lemma gone_mono: "gone tc h x \<Longrightarrow> set h \<subseteq> set h' \<Longrightarrow> gone tc h' x"
  by (auto simp: gone_def)

lemma cleared_mono: "cleared tc h k \<Longrightarrow> set h \<subseteq> set h' \<Longrightarrow> cleared tc h' k"
  unfolding cleared_def using gone_mono by blast

lemma absent_mono: "absent tc h k \<Longrightarrow> set h \<subseteq> set h' \<Longrightarrow> absent tc h' k"
  by (auto simp: absent_def)

lemma claim_found_mono: "claim_found ns h v \<Longrightarrow> set h \<subseteq> set h' \<Longrightarrow> claim_found ns h' v"
  by (auto simp: claim_found_def)

lemma no_orphans_mono: "no_orphans tc h \<Longrightarrow> set h \<subseteq> set h' \<Longrightarrow> no_orphans tc h'"
  unfolding no_orphans_def using claim_found_mono by blast

section \<open>What a teardown may ask of the host\<close>

text \<open>Reads, deletes as guarded as those of a pass, and unplugging; nothing is made or plugged.\<close>

definition undo_guard :: "tenant_cluster \<Rightarrow> event list \<Rightarrow> request \<Rightarrow> bool" where
  "undo_guard tc h r \<longleftrightarrow> (case r of
     HostGet k ns n \<Rightarrow> k = KPVC \<and> ns = host_ns tc
   | HostList k ns sel \<Rightarrow> k \<in> host_kinds \<and> ns = host_ns tc \<and> sel = tenantSelector tc
   | HostDelete x uid \<Rightarrow> delete_ok tc h x uid
   | RemoveVolume ns vm vol \<Rightarrow> ns = host_ns tc
   | VMs ns \<Rightarrow> ns = host_ns tc
   | _ \<Rightarrow> False)"

section \<open>The kinds deleted in loops\<close>

lemma teardown_delete_failed: "fst s \<Longrightarrow> fst (teardown_delete env tc x s)"
  by (simp add: teardown_delete_def split_beta Let_def)

lemma fold_teardown_delete_failed: "fst s \<Longrightarrow> fst (fold (\<lambda>x. teardown_delete env tc (enc x)) xs s)"
  by (induction xs arbitrary: s) (simp_all add: teardown_delete_failed)

lemma teardown_delete_ext:
  "(delete_ok tc (snd s) x (om_uid (meta_of x)) \<or> \<not> ownedBy (meta_of x) tc) \<Longrightarrow>
     trace_ext (undo_guard tc) (snd s) (snd (teardown_delete env tc x s))"
  by (auto simp: teardown_delete_def split_beta Let_def delete_request_def undo_guard_def intro: trace_ext_one)

lemma teardown_delete_gone:
  "\<not> fst (teardown_delete env tc x s) \<Longrightarrow> gone tc (snd (teardown_delete env tc x s)) x"
  by (auto simp: teardown_delete_def split_beta Let_def gone_def)

locale teardown_target =
  fixes k :: kind
    and dec :: "obj \<Rightarrow> 'a option"
    and enc :: "'a \<Rightarrow> obj"
  assumes dec_enc: "dec x = Some y \<Longrightarrow> x = enc y"
    and kind_enc: "kind_of (enc y) = k"
    and kind_synced: "k \<in> synced_kinds"
begin

lemma deletes:
  assumes "(HostList k (host_ns tc) (tenantSelector tc), RObjs xs) \<in> set (snd s)"
    and "enc ` set items \<subseteq> set xs"
  shows "trace_ext (undo_guard tc) (snd s) (snd (fold (\<lambda>x. teardown_delete env tc (enc x)) items s)) \<and>
     (\<not> fst (fold (\<lambda>x. teardown_delete env tc (enc x)) items s) \<longrightarrow>
        (\<forall>x \<in> set items. gone tc (snd (fold (\<lambda>x. teardown_delete env tc (enc x)) items s)) (enc x)))"
  using assms
proof (induction items arbitrary: s)
  case (Cons x items)
  define s1 where "s1 = teardown_delete env tc (enc x) s"
  define s2 where "s2 = fold (\<lambda>x. teardown_delete env tc (enc x)) items s1"
  have "delete_ok tc (snd s) (enc x) (om_uid (meta_of (enc x))) \<or> \<not> ownedBy (meta_of (enc x)) tc"
    using Cons.prems kind_enc [of x] kind_synced synced_not_KPVC [of k] by (auto simp: delete_ok_def)
  then have e1: "trace_ext (undo_guard tc) (snd s) (snd s1)" unfolding s1_def by (rule teardown_delete_ext)
  from trace_ext_subset [OF this] have "(HostList k (host_ns tc) (tenantSelector tc), RObjs xs) \<in> set (snd s1)"
    using Cons.prems(1) by blast
  from Cons.IH [OF this] Cons.prems(2)
  have e2: "trace_ext (undo_guard tc) (snd s1) (snd s2)" and g: "\<not> fst s2 \<longrightarrow> (\<forall>x \<in> set items. gone tc (snd s2) (enc x))"
    by (simp_all add: s2_def)
  have "gone tc (snd s2) (enc x)" if "\<not> fst s2"
  proof -
    have "\<not> fst s1" using that fold_teardown_delete_failed unfolding s2_def by blast
    then have "gone tc (snd s1) (enc x)" unfolding s1_def by (rule teardown_delete_gone)
    then show ?thesis by (rule gone_mono) (rule trace_ext_subset [OF e2])
  qed
  then show ?case using trace_ext_trans [OF e2 e1] g by (simp add: s1_def s2_def)
qed simp

lemma kind_done:
  assumes "teardown_kind env tc k dec enc optional (failed, tr) = (e, failed', tr')"
  shows "trace_ext (undo_guard tc) tr tr'" and "failed \<Longrightarrow> failed'"
    and "e = None \<Longrightarrow> \<not> failed' \<Longrightarrow> cleared tc tr' k \<or> optional \<and> absent tc tr' k"
proof -
  let ?list = "HostList k (host_ns tc) (tenantSelector tc)"
  let ?resp = "api env tr ?list"
  let ?t1 = "(?list, ?resp) # tr"
  have one: "trace_ext (undo_guard tc) tr ?t1"
    by (rule trace_ext_one) (simp add: undo_guard_def kind_synced)
  have "trace_ext (undo_guard tc) tr tr' \<and> (failed \<longrightarrow> failed') \<and>
      (e = None \<and> \<not> failed' \<longrightarrow> cleared tc tr' k \<or> optional \<and> absent tc tr' k)"
  proof (cases "decode_list dec ?resp")
    case (Inl err)
    then have "e = (if optional \<and> IsNoMatchError err then None else Some (err_text err))" "failed' = failed" "tr' = ?t1"
      using assms by (simp_all add: teardown_kind_def Let_def split_beta)
    moreover have "absent tc ?t1 k" if nm: "IsNoMatchError err"
    proof -
      obtain m where m: "err = NoMatch m" using nm by (cases err) auto
      have "?resp = RErr (NoMatch m)" using Inl unfolding m by (cases ?resp) (auto simp: decode_error_def split: option.splits)
      then show ?thesis by (auto simp: absent_def)
    qed
    ultimately show ?thesis using one by (auto split: if_splits)
  next
    case (Inr ys)
    from decode_list_Inr [OF this] obtain xs where xs: "?resp = RObjs xs" "list_all2 (\<lambda>x y. dec x = Some y) xs ys" .
    have eq: "xs = map enc ys"
      using xs(2) by (induction xs ys rule: list_all2_induct) (auto dest: dec_enc)
    define s2 where "s2 = fold (\<lambda>x. teardown_delete env tc (enc x)) ys (failed, ?t1)"
    have r: "e = None" "failed' = fst s2" "tr' = snd s2"
      using assms Inr by (simp_all add: teardown_kind_def Let_def split_beta s2_def)
    have d: "trace_ext (undo_guard tc) ?t1 (snd s2)" "\<not> fst s2 \<longrightarrow> (\<forall>x \<in> set ys. gone tc (snd s2) (enc x))"
      using deletes [of tc xs "(failed, ?t1)" ys env] xs(1) eq by (simp_all add: s2_def)
    have "(?list, RObjs xs) \<in> set (snd s2)" using trace_ext_subset [OF d(1)] xs(1) by auto
    then have "cleared tc (snd s2) k" if "\<not> fst s2"
      unfolding cleared_def using d(2) that eq by (intro exI [of _ xs]) simp
    moreover have "failed \<longrightarrow> fst s2" using fold_teardown_delete_failed [of "(failed, ?t1)" env tc enc ys] by (simp add: s2_def)
    ultimately show ?thesis using trace_ext_trans [OF d(1) one] r by simp
  qed
  then show "trace_ext (undo_guard tc) tr tr'" and "failed \<Longrightarrow> failed'"
    and "e = None \<Longrightarrow> \<not> failed' \<Longrightarrow> cleared tc tr' k \<or> optional \<and> absent tc tr' k" by blast+
qed

end

interpretation td_service: teardown_target KService to_service OService
  by unfold_locales (auto simp: synced_kinds_def elim: to_service.elims)

interpretation td_ingress: teardown_target KIngress to_ingress OIngress
  by unfold_locales (auto simp: synced_kinds_def elim: to_ingress.elims)

interpretation td_gateway: teardown_target KGateway to_gateway OGateway
  by unfold_locales (auto simp: synced_kinds_def elim: to_gateway.elims)

interpretation td_route: teardown_target KHTTPRoute to_route OHTTPRoute
  by unfold_locales (auto simp: synced_kinds_def elim: to_route.elims)

text \<open>What has been deleted beside storage when no kind reported trouble.\<close>

definition host_cleared :: "surroundings \<Rightarrow> tenant_cluster \<Rightarrow> event list \<Rightarrow> bool" where
  "host_cleared s tc h \<longleftrightarrow> cleared tc h KService \<and> cleared tc h KIngress \<and>
     ((\<exists>h'. \<not> hostHasGatewayAPI s h' \<and> set h' \<subseteq> set h) \<or>
      (cleared tc h KGateway \<or> absent tc h KGateway) \<and> (cleared tc h KHTTPRoute \<or> absent tc h KHTTPRoute))"

lemma teardown_gateways_done:
  assumes "teardown_gateways s tc (failed, tr) = (e, failed', tr')"
  shows "trace_ext (undo_guard tc) tr tr'" and "failed \<Longrightarrow> failed'"
    and "e = None \<Longrightarrow> \<not> failed' \<Longrightarrow> (\<exists>h'. \<not> hostHasGatewayAPI s h' \<and> set h' \<subseteq> set tr') \<or>
      (cleared tc tr' KGateway \<or> absent tc tr' KGateway) \<and> (cleared tc tr' KHTTPRoute \<or> absent tc tr' KHTTPRoute)"
proof -
  obtain e1 f1 t1 where g: "teardown_kind (s_env s) tc KGateway to_gateway OGateway True (failed, tr) = (e1, f1, t1)"
    by (metis prod_cases3)
  obtain e2 f2 t2 where r: "teardown_kind (s_env s) tc KHTTPRoute to_route OHTTPRoute True (f1, t1) = (e2, f2, t2)"
    by (metis prod_cases3)
  note G = td_gateway.kind_done [OF g] and R = td_route.kind_done [OF r]
  note sub = trace_ext_subset [OF R(1)]
  have ext: "trace_ext (undo_guard tc) tr t2" by (rule trace_ext_trans [OF R(1) G(1)])
  have keep: "cleared tc t2 KGateway \<or> absent tc t2 KGateway" if "cleared tc t1 KGateway \<or> absent tc t1 KGateway"
    using that cleared_mono [OF _ sub] absent_mono [OF _ sub] by blast
  have cases: "(e, failed', tr') =
      (if \<not> hostHasGatewayAPI s tr then (None, failed, tr) else if e1 = None then (e2, f2, t2) else (e1, f1, t1))"
    using assms g r by (cases e1) (auto simp: teardown_gateways_def Let_def)
  show "trace_ext (undo_guard tc) tr tr'" using cases G(1) ext by (auto split: if_splits)
  show "failed \<Longrightarrow> failed'" using cases G(2) R(2) by (auto split: if_splits)
  show "(\<exists>h'. \<not> hostHasGatewayAPI s h' \<and> set h' \<subseteq> set tr') \<or>
      (cleared tc tr' KGateway \<or> absent tc tr' KGateway) \<and> (cleared tc tr' KHTTPRoute \<or> absent tc tr' KHTTPRoute)"
    if "e = None" "\<not> failed'"
  proof (cases "hostHasGatewayAPI s tr \<and> e1 = None")
    case True
    then have "e2 = None" "\<not> f2" "tr' = t2" using cases that by auto
    moreover from this R(2) have "\<not> f1" by blast
    ultimately show ?thesis using G(3) R(3) True keep by blast
  next
    case False
    then show ?thesis using cases that by (auto split: if_splits)
  qed
qed

lemma teardown_host_done:
  assumes "teardown_host s tc tr = (e, failed, tr')"
  shows "trace_ext (undo_guard tc) tr tr'" and "e = None \<Longrightarrow> \<not> failed \<Longrightarrow> host_cleared s tc tr'"
proof -
  obtain e1 f1 t1 where 1: "teardown_kind (s_env s) tc KService to_service OService False (False, tr) = (e1, f1, t1)"
    by (metis prod_cases3)
  obtain e2 f2 t2 where 2: "teardown_kind (s_env s) tc KIngress to_ingress OIngress False (f1, t1) = (e2, f2, t2)"
    by (metis prod_cases3)
  obtain e3 f3 t3 where 3: "teardown_gateways s tc (f2, t2) = (e3, f3, t3)"
    by (metis prod_cases3)
  note A = td_service.kind_done [OF 1] and B = td_ingress.kind_done [OF 2] and C = teardown_gateways_done [OF 3]
  have AB: "trace_ext (undo_guard tc) tr t2" by (rule trace_ext_trans [OF B(1) A(1)])
  have ABC: "trace_ext (undo_guard tc) tr t3" by (rule trace_ext_trans [OF C(1) AB])
  have cases: "(e, failed, tr') = (if e1 \<noteq> None then (e1, f1, t1) else if e2 \<noteq> None then (e2, f2, t2) else (e3, f3, t3))"
    using assms 1 2 3 by (cases e1; cases e2) (auto simp: teardown_host_def Let_def)
  show "trace_ext (undo_guard tc) tr tr'" using cases A(1) AB ABC by (auto split: if_splits)
  show "host_cleared s tc tr'" if "e = None" "\<not> failed"
  proof -
    have r: "e1 = None" "e2 = None" "e3 = None" "\<not> f3" "tr' = t3" using cases that by (auto split: if_splits)
    then have "\<not> f2" using C(2) by blast
    moreover from this have "\<not> f1" using B(2) by blast
    ultimately have "cleared tc t1 KService" "cleared tc t2 KIngress" using A(3) B(3) r by simp_all
    then have "cleared tc t3 KService" "cleared tc t3 KIngress"
      using cleared_mono trace_ext_subset [OF C(1)] trace_ext_subset [OF B(1)] by (meson subset_trans)+
    then show ?thesis using C(3) r unfolding host_cleared_def by blast
  qed
qed

section \<open>Storage\<close>

lemma teardown_unplug_ext: "trace_ext (undo_guard tc) tr (teardown_unplug env (host_ns tc) v vm tr)"
  by (auto simp: teardown_unplug_def undo_guard_def split: option.split intro: trace_ext_one)

lemma fold_teardown_unplug_ext: "trace_ext (undo_guard tc) tr (fold (teardown_unplug env (host_ns tc) v) vms tr)"
proof (induction vms arbitrary: tr)
  case (Cons vm vms)
  from trace_ext_trans [OF Cons teardown_unplug_ext] show ?case by simp
qed simp

lemma teardown_pvc_step:
  assumes "(HostList KPVC (host_ns tc) (tenantSelector tc), RObjs xs) \<in> set (snd s)" and "OPVC x \<in> set xs"
    and "(VMs (host_ns tc), RVMs vms) \<in> set (snd s)"
  shows "trace_ext (undo_guard tc) (snd s) (snd (teardown_pvc env tc vms x s))"
    and "fst (teardown_pvc env tc vms x s) \<Longrightarrow> fst s \<and> gone tc (snd (teardown_pvc env tc vms x s)) (OPVC x)"
proof -
  let ?v = "VolumeName (om_name (pvc_meta x))"
  define order where "order = go_range (map_order env (snd s) ''storageTeardown'') vms"
  define t1 where "t1 = fold (teardown_unplug env (host_ns tc) ?v) order (snd s)"
  define t2 where "t2 = (delete_request (OPVC x), api env t1 (delete_request (OPVC x))) # t1"
  have res: "teardown_pvc env tc vms x s =
      (if \<not> ownedBy (pvc_meta x) tc then s
       else if \<exists>vm \<in> set vms. carries ?v vm then (False, t1)
       else (if delete_failed (api env t1 (delete_request (OPVC x))) then False else fst s, t2))"
    by (simp add: teardown_pvc_def Let_def split_beta order_def t1_def t2_def)
  have e1: "trace_ext (undo_guard tc) (snd s) t1" unfolding t1_def by (rule fold_teardown_unplug_ext)
  note sub = trace_ext_subset [OF e1]
  have e2: "trace_ext (undo_guard tc) (snd s) t2"
    if "ownedBy (pvc_meta x) tc" "\<not> (\<exists>vm \<in> set vms. carries ?v vm)"
  proof -
    have "unplugged tc t1 (om_name (pvc_meta x))" unfolding unplugged_def using assms(3) sub that(2) by blast
    then have "delete_ok tc t1 (OPVC x) (om_uid (pvc_meta x))"
      using assms(1,2) sub that(1) by (auto simp: delete_ok_def)
    then show ?thesis
      unfolding t2_def by (intro trace_ext_step [OF e1]) (simp add: delete_request_def undo_guard_def)
  qed
  show "trace_ext (undo_guard tc) (snd s) (snd (teardown_pvc env tc vms x s))"
    using e1 e2 by (simp add: res)
  show "fst (teardown_pvc env tc vms x s) \<Longrightarrow> fst s \<and> gone tc (snd (teardown_pvc env tc vms x s)) (OPVC x)"
    by (auto simp: res gone_def t2_def split: if_splits)
qed

lemma fold_teardown_pvc:
  assumes "(HostList KPVC (host_ns tc) (tenantSelector tc), RObjs xs) \<in> set (snd s)" and "OPVC ` set pvcs \<subseteq> set xs"
    and "(VMs (host_ns tc), RVMs vms) \<in> set (snd s)"
  shows "trace_ext (undo_guard tc) (snd s) (snd (fold (teardown_pvc env tc vms) pvcs s)) \<and>
     (fst (fold (teardown_pvc env tc vms) pvcs s) \<longrightarrow>
        fst s \<and> (\<forall>x \<in> set pvcs. gone tc (snd (fold (teardown_pvc env tc vms) pvcs s)) (OPVC x)))"
  using assms
proof (induction pvcs arbitrary: s)
  case (Cons x pvcs)
  define s1 where "s1 = teardown_pvc env tc vms x s"
  define s2 where "s2 = fold (teardown_pvc env tc vms) pvcs s1"
  have x: "OPVC x \<in> set xs" using Cons.prems(2) by simp
  note step = teardown_pvc_step [OF Cons.prems(1) x Cons.prems(3), folded s1_def]
  have e1: "trace_ext (undo_guard tc) (snd s) (snd s1)"
    unfolding s1_def by (rule teardown_pvc_step(1) [OF Cons.prems(1) x Cons.prems(3)])
  note sub = trace_ext_subset [OF e1]
  have IH: "trace_ext (undo_guard tc) (snd s1) (snd s2) \<and>
      (fst s2 \<longrightarrow> fst s1 \<and> (\<forall>x \<in> set pvcs. gone tc (snd s2) (OPVC x)))"
    unfolding s2_def using Cons.prems sub by (intro Cons.IH) auto
  then have e2: "trace_ext (undo_guard tc) (snd s1) (snd s2)" ..
  have "fst s \<and> gone tc (snd s2) (OPVC x)" if "fst s2"
  proof -
    have "fst (teardown_pvc env tc vms x s)" using that IH by (simp add: s1_def)
    from teardown_pvc_step(2) [OF Cons.prems(1) x Cons.prems(3) this]
    show ?thesis using gone_mono [OF _ trace_ext_subset [OF e2]] by (simp add: s1_def)
  qed
  then show ?case using trace_ext_trans [OF e2 e1] IH by (simp add: s1_def s2_def)
qed simp

text \<open>A sweep that found everything clean found the claim of every volume it looked at.\<close>

definition sweep_found :: "string \<Rightarrow> (string \<times> volume_state) list \<Rightarrow> sweep \<Rightarrow> sweep \<Rightarrow> bool" where
  "sweep_found ns vols s s' \<longleftrightarrow> set (snd (snd s)) \<subseteq> set (snd (snd s')) \<and>
     (fst s' \<longrightarrow> fst s \<and> (\<forall>v \<in> set vols. claim_found ns (snd (snd s')) v))"

lemma sweep_found_trans: "sweep_found ns us s s' \<Longrightarrow> sweep_found ns vs s' s'' \<Longrightarrow> sweep_found ns (us @ vs) s s''"
proof -
  assume a: "sweep_found ns us s s'" and b: "sweep_found ns vs s' s''"
  then have sub: "set (snd (snd s')) \<subseteq> set (snd (snd s''))" by (simp add: sweep_found_def)
  have "claim_found ns (snd (snd s'')) v" if "v \<in> set us" "fst s'" for v
    using a that by (intro claim_found_mono [OF _ sub]) (simp add: sweep_found_def)
  then show ?thesis using a b by (auto simp: sweep_found_def)
qed

lemma sweep_volume_found: "sweep_found ns [v] s (sweep_volume env ns vm v s)"
proof -
  obtain volName vol where v: "v = (volName, vol)" by (cases v)
  obtain clean reports tr where s: "s = (clean, reports, tr)" by (cases s)
  let ?resp = "api env tr (HostGet KPVC ns (Claim vol))"
  have "claim_found ns h v" if "Claim vol = [] \<or> VolumeName (Claim vol) \<noteq> volName" for h
    using that by (auto simp: claim_found_def v)
  moreover have "claim_found ns ((HostGet KPVC ns (Claim vol), ?resp) # tr) v" if "decode_with to_pvc ?resp = Inr y" for y
    using that by (cases ?resp) (auto simp: claim_found_def v split: option.splits elim!: to_pvc.elims)
  ultimately show ?thesis
    by (auto simp: sweep_volume_def v s Let_def sweep_found_def split: sum.split option.split)
qed

lemma fold_sweep_volume_found: "sweep_found ns vols s (fold (sweep_volume env ns vm) vols s)"
proof (induction vols arbitrary: s)
  case (Cons v vols)
  from sweep_found_trans [OF sweep_volume_found Cons] show ?case by simp
qed (simp add: sweep_found_def)

lemma sweep_vm_found: "sweep_found ns (snd vm) s (sweep_vm env ns vm s)"
  using fold_sweep_volume_found
    [of ns "go_range (map_order env (snd (snd s)) ''removeOrphanVMVolumes/volumes'') (snd vm)" s env "fst vm"]
  by (simp add: sweep_vm_def sweep_found_def)

lemma fold_sweep_vm_found: "sweep_found ns (concat (map snd vms)) s (fold (sweep_vm env ns) vms s)"
proof (induction vms arbitrary: s)
  case (Cons vm vms)
  from sweep_found_trans [OF sweep_vm_found Cons] show ?case by simp
qed (simp add: sweep_found_def)

lemma removeOrphans_found:
  assumes "fst (removeOrphanVMVolumes env ns vms tr)" and "vm \<in> set vms" and "v \<in> set (snd vm)"
  shows "claim_found ns (snd (snd (removeOrphanVMVolumes env ns vms tr))) v"
  using fold_sweep_vm_found [of ns "go_range (map_order env tr ''removeOrphanVMVolumes'') vms" "(True, [], tr)" env] assms
  unfolding removeOrphanVMVolumes_def sweep_found_def by auto

lemma sweep_undo_guard: "sweep_guard (host_ns tc) h r \<Longrightarrow> undo_guard tc h r"
  by (cases r) (auto simp: sweep_guard_def undo_guard_def)

text \<open>What a finished storage teardown has seen to.\<close>

definition storage_cleared :: "bool \<Rightarrow> tenant_cluster \<Rightarrow> event list \<Rightarrow> bool" where
  "storage_cleared hot tc h \<longleftrightarrow> cleared tc h KPVC \<and> (hot \<longrightarrow> no_orphans tc h)"

text \<open>The loop over the host PVCs and the sweep, from a history that has the lists.\<close>

lemma storage_swept:
  fixes env tc pvcs vms tr
  assumes "(HostList KPVC (host_ns tc) (tenantSelector tc), RObjs (map OPVC pvcs)) \<in> set tr"
    and "(VMs (host_ns tc), RVMs vms) \<in> set tr"
  defines "s3 \<equiv> fold (teardown_pvc env tc vms) pvcs (True, tr)"
  defines "s4 \<equiv> removeOrphanVMVolumes env (host_ns tc) vms (snd s3)"
  shows "trace_ext (undo_guard tc) tr (snd (snd s4))"
    and "fst s3 \<Longrightarrow> fst s4 \<Longrightarrow> storage_cleared hot tc (snd (snd s4))"
proof -
  have p: "trace_ext (undo_guard tc) tr (snd s3)" "fst s3 \<longrightarrow> (\<forall>x \<in> set pvcs. gone tc (snd s3) (OPVC x))"
    using fold_teardown_pvc [of tc "map OPVC pvcs" "(True, tr)" pvcs vms env] assms(1,2) by (auto simp: s3_def)
  have o: "trace_ext (undo_guard tc) (snd s3) (snd (snd s4))"
    unfolding s4_def by (rule trace_ext_mono [OF removeOrphanVMVolumes_guarded sweep_undo_guard])
  show "trace_ext (undo_guard tc) tr (snd (snd s4))" by (rule trace_ext_trans [OF o p(1)])
  note sub3 = trace_ext_subset [OF p(1)] and sub4 = trace_ext_subset [OF o]
  assume finished: "fst s3" "fst s4"
  have "(HostList KPVC (host_ns tc) (tenantSelector tc), RObjs (map OPVC pvcs)) \<in> set (snd s3)"
    "(VMs (host_ns tc), RVMs vms) \<in> set (snd (snd s4))"
    using sub3 sub4 assms(1,2) by auto
  then have "cleared tc (snd s3) KPVC" "no_orphans tc (snd (snd s4))"
    using p(2) finished removeOrphans_found [of env "host_ns tc" vms "snd s3"]
    by (auto simp: cleared_def no_orphans_def s4_def intro!: exI [of _ "map OPVC pvcs"] exI [of _ vms])
  then show "storage_cleared hot tc (snd (snd s4))" using cleared_mono sub4 unfolding storage_cleared_def by blast
qed

lemma storageTeardown_swept:
  assumes "storageTeardown env True tc tr = (res, tr')"
    and list: "api env tr (HostList KPVC (host_ns tc) (tenantSelector tc)) = RObjs (map OPVC pvcs)"
    and dec: "decode_list to_pvc (RObjs (map OPVC pvcs)) = Inr pvcs"
  shows "trace_ext (undo_guard tc) tr tr' \<and> (res = Inr True \<longrightarrow> storage_cleared True tc tr')"
proof -
  let ?list = "HostList KPVC (host_ns tc) (tenantSelector tc)" and ?vms = "VMs (host_ns tc)"
  define t1 where "t1 = (?list, RObjs (map OPVC pvcs)) # tr"
  define t2 where "t2 = (?vms, api env t1 ?vms) # t1"
  have two: "trace_ext (undo_guard tc) tr t2"
    unfolding t2_def t1_def by (intro trace_ext_step trace_ext_refl) (simp_all add: undo_guard_def)
  show ?thesis
  proof (cases "decode_vms (api env t1 ?vms)")
    case (Inl e)
    then show ?thesis
      using assms two by (auto simp: storageTeardown_def Let_def split_beta t2_def t1_def)
  next
    case vms: (Inr vms)
    then have v: "api env t1 ?vms = RVMs vms" by (cases "api env t1 ?vms") (auto simp: decode_error_def)
    let ?s3 = "fold (teardown_pvc env tc vms) pvcs (True, t2)"
    let ?s4 = "removeOrphanVMVolumes env (host_ns tc) vms (snd ?s3)"
    have r: "res = Inr (fst ?s3 \<and> fst ?s4)" "tr' = snd (snd ?s4)"
      using assms vms by (simp_all add: storageTeardown_def Let_def split_beta t2_def t1_def)
    have "(?list, RObjs (map OPVC pvcs)) \<in> set t2" "(?vms, RVMs vms) \<in> set t2"
      using v by (simp_all add: t2_def t1_def)
    note swept = storage_swept [OF this, where env = env]
    show ?thesis using r swept(2) trace_ext_trans [OF swept(1) two] by simp
  qed
qed

lemma storageTeardown_done:
  assumes "storageTeardown env hot tc tr = (res, tr')"
  shows "trace_ext (undo_guard tc) tr tr'" and "res = Inr True \<Longrightarrow> storage_cleared hot tc tr'"
proof -
  let ?list = "HostList KPVC (host_ns tc) (tenantSelector tc)"
  let ?resp = "api env tr ?list"
  let ?t1 = "(?list, ?resp) # tr"
  have one: "trace_ext (undo_guard tc) tr ?t1" by (rule trace_ext_one) (simp add: undo_guard_def)
  have "trace_ext (undo_guard tc) tr tr' \<and> (res = Inr True \<longrightarrow> storage_cleared hot tc tr')"
  proof (cases "decode_list to_pvc ?resp")
    case (Inl e)
    then show ?thesis using assms one by (auto simp: storageTeardown_def Let_def split_beta)
  next
    case (Inr pvcs)
    from decode_list_Inr [OF this] obtain xs where
      xs: "?resp = RObjs xs" "list_all2 (\<lambda>x y. to_pvc x = Some y) xs pvcs" .
    have eq: "xs = map OPVC pvcs"
      using xs(2) by (induction xs pvcs rule: list_all2_induct) (auto elim: to_pvc.elims)
    show ?thesis
    proof (cases hot)
      case False
      have "storage_cleared hot tc ?t1" if "pvcs = []"
        using that xs(1) eq False by (auto simp: storage_cleared_def cleared_def)
      then show ?thesis using assms one Inr False by (auto simp: storageTeardown_def Let_def split_beta split: if_splits)
    next
      case True
      then show ?thesis using storageTeardown_swept [of env tc tr res tr' pvcs] assms xs(1) eq Inr by simp
    qed
  qed
  then show "trace_ext (undo_guard tc) tr tr'" and "res = Inr True \<Longrightarrow> storage_cleared hot tc tr'" by blast+
qed

end
