(* ===== verification/ReconcilerInv.thy ===== *)
theory ReconcilerInv
  imports TeardownInv
begin

text \<open>
  The reconciler's properties: what a reconciliation may ask of whom and when, the cache of guest
  clients, the release of a deleted tenant, and that every tenant is looked at again.
\<close>

section \<open>Cleaning up in the guest\<close>

text \<open>
  Finalizers go from the synced kinds and attachments; deleted are objects listed under the
  managed-by label, the CSI driver, and the plugin's namespace if it carries the label.
\<close>

definition cleanup_guard :: "env \<Rightarrow> event list \<Rightarrow> request \<Rightarrow> bool" where
  "cleanup_guard env h r \<longleftrightarrow> (case r of
     GuestList k sel \<Rightarrow> True
   | GuestGet k ns n \<Rightarrow> True
   | GuestUpdate x \<Rightarrow> kind_of x \<in> guest_kinds \<union> {KVolumeAttachment} \<and>
       (\<exists>y fs. x = set_finalizers fs y \<and> remove_finalizer env GuestFinalizer (om_finalizers (meta_of y)) = (True, fs))
   | GuestDelete x \<Rightarrow>
       (kind_of x \<in> {KStorageClass, KPV, KGatewayClass} \<and>
          (\<exists>xs. (GuestList (kind_of x) managedSelector, RObjs xs) \<in> set h \<and> x \<in> set xs)) \<or>
       kind_of x = KCSIDriver \<or>
       (kind_of x = KNamespace \<and> at (om_labels (meta_of x)) ManagedByLabel = ManagedByValue)
   | _ \<Rightarrow> False)"

lemma cleanup_guard_simps [simp]:
  "cleanup_guard env h (GuestList k sel)" "cleanup_guard env h (GuestGet k ns n)"
  by (simp_all add: cleanup_guard_def)

lemma trace_fold:
  assumes "\<And>x t. x \<in> set xs \<Longrightarrow> set tr \<subseteq> set t \<Longrightarrow> trace_ext Q t (f x t)"
  shows "trace_ext Q tr (fold f xs tr)"
proof -
  have "trace_ext Q t (fold f xs t)" if "set tr \<subseteq> set t" for t
    using that assms
  proof (induction xs arbitrary: t)
    case (Cons x xs)
    have x: "trace_ext Q t (f x t)" using Cons.prems by simp
    have "trace_ext Q (f x t) (fold f xs (f x t))"
      using Cons.prems trace_ext_subset [OF x] by (intro Cons.IH) auto
    from trace_ext_trans [OF this x] show ?case by simp
  qed simp
  then show ?thesis by simp
qed

lemma strip_kind_ext:
  assumes "\<And>y. kind_of (enc y) \<in> guest_kinds \<union> {KVolumeAttachment}"
  shows "trace_ext (cleanup_guard env) tr (strip_kind env k dec enc tr)"
proof -
  have one: "trace_ext (cleanup_guard env) tr ((GuestList k [], api env tr (GuestList k [])) # tr)"
    by (rule trace_ext_one) simp
  have "trace_ext (cleanup_guard env) t (strip_object env (enc y) t)" for y t
    using assms [of y] by (auto simp: strip_object_def split_beta cleanup_guard_def set_finalizers_def prod_eq_iff
        intro!: trace_ext_one exI)
  then have "trace_ext (cleanup_guard env) t (fold (\<lambda>x. strip_object env (enc x)) xs t)" for xs t
    by (intro trace_fold)
  from trace_ext_trans [OF this one] one show ?thesis
    by (simp add: strip_kind_def Let_def split_beta split: sum.split)
qed

lemma delete_managed_ext:
  assumes "k \<in> {KStorageClass, KPV, KGatewayClass}" and "\<And>x y. dec x = Some y \<Longrightarrow> x = enc y"
    and "\<And>y. kind_of (enc y) = k"
  shows "trace_ext (cleanup_guard env) tr (delete_managed env k dec enc tr)"
proof -
  let ?resp = "api env tr (GuestList k managedSelector)"
  let ?t1 = "(GuestList k managedSelector, ?resp) # tr"
  have one: "trace_ext (cleanup_guard env) tr ?t1" by (rule trace_ext_one) simp
  show ?thesis
  proof (cases "decode_list dec ?resp")
    case (Inl e)
    then show ?thesis using one by (simp add: delete_managed_def Let_def split_beta)
  next
    case (Inr ys)
    from decode_list_Inr [OF this] obtain xs where xs: "?resp = RObjs xs" "list_all2 (\<lambda>x y. dec x = Some y) xs ys" .
    have eq: "xs = map enc ys"
      using xs(2) by (induction xs ys rule: list_all2_induct) (auto dest: assms(2))
    have "trace_ext (cleanup_guard env) t (snd (ask_api env (GuestDelete (enc y)) t))"
      if "y \<in> set ys" "set ?t1 \<subseteq> set t" for y t
    proof -
      have "(GuestList k managedSelector, RObjs xs) \<in> set t" "enc y \<in> set xs" using that xs(1) eq by auto
      then have "cleanup_guard env t (GuestDelete (enc y))"
        using assms(1,3) unfolding cleanup_guard_def by auto
      then show ?thesis by (simp add: trace_ext_one)
    qed
    then have "trace_ext (cleanup_guard env) ?t1 (fold (\<lambda>x tr. snd (ask_api env (GuestDelete (enc x)) tr)) ys ?t1)"
      by (intro trace_fold)
    from trace_ext_trans [OF this one] show ?thesis
      using Inr by (simp add: delete_managed_def Let_def split_beta)
  qed
qed

lemma delete_driver_ext: "trace_ext (cleanup_guard env) tr (delete_driver env tr)"
proof -
  let ?t1 = "(GuestGet KCSIDriver [] DriverName, api env tr (GuestGet KCSIDriver [] DriverName)) # tr"
  have one: "trace_ext (cleanup_guard env) tr ?t1" by (rule trace_ext_one) simp
  have "trace_ext (cleanup_guard env) tr ((GuestDelete (OCSIDriver d), resp) # ?t1)" for d resp
    by (rule trace_ext_step [OF one]) (simp add: cleanup_guard_def)
  then show ?thesis using one by (simp add: delete_driver_def Let_def split_beta split: sum.split)
qed

lemma delete_namespace_ext: "trace_ext (cleanup_guard env) tr (delete_namespace env tr)"
proof -
  let ?t1 = "(GuestGet KNamespace [] GuestCSINamespace, api env tr (GuestGet KNamespace [] GuestCSINamespace)) # tr"
  have one: "trace_ext (cleanup_guard env) tr ?t1" by (rule trace_ext_one) simp
  have "trace_ext (cleanup_guard env) tr ((GuestDelete (ONamespace n), resp) # ?t1)"
    if "at (om_labels (po_meta n)) ManagedByLabel = ManagedByValue" for n resp
    by (rule trace_ext_step [OF one]) (simp add: cleanup_guard_def that)
  then show ?thesis using one by (simp add: delete_namespace_def Let_def split_beta split: sum.split)
qed

lemma cleanup_guest_ext: "trace_ext (cleanup_guard env) tr (cleanup_guest env tr)"
proof -
  have strip: "trace_ext (cleanup_guard env) t (strip_kind env KService to_service OService t)"
    "trace_ext (cleanup_guard env) t (strip_kind env KIngress to_ingress OIngress t)"
    "trace_ext (cleanup_guard env) t (strip_kind env KGateway to_gateway OGateway t)"
    "trace_ext (cleanup_guard env) t (strip_kind env KHTTPRoute to_route OHTTPRoute t)"
    "trace_ext (cleanup_guard env) t (strip_kind env KPVC to_pvc OPVC t)"
    "trace_ext (cleanup_guard env) t (strip_kind env KVolumeAttachment to_attachment OVolumeAttachment t)" for t
    by (rule strip_kind_ext; simp add: guest_kinds_def)+
  have del: "trace_ext (cleanup_guard env) t (delete_managed env KStorageClass to_storage_class OStorageClass t)"
    "trace_ext (cleanup_guard env) t (delete_managed env KPV to_pv OPV t)"
    "trace_ext (cleanup_guard env) t (delete_managed env KGatewayClass to_gateway_class OGatewayClass t)" for t
    by (rule delete_managed_ext; auto elim: to_storage_class.elims to_pv.elims to_gateway_class.elims)+
  have fin: "trace_ext (cleanup_guard env) t (stripGuestFinalizers env t)" for t
    unfolding stripGuestFinalizers_def by (intro trace_ext_trans [OF strip(4)] trace_ext_trans [OF strip(3)]
        trace_ext_trans [OF strip(2)] strip(1))
  have stor: "trace_ext (cleanup_guard env) t (cleanupGuestStorage env t)" for t
    unfolding cleanupGuestStorage_def Let_def
    by (intro trace_ext_trans [OF delete_namespace_ext] trace_ext_trans [OF delete_driver_ext]
        trace_ext_trans [OF del(2)] trace_ext_trans [OF del(1)] trace_ext_trans [OF strip(6)] strip(5))
  show ?thesis
    unfolding cleanup_guest_def cleanupGuestGatewayClasses_def
    by (intro trace_ext_trans [OF del(3)] trace_ext_trans [OF stor] fin)
qed

section \<open>The client into a guest\<close>

lemma through_simps [simp]:
  "remove_finalizer (through s g) = remove_finalizer (s_env s)" "add_finalizer (through s g) = add_finalizer (s_env s)"
  by (simp_all add: through_def)

text \<open>The one request it takes: the Secret named in the registration, in the tenant's own namespace.\<close>

definition secret_request :: "tenant_cluster \<Rightarrow> request" where
  "secret_request tc = HostGet KSecret (tc_namespace tc) (skr_name (kubeconfigSecretRef (tc_spec tc)))"

lemma guestClientFor_trace:
  "snd (snd (guestClientFor s tc r tr)) = (secret_request tc, api (s_env s) tr (secret_request tc)) # tr"
  by (simp add: guestClientFor_def read_secret_def secret_request_def Let_def split_beta split: sum.split option.split)

lemma guestClientFor_settings:
  "r_interval (fst (snd (guestClientFor s tc r tr))) = r_interval r"
  "r_hot (fst (snd (guestClientFor s tc r tr))) = r_hot r"
  by (simp_all add: guestClientFor_def Let_def split_beta split: sum.split option.split)

text \<open>
  A cache entry is sound in a history if its client was built by the factory for a registration of
  that UID, from the data under its key of a Secret that was read with the entry's resource version.
\<close>

definition built_from :: "surroundings \<Rightarrow> reconciler \<Rightarrow> event list \<Rightarrow> string \<times> cached_guest \<Rightarrow> bool" where
  "built_from s r h e \<longleftrightarrow>
     (\<exists>tc sec. om_uid (tc_meta tc) = fst e \<and> (secret_request tc, RObj (OSecret sec)) \<in> set h \<and>
        se_resourceVersion sec = cg_secretRV (snd e) \<and> at (se_data sec) (kubeconfig_key tc) \<noteq> [] \<and>
        factory_of s r (at (se_data sec) (kubeconfig_key tc)) = Inr (cg_client (snd e)))"

definition cache_ok :: "surroundings \<Rightarrow> reconciler \<Rightarrow> event list \<Rightarrow> bool" where
  "cache_ok s r h \<longleftrightarrow> (\<forall>e \<in> set (r_guests r). built_from s r h e)"

lemma built_from_mono:
  "built_from s r h e \<Longrightarrow> set h \<subseteq> set h' \<Longrightarrow> r_factory r' = r_factory r \<Longrightarrow> built_from s r' h' e"
  unfolding built_from_def factory_of_def by (metis subsetD)

lemma cache_ok_mono:
  "cache_ok s r h \<Longrightarrow> set h \<subseteq> set h' \<Longrightarrow> r_factory r' = r_factory r \<Longrightarrow> set (r_guests r') \<subseteq> set (r_guests r) \<Longrightarrow>
     cache_ok s r' h'"
  unfolding cache_ok_def by (meson built_from_mono subsetD)

lemma set_put: "set (put k v m) \<subseteq> insert (k, v) (set m)"
  by (induction m) auto

lemma decode_secret: "decode_with to_secret resp = Inr sec \<Longrightarrow> resp = RObj (OSecret sec)"
  by (cases resp) (auto split: option.splits elim: to_secret.elims)

text \<open>What the lookup of a client returns, by cases.\<close>

lemma guestClientFor_cases:
  obtains (no_secret) e where "guestClientFor s tc r tr = (Inl e, r, snd (read_secret s tc tr))"
  | (cached) sec g where "fst (read_secret s tc tr) = Inr sec" "at (se_data sec) (kubeconfig_key tc) \<noteq> []"
      "map_of (r_guests r) (om_uid (tc_meta tc)) = Some g" "cg_secretRV g = se_resourceVersion sec"
      "guestClientFor s tc r tr = (Inr (cg_client g), r, snd (read_secret s tc tr))"
  | (fresh) sec c where "fst (read_secret s tc tr) = Inr sec" "at (se_data sec) (kubeconfig_key tc) \<noteq> []"
      "factory_of s r (at (se_data sec) (kubeconfig_key tc)) = Inr c"
      "guestClientFor s tc r tr = (Inr c, r\<lparr>r_guests := put (om_uid (tc_meta tc))
         \<lparr>cg_secretRV = se_resourceVersion sec, cg_client = c\<rparr> (r_guests r)\<rparr>, snd (read_secret s tc tr))"
proof (cases "fst (read_secret s tc tr)")
  case (Inl e)
  then show thesis using no_secret by (simp add: guestClientFor_def Let_def split_beta)
next
  case (Inr sec)
  let ?data = "at (se_data sec) (kubeconfig_key tc)"
  show thesis
  proof (cases "?data = []")
    case True
    then show thesis using no_secret Inr by (simp add: guestClientFor_def Let_def split_beta)
  next
    case data: False
    show thesis
    proof (cases "\<exists>g. map_of (r_guests r) (om_uid (tc_meta tc)) = Some g \<and> cg_secretRV g = se_resourceVersion sec")
      case True
      then obtain g where "map_of (r_guests r) (om_uid (tc_meta tc)) = Some g" "cg_secretRV g = se_resourceVersion sec"
        by blast
      then show thesis using cached Inr data by (simp add: guestClientFor_def Let_def split_beta)
    next
      case False
      then have no: "(case map_of (r_guests r) (om_uid (tc_meta tc)) of None \<Rightarrow> None
          | Some g \<Rightarrow> if cg_secretRV g = se_resourceVersion sec then Some g else None) = None"
        by (auto split: option.split)
      show thesis
      proof (cases "factory_of s r ?data")
        case (Inl e)
        then show thesis using no_secret Inr data no by (simp add: guestClientFor_def Let_def split_beta)
      next
        case (Inr c)
        then show thesis
          using fresh \<open>fst (read_secret s tc tr) = Inr sec\<close> data no by (simp add: guestClientFor_def Let_def split_beta)
      qed
    qed
  qed
qed

lemma read_secret_Inr:
  "fst (read_secret s tc tr) = Inr sec \<Longrightarrow> snd (read_secret s tc tr) = (secret_request tc, RObj (OSecret sec)) # tr"
  using decode_secret by (auto simp: read_secret_def secret_request_def Let_def split_beta)

lemma read_secret_trace: "set tr \<subseteq> set (snd (read_secret s tc tr))"
  by (auto simp: read_secret_def Let_def split_beta)

lemma guestClientFor_cache_ok:
  assumes "cache_ok s r tr"
  shows "cache_ok s (fst (snd (guestClientFor s tc r tr))) (snd (snd (guestClientFor s tc r tr)))"
proof -
  note keep = cache_ok_mono [OF assms read_secret_trace [of tr s tc]]
  show ?thesis
  proof (cases rule: guestClientFor_cases [of s tc r tr])
    case (no_secret e)
    then show ?thesis using keep [of r] by simp
  next
    case (cached sec g)
    then show ?thesis using keep [of r] by simp
  next
    case (fresh sec c)
    let ?g = "\<lparr>cg_secretRV = se_resourceVersion sec, cg_client = c\<rparr>"
    let ?r = "r\<lparr>r_guests := put (om_uid (tc_meta tc)) ?g (r_guests r)\<rparr>"
    let ?h = "snd (read_secret s tc tr)"
    have "built_from s ?r ?h (om_uid (tc_meta tc), ?g)"
      using fresh(2,3) read_secret_Inr [OF fresh(1)]
      by (auto simp: built_from_def factory_of_def intro!: exI [of _ tc] exI [of _ sec])
    moreover have "built_from s ?r ?h e" if "e \<in> set (r_guests r)" for e
      using assms that built_from_mono [OF _ read_secret_trace [of tr s tc], of s r e ?r] by (simp add: cache_ok_def)
    ultimately show ?thesis
      using fresh(4) set_put [of "om_uid (tc_meta tc)" ?g "r_guests r"] by (fastforce simp: cache_ok_def)
  qed
qed

text \<open>
  Claim C31. A client of an older Secret or of another tenant is never used: the client a
  reconciliation gets was built by the factory for a registration of the tenant's UID, from a Secret
  with the resource version that the tenant's Secret was read with just now, and the cache
  afterwards holds only such entries.
\<close>

theorem guest_client_current:
  assumes "cache_ok s r tr" and "guestClientFor s tc r tr = (Inr c, r', tr')"
  shows "cache_ok s r' tr' \<and>
     (\<exists>sec. hd tr' = (secret_request tc, RObj (OSecret sec)) \<and>
        built_from s r' tr' (om_uid (tc_meta tc), \<lparr>cg_secretRV = se_resourceVersion sec, cg_client = c\<rparr>))"
proof -
  have ok: "cache_ok s r' tr'" using guestClientFor_cache_ok [OF assms(1), of tc] assms(2) by simp
  show ?thesis
  proof (cases rule: guestClientFor_cases [of s tc r tr])
    case (no_secret e)
    then show ?thesis using assms(2) by simp
  next
    case (cached sec g)
    then have "(om_uid (tc_meta tc), g) \<in> set (r_guests r')" using assms(2) by (auto dest: map_of_SomeD)
    then have "built_from s r' tr' (om_uid (tc_meta tc), g)" using ok by (simp add: cache_ok_def)
    moreover have "g = \<lparr>cg_secretRV = se_resourceVersion sec, cg_client = c\<rparr>" using cached assms(2) by simp
    ultimately show ?thesis using ok cached(5) assms(2) read_secret_Inr [OF cached(1)] by auto
  next
    case (fresh sec c')
    let ?g = "\<lparr>cg_secretRV = se_resourceVersion sec, cg_client = c\<rparr>"
    have "map_of (r_guests r') (om_uid (tc_meta tc)) = Some ?g" using fresh(4) assms(2) by auto
    then have "(om_uid (tc_meta tc), ?g) \<in> set (r_guests r')" by (rule map_of_SomeD)
    then have "built_from s r' tr' (om_uid (tc_meta tc), ?g)" using ok by (simp add: cache_ok_def)
    then show ?thesis using ok fresh(4) assms(2) read_secret_Inr [OF fresh(1)] by auto
  qed
qed

text \<open>
  A changed key does not reach the cache: as long as the Secret itself is the one the
  cached client was built from, that client is used whatever key of it the registration now names
  and whatever client the data under that key would give.
\<close>

theorem key_change_keeps_client:
  assumes "map_of (r_guests r) (om_uid (tc_meta tc)) = Some g"
    and "api (s_env s) tr (secret_request tc) = RObj (OSecret sec)" and "se_resourceVersion sec = cg_secretRV g"
    and "at (se_data sec) (kubeconfig_key tc) \<noteq> []"
  shows "fst (guestClientFor s tc r tr) = Inr (cg_client g)"
  using assms by (simp add: guestClientFor_def read_secret_def secret_request_def Let_def split_beta)

section \<open>The teardown of a tenant\<close>

definition torn_down :: "surroundings \<Rightarrow> bool \<Rightarrow> tenant_cluster \<Rightarrow> event list \<Rightarrow> bool" where
  "torn_down s hot tc h \<longleftrightarrow> host_cleared s tc h \<and> storage_cleared hot tc h"

lemma torn_down_mono: "torn_down s hot tc h \<Longrightarrow> set h \<subseteq> set h' \<Longrightarrow> torn_down s hot tc h'"
  unfolding torn_down_def host_cleared_def storage_cleared_def
  by (meson cleared_mono absent_mono no_orphans_mono subset_trans)

text \<open>What may follow: the guest is cleaned up, and the TenantCluster updated without its finalizer.\<close>

definition release_guard :: "surroundings \<Rightarrow> tenant_cluster \<Rightarrow> event list \<Rightarrow> request \<Rightarrow> bool" where
  "release_guard s tc h r \<longleftrightarrow> r = secret_request tc \<or> cleanup_guard (s_env s) h r \<or>
     (\<exists>fs. r = HostUpdate (set_finalizers fs (OTenantCluster tc)) \<and>
        remove_finalizer (s_env s) TenantClusterFinalizer (om_finalizers (tc_meta tc)) = (True, fs))"

definition teardown_guard :: "surroundings \<Rightarrow> bool \<Rightarrow> tenant_cluster \<Rightarrow> event list \<Rightarrow> request \<Rightarrow> bool" where
  "teardown_guard s hot tc h r \<longleftrightarrow> undo_guard tc h r \<or> torn_down s hot tc h \<and> release_guard s tc h r"

lemma cleanup_through: "cleanup_guard (through s g) = cleanup_guard (s_env s)"
  unfolding cleanup_guard_def [abs_def] by simp

lemma release_tenant_ext: "trace_ext (release_guard s tc) tr (snd (snd (release_tenant s tc r tr)))"
proof -
  define gc where "gc = guestClientFor s tc r tr"
  define t1 where "t1 = snd (snd gc)"
  define t2 where "t2 = (case fst gc of Inl e \<Rightarrow> t1 | Inr g \<Rightarrow> cleanup_guest (through s g) t1)"
  have 1: "trace_ext (release_guard s tc) tr t1"
    by (auto simp: t1_def gc_def guestClientFor_trace release_guard_def intro: trace_ext_one)
  have "trace_ext (release_guard s tc) t1 (cleanup_guest (through s g) t1)" for g
    by (rule trace_ext_mono [OF cleanup_guest_ext]) (simp add: cleanup_through release_guard_def)
  note clean = trace_ext_trans [OF this 1]
  have 2: "trace_ext (release_guard s tc) tr t2" using 1 clean unfolding t2_def by (auto split: sum.split)
  have 3: "trace_ext (release_guard s tc) tr ((HostUpdate (set_finalizers fs (OTenantCluster tc)), resp) # t2)"
    if "remove_finalizer (s_env s) TenantClusterFinalizer (om_finalizers (tc_meta tc)) = (True, fs)" for fs resp
    by (rule trace_ext_step [OF 2]) (use that in \<open>auto simp: release_guard_def\<close>)
  show ?thesis
    using 2 3 by (auto simp: release_tenant_def Let_def split_beta prod_eq_iff gc_def [symmetric] t1_def [symmetric]
        t2_def [symmetric])
qed

lemma trace_ext_since: "trace_ext Q t t' \<Longrightarrow> trace_ext (\<lambda>h r. Q h r \<and> set t \<subseteq> set h) t t'"
proof (induction rule: trace_ext.induct)
  case (trace_ext_step t t' r resp)
  then show ?case using trace_ext_subset by (blast intro: trace_ext.trace_ext_step)
qed simp

lemma reconcileDelete_cases:
  obtains (kept) "contains_finalizer (s_env s) TenantClusterFinalizer (om_finalizers (tc_meta tc)) = False"
      "reconcileDelete s tc r tr = (\<lparr>o_error = None, o_requeue = 0\<rparr>, r, tr)"
  | (storage_error) e t1 where "storageTeardown (s_env s) (r_hot r) tc tr = (Inl e, t1)"
      "reconcileDelete s tc r tr = (\<lparr>o_error = Some e, o_requeue = 0\<rparr>, r, t1)"
  | (host_error) st t1 e failed t2 where "storageTeardown (s_env s) (r_hot r) tc tr = (Inr st, t1)"
      "teardown_host s tc t1 = (Some e, failed, t2)"
      "reconcileDelete s tc r tr = (\<lparr>o_error = Some e, o_requeue = 0\<rparr>, r, t2)"
  | (again) st t1 failed t2 where "storageTeardown (s_env s) (r_hot r) tc tr = (Inr st, t1)"
      "teardown_host s tc t1 = (None, failed, t2)"
      "reconcileDelete s tc r tr = (\<lparr>o_error = None, o_requeue = interval r\<rparr>, r, t2)"
  | (finished) t1 t2 where "storageTeardown (s_env s) (r_hot r) tc tr = (Inr True, t1)"
      "teardown_host s tc t1 = (None, False, t2)" "reconcileDelete s tc r tr = release_tenant s tc r t2"
proof (cases "contains_finalizer (s_env s) TenantClusterFinalizer (om_finalizers (tc_meta tc))")
  case False
  then show thesis using kept by (simp add: reconcileDelete_def)
next
  case f: True
  obtain st t1 where st: "storageTeardown (s_env s) (r_hot r) tc tr = (st, t1)" by fastforce
  show thesis
  proof (cases st)
    case (Inl e)
    then show thesis using storage_error st f by (simp add: reconcileDelete_def)
  next
    case ok: (Inr b)
    obtain e failed t2 where h: "teardown_host s tc t1 = (e, failed, t2)" by (metis prod_cases3)
    show thesis
    proof (cases e)
      case None
      then show thesis using again finished st ok h f by (cases "failed \<or> \<not> b") (simp_all add: reconcileDelete_def)
    next
      case (Some e)
      then show thesis using host_error st ok h f by (simp add: reconcileDelete_def)
    qed
  qed
qed

lemma undo_then:
  assumes "storageTeardown (s_env s) hot tc tr = (st, t1)" and "teardown_host s tc t1 = (e, failed, t2)"
  shows "trace_ext (teardown_guard s hot tc) tr t1" "trace_ext (teardown_guard s hot tc) tr t2"
proof -
  note g = trace_ext_mono [where R = "teardown_guard s hot tc"]
  show 1: "trace_ext (teardown_guard s hot tc) tr t1"
    by (rule g [OF storageTeardown_done(1) [OF assms(1)]]) (simp add: teardown_guard_def)
  have "trace_ext (teardown_guard s hot tc) t1 t2"
    by (rule g [OF teardown_host_done(1) [OF assms(2)]]) (simp add: teardown_guard_def)
  then show "trace_ext (teardown_guard s hot tc) tr t2" by (rule trace_ext_trans) (rule 1)
qed

lemma reconcileDelete_guarded:
  "trace_ext (teardown_guard s (r_hot r) tc) tr (snd (snd (reconcileDelete s tc r tr)))"
proof (cases rule: reconcileDelete_cases [of s tc r tr])
  case kept
  then show ?thesis by simp
next
  case (storage_error e t1)
  have "trace_ext (undo_guard tc) tr t1" by (rule storageTeardown_done(1) [OF storage_error(1)])
  then show ?thesis using storage_error(2) by (auto simp: teardown_guard_def elim: trace_ext_mono)
next
  case (host_error st t1 e failed t2)
  then show ?thesis using undo_then(2) [OF host_error(1,2)] by simp
next
  case (again st t1 failed t2)
  then show ?thesis using undo_then(2) [OF again(1,2)] by simp
next
  case (finished t1 t2)
  have "storage_cleared (r_hot r) tc t1" by (rule storageTeardown_done(2) [OF finished(1)]) simp
  moreover have "host_cleared s tc t2" by (rule teardown_host_done(2) [OF finished(2)]) simp_all
  ultimately have "torn_down s (r_hot r) tc t2"
    using trace_ext_subset [OF teardown_host_done(1) [OF finished(2)]] cleared_mono no_orphans_mono
    unfolding torn_down_def storage_cleared_def by blast
  then have "trace_ext (teardown_guard s (r_hot r) tc) t2 (snd (snd (release_tenant s tc r t2)))"
    using trace_ext_since [OF release_tenant_ext [of s tc t2 r]] torn_down_mono
    by (auto simp: teardown_guard_def elim!: trace_ext_mono)
  from trace_ext_trans [OF this undo_then(2) [OF finished(1,2)]] show ?thesis using finished(3) by simp
qed

text \<open>
  Claim C7. A deleted TenantCluster is let go only when its host side is gone, whatever the servers
  answer: until then its teardown only reads, unplugs volumes in the tenant's namespace, and deletes
  under the same guard as a pass.  The guest is cleaned up and the finalizer dropped only in a
  history where every Service, Ingress and PVC of the tenant that was listed is deleted or gone,
  where no VM was listed with a volume whose claim does not exist, and where the same holds for
  Gateways and HTTPRoutes, unless the host does not have them or the REST mapper failed.
\<close>

theorem finalizer_needs_teardown:
  "trace_ext (teardown_guard s (r_hot r) tc) tr (snd (snd (reconcileDelete s tc r tr)))"
  by (rule reconcileDelete_guarded)

section \<open>The guest answers first\<close>

text \<open>Since the history \<open>tr\<close> the guest has answered the list of its Services.\<close>

definition guest_answered :: "event list \<Rightarrow> event list \<Rightarrow> bool" where
  "guest_answered tr h \<longleftrightarrow> (\<exists>new xs. h = new @ tr \<and> (GuestList KService [], RObjs xs) \<in> set new)"

lemma guest_answered_more: "guest_answered tr h \<Longrightarrow> trace_ext Q h h' \<Longrightarrow> guest_answered tr h'"
  unfolding guest_answered_def using trace_ext_suffix by fastforce

lemma guest_answered_earlier: "guest_answered (new @ tr) h \<Longrightarrow> guest_answered tr h"
  unfolding guest_answered_def by (metis Un_iff append.assoc set_append)

lemma gatherServices_trace:
  "p_trace (snd (gatherServices env p)) =
     (GuestList KService [], api env (p_trace p) (GuestList KService [])) # p_trace p"
proof -
  have 1: "p_trace (fold list_service xs q) = p_trace q" for xs q
    by (rule fold_frame) (simp add: list_service_def Let_def store_def)
  have "p_trace (gather_service ref q) = p_trace q" for ref q
    by (simp add: gather_service_def noteFinalizerHolder_def inScope_def refuse_def wantFinalizer_def Let_def
        split: option.split sum.split)
  then have 2: "p_trace (fold gather_service rs q) = p_trace q" for rs q by (rule fold_frame)
  show ?thesis by (simp add: gatherServices_def Let_def split_beta 1 2 split: sum.split)
qed

lemma gather_guest_answers:
  "fst (gather_guest env p) = None \<Longrightarrow> \<exists>xs. api env (p_trace p) (GuestList KService []) = RObjs xs"
proof -
  assume "fst (gather_guest env p) = None"
  then have "fst (gatherServices env p) = None"
    by (auto simp: gather_guest_def Let_def split_beta split: option.splits)
  then obtain ys where "decode_list to_service (api env (p_trace p) (GuestList KService [])) = Inr ys"
    by (auto simp: gatherServices_def Let_def split_beta split: sum.splits)
  then show ?thesis by (rule decode_list_Inr) blast
qed

lemma gather_guest_after_services:
  "trace_ext guest_lists ((GuestList KService [], api env tr (GuestList KService [])) # tr)
     (p_trace (snd (gather_guest env (newPass tc gw fams hot images tr))))"
proof -
  let ?p = "newPass tc gw fams hot images tr"
  let ?p1 = "snd (gatherServices env ?p)"
  have 1: "gathered guest_lists ?p ?p1"
    by (rule gatheredI [OF gathers_lists(1) gatherServices_phase]) simp_all
  have 2: "gathered guest_lists q (snd (gatherIngresses env q))" if "gather_inv q" "heap_kinds q" for q
    by (rule gatheredI [OF gathers_lists(2) gatherIngresses_phase]) (use that in simp_all)
  have 3: "gathered guest_lists q (snd (gatherGateways env q))" if "gather_inv q" "heap_kinds q" for q
    by (rule gatheredI [OF gathers_lists(3) gatherGateways_phase]) (use that in simp_all)
  have i1: "gather_inv ?p1" "heap_kinds ?p1" using 1 by (simp_all add: gathered_def)
  note g2 = 2 [OF i1] and g3 = 3 [OF i1]
  have i2: "gather_inv (snd (gatherIngresses env ?p1))" "heap_kinds (snd (gatherIngresses env ?p1))"
    using g2 by (simp_all add: gathered_def)
  note g4 = gathered_trans [OF g2 3 [OF i2]]
  have "trace_ext guest_lists (p_trace ?p1) (p_trace (snd (gather_guest env ?p)))"
    using g2 g3 g4 unfolding gathered_def by (simp add: gather_guest_def Let_def split_beta split: option.split)
  then show ?thesis by (simp add: gatherServices_trace)
qed

lemma read_phase_answered:
  assumes "fst (read_phase env (newPass tc gw fams hot images tr)) = None"
  shows "guest_answered tr (p_trace (snd (read_phase env (newPass tc gw fams hot images tr))))"
proof -
  let ?new = "newPass tc gw fams hot images tr"
  let ?p1 = "snd (gather_guest env ?new)"
  let ?p2 = "limit_and_class env ?p1"
  have n: "fst (gather_guest env ?new) = None"
    using assms by (auto simp: read_phase_def Let_def split_beta split: option.splits)
  then obtain xs where xs: "api env tr (GuestList KService []) = RObjs xs"
    using gather_guest_answers [OF n] by auto
  have "guest_answered tr ((GuestList KService [], RObjs xs) # tr)"
    unfolding guest_answered_def by (intro exI [of _ "[(GuestList KService [], RObjs xs)]"] exI [of _ xs]) simp
  then have 1: "guest_answered tr (p_trace ?p1)"
    using guest_answered_more gather_guest_after_services [of env tr tc gw fams hot images] unfolding xs by blast
  have g1: "gather_inv ?p1" "heap_kinds ?p1" "p_tc ?p1 = tc"
    using gather_guest_new [of tc gw fams hot images tr env] by (simp_all add: gathered_def)
  have "trace_ext (early_guard tc) (p_trace ?p1) (p_trace ?p2)"
    using limit_and_class_phase [OF g1(1,2), of env] g1(3) by (simp add: gathered_def)
  with 1 have 2: "guest_answered tr (p_trace ?p2)" by (rule guest_answered_more)
  have "p_storage ?p2 = None"
    using limit_and_class_new [of tc gw fams hot images tr env] by (simp add: gathered_def kept_def)
  then have "trace_ext (storage_reads (p_tc ?p2)) (p_trace ?p2) (p_trace (snd (gatherStorage env ?p2)))"
    using gatherStorage_ok [of ?p2 env] by (simp add: sg_ok_def)
  with 2 have "guest_answered tr (p_trace (snd (gatherStorage env ?p2)))" by (rule guest_answered_more)
  then show ?thesis using n by (simp add: read_phase_def Let_def split_beta)
qed

lemma trace_ext_suffix_guard: "trace_ext Q t t' \<Longrightarrow> trace_ext (\<lambda>h r. Q h r \<and> (\<exists>new. h = new @ t)) t t'"
proof (induction rule: trace_ext.induct)
  case (trace_ext_step t t' r resp)
  then show ?case using trace_ext_suffix by (blast intro: trace_ext.trace_ext_step)
qed simp

lemma run_guest_first:
  "trace_ext (\<lambda>h r. host_mutation r \<longrightarrow> guest_answered tr h) tr
     (p_trace (snd (run env (newPass tc gw fams hot images tr))))"
proof -
  let ?new = "newPass tc gw fams hot images tr"
  let ?q = "snd (read_phase env ?new)"
  note r = read_phase_ok [of tc tr env gw fams hot images]
  have 1: "trace_ext (\<lambda>h r. host_mutation r \<longrightarrow> guest_answered tr h) tr (p_trace ?q)"
    using conjunct1 [OF r] by (rule trace_ext_mono) (simp add: early_guard_def hands_off_def)
  show ?thesis
  proof (cases "fst (read_phase env ?new)")
    case None
    have a: "guest_answered tr (p_trace ?q)" by (rule read_phase_answered [OF None])
    have d: "desired_inv tc (\<forall>e \<in> set tr. \<not> prune_trouble e) ?q" using r None by simp
    from write_phase_ok [OF d, of env]
    have "trace_ext (pass_guard tc) (p_trace ?q) (p_trace (write_phase env ?q))" ..
    from trace_ext_suffix_guard [OF this]
    have "trace_ext (\<lambda>h r. host_mutation r \<longrightarrow> guest_answered tr h) (p_trace ?q) (p_trace (write_phase env ?q))"
      by (rule trace_ext_mono) (use a in \<open>auto simp: guest_answered_def\<close>)
    from trace_ext_trans [OF this 1] show ?thesis using None by (simp add: run_def Let_def split_beta)
  next
    case (Some e)
    then show ?thesis using 1 by (simp add: run_def Let_def split_beta)
  qed
qed

section \<open>A reconciliation\<close>

text \<open>A write of the TenantCluster's status only.\<close>

definition status_only :: "tenant_cluster \<Rightarrow> tenant_cluster \<Rightarrow> bool" where
  "status_only tc tc' \<longleftrightarrow> tc_meta tc' = tc_meta tc \<and> tc_spec tc' = tc_spec tc"

lemma status_only_steps [simp]:
  "status_only tc tc" "status_only tc (upd_status f tc') = status_only tc tc'"
  "status_only tc (setCond env a b c d tc') = status_only tc tc'"
  "status_only tc (gateway_condition env gw tc') = status_only tc tc'"
  "status_only tc (synced_condition env p tc') = status_only tc tc'"
  by (simp_all add: status_only_def upd_status_def setCond_def gateway_condition_def synced_condition_def)

definition sync_guard :: "tenant_cluster \<Rightarrow> event list \<Rightarrow> request \<Rightarrow> bool" where
  "sync_guard tc h r \<longleftrightarrow> pass_guard tc h r \<or> r = secret_request tc \<or> r = HostList KServiceCIDR [] [] \<or>
     (\<exists>tc'. r = HostStatusUpdate (OTenantCluster tc') \<and> status_only tc tc')"

lemma pass_guard_Now [simp]: "pass_guard tc h Now"
  by (simp add: pass_guard_def)

text \<open>What reports a guest that cannot be reached, and the pairs of it taken apart.\<close>

lemma disconnected_trace:
  "\<exists>tc' resp. status_only tc tc' \<and>
     (snd (disconnected s r tc cause tr) = (HostStatusUpdate (OTenantCluster tc'), resp) # tr \<or>
      (\<exists>t. snd (disconnected s r tc cause tr) = (HostStatusUpdate (OTenantCluster tc'), resp) # (Now, t) # tr))"
  by (cases "ts_lastSyncTime (tc_status (upd_status (\<lambda>st. st\<lparr>ts_connected := False\<rparr>) tc))")
    (auto simp: disconnected_def Let_def split_beta intro!: exI)

lemma disconnected_outcome: "fst (disconnected s r tc cause tr) = \<lparr>o_error = None, o_requeue = interval r\<rparr>"
  by (simp add: disconnected_def Let_def split_beta)

lemma disconnected_ext: "trace_ext (sync_guard tc) tr (snd (disconnected s r tc cause tr))"
proof -
  have u: "sync_guard tc h (HostStatusUpdate (OTenantCluster tc'))" if "status_only tc tc'" for h tc'
    using that by (auto simp: sync_guard_def)
  have n: "trace_ext (sync_guard tc) tr ((Now, t) # tr)" for t by (rule trace_ext_one) (simp add: sync_guard_def)
  obtain tc' resp t where st: "status_only tc tc'" and
    d: "snd (disconnected s r tc cause tr) = (HostStatusUpdate (OTenantCluster tc'), resp) # tr \<or>
      snd (disconnected s r tc cause tr) = (HostStatusUpdate (OTenantCluster tc'), resp) # (Now, t) # tr"
    using disconnected_trace [of tc s r cause tr] by blast
  have "trace_ext (sync_guard tc) tr ((HostStatusUpdate (OTenantCluster tc'), resp) # tr)"
    "trace_ext (sync_guard tc) tr ((HostStatusUpdate (OTenantCluster tc'), resp) # (Now, t) # tr)"
    by (rule trace_ext_one, rule u [OF st]) (rule trace_ext_step [OF n], rule u [OF st])
  then show ?thesis using d by auto
qed

text \<open>The course of a synchronisation: what precedes the pass, the pass, and what follows it.\<close>

definition before_pass :: "surroundings \<Rightarrow> tenant_cluster \<Rightarrow> event list \<Rightarrow> event list" where
  "before_pass s tc tr = snd (hostAddressFamilies s ((secret_request tc, api (s_env s) tr (secret_request tc)) # tr))"

lemma hostAddressFamilies_trace:
  "snd (hostAddressFamilies s tr) = (HostList KServiceCIDR [] [], api (s_env s) tr (HostList KServiceCIDR [] [])) # tr"
  by (simp add: hostAddressFamilies_def Let_def split_beta split: sum.split)

lemma sync_tenant_cases:
  obtains (unreachable) cause where "sync_tenant s tc r tr =
      (fst (disconnected s (fst (snd (guestClientFor s tc r tr))) tc cause (snd (snd (guestClientFor s tc r tr)))),
       fst (snd (guestClientFor s tc r tr)),
       snd (disconnected s (fst (snd (guestClientFor s tc r tr))) tc cause (snd (snd (guestClientFor s tc r tr)))))"
  | (failed) g gw fams hot images cause where "sync_tenant s tc r tr =
      (let p = snd (run (through s g) (newPass tc gw fams hot images (before_pass s tc tr)));
           r = fst (snd (guestClientFor s tc r tr))
       in (fst (disconnected s r tc cause (p_trace p)), r, snd (disconnected s r tc cause (p_trace p))))"
      "gw \<in> range (hostHasGatewayAPI s)"
  | (synced) g gw fams hot images now tc' resp res where "status_only tc tc'"
      "sync_tenant s tc r tr = (res, fst (snd (guestClientFor s tc r tr)),
         (HostStatusUpdate (OTenantCluster tc'), resp) # (Now, now) #
         p_trace (snd (run (through s g) (newPass tc gw fams hot images (before_pass s tc tr)))))"
      "res = (case write_error resp of Some e \<Rightarrow> \<lparr>o_error = Some (err_text e), o_requeue = 0\<rparr>
         | None \<Rightarrow> \<lparr>o_error = None, o_requeue = interval (fst (snd (guestClientFor s tc r tr)))\<rparr>)"
      "gw \<in> range (hostHasGatewayAPI s)"
proof (cases "fst (guestClientFor s tc r tr)")
  case (Inl e)
  then show thesis using unreachable by (simp add: sync_tenant_def Let_def split_beta)
next
  case (Inr g)
  let ?r = "fst (snd (guestClientFor s tc r tr))"
  let ?t1 = "snd (snd (guestClientFor s tc r tr))"
  let ?gw = "hostHasGatewayAPI s ?t1" and ?fams = "fst (hostAddressFamilies s ?t1)"
  let ?run = "run (through s g) (newPass tc ?gw ?fams (r_hot ?r) (r_images ?r) (snd (hostAddressFamilies s ?t1)))"
  have b: "snd (hostAddressFamilies s ?t1) = before_pass s tc tr" by (simp add: before_pass_def guestClientFor_trace)
  show thesis
  proof (cases "fst ?run")
    case (Some e)
    then show thesis
      using Inr failed [of g ?gw ?fams "r_hot ?r" "r_images ?r" e] unfolding b
      by (simp add: sync_tenant_def Let_def split_beta b)
  next
    case None
    let ?p = "snd ?run"
    let ?now = "api (s_env s) (p_trace ?p) Now"
    let ?tc = "synced_status (s_env s) ?gw ?fams (decode_time ?now) ?p tc"
    let ?resp = "api (s_env s) ((Now, ?now) # p_trace ?p) (HostStatusUpdate (OTenantCluster ?tc))"
    have "status_only tc ?tc" by (simp add: synced_status_def Let_def)
    moreover have "sync_tenant s tc r tr =
        ((case write_error ?resp of Some e \<Rightarrow> \<lparr>o_error = Some (err_text e), o_requeue = 0\<rparr>
           | None \<Rightarrow> \<lparr>o_error = None, o_requeue = interval ?r\<rparr>), ?r,
         (HostStatusUpdate (OTenantCluster ?tc), ?resp) # (Now, ?now) # p_trace ?p)"
      using Inr None by (simp add: sync_tenant_def Let_def split_beta split: option.split)
    ultimately show thesis using synced [of ?tc, OF _ _ refl rangeI] unfolding b by blast
  qed
qed

lemma before_pass_ext: "trace_ext (sync_guard tc) tr (before_pass s tc tr)"
  unfolding before_pass_def hostAddressFamilies_trace
  by (intro trace_ext_step trace_ext_refl) (simp_all add: sync_guard_def)

lemma before_pass_suffix: "\<exists>new. before_pass s tc tr = new @ tr"
  using trace_ext_suffix [OF before_pass_ext] .

lemma run_in_sync:
  "trace_ext (sync_guard tc) tr (p_trace (snd (run env (newPass tc gw fams hot images (before_pass s tc tr)))))"
  by (rule trace_ext_trans [OF trace_ext_mono [OF run_guarded] before_pass_ext]) (simp add: sync_guard_def)

lemma sync_tenant_guarded: "trace_ext (sync_guard tc) tr (snd (snd (sync_tenant s tc r tr)))"
proof (cases rule: sync_tenant_cases [of s tc r tr])
  case (unreachable cause)
  have "trace_ext (sync_guard tc) tr (snd (snd (guestClientFor s tc r tr)))"
    by (auto simp: guestClientFor_trace sync_guard_def intro: trace_ext_one)
  from trace_ext_trans [OF disconnected_ext this] show ?thesis using unreachable by simp
next
  case (failed g gw fams hot images cause)
  then show ?thesis using trace_ext_trans [OF disconnected_ext run_in_sync] by (simp add: Let_def)
next
  case (synced g gw fams hot images now tc' resp res)
  have "trace_ext (sync_guard tc) tr
      ((Now, now) # p_trace (snd (run (through s g) (newPass tc gw fams hot images (before_pass s tc tr)))))"
    by (rule trace_ext_step [OF run_in_sync]) (simp add: sync_guard_def)
  from trace_ext_step [OF this, of "HostStatusUpdate (OTenantCluster tc')" resp] show ?thesis
    using synced(1,2) by (auto simp: sync_guard_def)
qed

text \<open>
  The TenantCluster as it was read by the first request after the history \<open>tr\<close>, and as the server
  took it when its finalizer was added.  One that lacks the finalizer is adopted only through the
  update that adds it, sent at once after the read and accepted.
\<close>

definition read_as :: "event list \<Rightarrow> event list \<Rightarrow> string \<Rightarrow> string \<Rightarrow> tenant_cluster \<Rightarrow> bool" where
  "read_as tr h ns name tc \<longleftrightarrow> (\<exists>new. h = new @ (HostGet KTenantCluster ns name, RObj (OTenantCluster tc)) # tr)"

definition pin :: "surroundings \<Rightarrow> tenant_cluster \<Rightarrow> tenant_cluster" where
  "pin s tc = tc\<lparr>tc_meta := (tc_meta tc)\<lparr>om_finalizers :=
     snd (add_finalizer (s_env s) TenantClusterFinalizer (om_finalizers (tc_meta tc)))\<rparr>\<rparr>"

definition lacks_finalizer :: "surroundings \<Rightarrow> tenant_cluster \<Rightarrow> bool" where
  "lacks_finalizer s tc = fst (add_finalizer (s_env s) TenantClusterFinalizer (om_finalizers (tc_meta tc)))"

definition adopted :: "surroundings \<Rightarrow> event list \<Rightarrow> event list \<Rightarrow> string \<Rightarrow> string \<Rightarrow> tenant_cluster \<Rightarrow> bool" where
  "adopted s tr h ns name tc \<longleftrightarrow> (\<exists>tc0. read_as tr h ns name tc0 \<and> \<not> om_deleting (tc_meta tc0) \<and>
     (if lacks_finalizer s tc0
      then \<exists>new resp. h = new @ (HostUpdate (OTenantCluster (pin s tc0)), resp) #
          (HostGet KTenantCluster ns name, RObj (OTenantCluster tc0)) # tr \<and>
        decode_write to_tenant_cluster (pin s tc0) resp = Inr tc
      else tc = tc0))"

definition reconcile_guard ::
  "surroundings \<Rightarrow> bool \<Rightarrow> string \<Rightarrow> string \<Rightarrow> event list \<Rightarrow> event list \<Rightarrow> request \<Rightarrow> bool" where
  "reconcile_guard s hot ns name tr h r \<longleftrightarrow>
     (h = tr \<and> r = HostGet KTenantCluster ns name) \<or>
     (\<exists>tc. read_as tr h ns name tc \<and> om_deleting (tc_meta tc) \<and> teardown_guard s hot tc h r) \<or>
     (\<exists>tc. h = (HostGet KTenantCluster ns name, RObj (OTenantCluster tc)) # tr \<and> \<not> om_deleting (tc_meta tc) \<and>
        lacks_finalizer s tc \<and> r = HostUpdate (OTenantCluster (pin s tc))) \<or>
     (\<exists>tc. adopted s tr h ns name tc \<and> sync_guard tc h r)"

text \<open>A change on the host, other than to the TenantCluster, needs a deleted tenant or an answer.\<close>

definition answer_guard :: "string \<Rightarrow> string \<Rightarrow> event list \<Rightarrow> event list \<Rightarrow> request \<Rightarrow> bool" where
  "answer_guard ns name tr h r \<longleftrightarrow> host_mutation r \<longrightarrow>
     (\<exists>tc. r = HostUpdate (OTenantCluster tc) \<or> r = HostStatusUpdate (OTenantCluster tc)) \<or>
     guest_answered tr h \<or> (\<exists>tc. read_as tr h ns name tc \<and> om_deleting (tc_meta tc))"

lemma answer_guard_tenant [simp]:
  "answer_guard ns name tr h (HostUpdate (OTenantCluster tc))" "answer_guard ns name tr h (HostStatusUpdate (OTenantCluster tc))"
  "\<not> host_mutation r \<Longrightarrow> answer_guard ns name tr h r"
  by (simp_all add: answer_guard_def)

lemma disconnected_answer: "trace_ext (answer_guard ns name tr0) tr (snd (disconnected s r tc cause tr))"
proof -
  obtain tc' resp t where
    d: "snd (disconnected s r tc cause tr) = (HostStatusUpdate (OTenantCluster tc'), resp) # tr \<or>
      snd (disconnected s r tc cause tr) = (HostStatusUpdate (OTenantCluster tc'), resp) # (Now, t) # tr"
    using disconnected_trace [of tc s r cause tr] by blast
  have "trace_ext (answer_guard ns name tr0) tr ((Now, t) # tr)" by (rule trace_ext_one) simp
  then have "trace_ext (answer_guard ns name tr0) tr ((HostStatusUpdate (OTenantCluster tc'), resp) # (Now, t) # tr)"
    "trace_ext (answer_guard ns name tr0) tr ((HostStatusUpdate (OTenantCluster tc'), resp) # tr)"
    by (auto intro: trace_ext_step trace_ext_one)
  then show ?thesis using d by auto
qed

lemma run_in_sync_answer:
  assumes "\<exists>new. tr = new @ tr0"
  shows "trace_ext (answer_guard ns name tr0) tr
     (p_trace (snd (run env (newPass tc gw fams hot images (before_pass s tc tr)))))"
proof -
  have 1: "trace_ext (answer_guard ns name tr0) tr (before_pass s tc tr)"
    unfolding before_pass_def hostAddressFamilies_trace
    by (intro trace_ext_step trace_ext_refl) (simp_all add: secret_request_def)
  obtain new where "before_pass s tc tr = new @ tr0" using before_pass_suffix [of s tc tr] assms by auto
  then have "guest_answered tr0 h" if "guest_answered (before_pass s tc tr) h" for h
    using that guest_answered_earlier by metis
  then have "trace_ext (answer_guard ns name tr0) (before_pass s tc tr)
      (p_trace (snd (run env (newPass tc gw fams hot images (before_pass s tc tr)))))"
    by (intro trace_ext_mono [OF run_guest_first]) (simp add: answer_guard_def)
  then show ?thesis by (rule trace_ext_trans) (rule 1)
qed

lemma sync_tenant_answer:
  assumes "\<exists>new. tr = new @ tr0"
  shows "trace_ext (answer_guard ns name tr0) tr (snd (snd (sync_tenant s tc r tr)))"
proof (cases rule: sync_tenant_cases [of s tc r tr])
  case (unreachable cause)
  have "trace_ext (answer_guard ns name tr0) tr (snd (snd (guestClientFor s tc r tr)))"
    by (auto simp: guestClientFor_trace secret_request_def intro: trace_ext_one)
  from trace_ext_trans [OF disconnected_answer this] show ?thesis using unreachable by simp
next
  case (failed g gw fams hot images cause)
  then show ?thesis using trace_ext_trans [OF disconnected_answer run_in_sync_answer [OF assms]] by (simp add: Let_def)
next
  case (synced g gw fams hot images now tc' resp res)
  have "trace_ext (answer_guard ns name tr0) tr
      ((Now, now) # p_trace (snd (run (through s g) (newPass tc gw fams hot images (before_pass s tc tr)))))"
    by (rule trace_ext_step [OF run_in_sync_answer [OF assms]]) simp
  from trace_ext_step [OF this, of "HostStatusUpdate (OTenantCluster tc')" resp] show ?thesis
    using synced(2) by simp
qed

text \<open>The course of a reconciliation.\<close>

lemma decode_tenant: "decode_with to_tenant_cluster resp = Inr tc \<Longrightarrow> resp = RObj (OTenantCluster tc)"
  by (cases resp) (auto split: option.splits elim: to_tenant_cluster.elims)

lemma Reconcile_cases:
  fixes s ns name r tr
  defines "get \<equiv> HostGet KTenantCluster ns name"
  obtains (not_read) e where "decode_with to_tenant_cluster (api (s_env s) tr get) = Inl e"
      "Reconcile s ns name r tr = (\<lparr>o_error = (if IsNotFound e then None else Some (err_text e)), o_requeue = 0\<rparr>, r,
         (get, api (s_env s) tr get) # tr)"
  | (deleted) tc where "api (s_env s) tr get = RObj (OTenantCluster tc)" "om_deleting (tc_meta tc)"
      "Reconcile s ns name r tr = reconcileDelete s tc r ((get, RObj (OTenantCluster tc)) # tr)"
  | (pinned) tc where "api (s_env s) tr get = RObj (OTenantCluster tc)" "\<not> om_deleting (tc_meta tc)"
      "Reconcile s ns name r tr = sync_tenant s tc r ((get, RObj (OTenantCluster tc)) # tr)"
      "\<not> lacks_finalizer s tc"
  | (unpinned) tc resp e where "api (s_env s) tr get = RObj (OTenantCluster tc)" "\<not> om_deleting (tc_meta tc)"
      "Reconcile s ns name r tr = (\<lparr>o_error = Some e, o_requeue = 0\<rparr>, r,
         (HostUpdate (OTenantCluster (pin s tc)), resp) # (get, RObj (OTenantCluster tc)) # tr)"
      "lacks_finalizer s tc"
  | (pinning) tc resp tc' where "api (s_env s) tr get = RObj (OTenantCluster tc)" "\<not> om_deleting (tc_meta tc)"
      "decode_write to_tenant_cluster (pin s tc) resp = Inr tc'"
      "Reconcile s ns name r tr = sync_tenant s tc' r
         ((HostUpdate (OTenantCluster (pin s tc)), resp) # (get, RObj (OTenantCluster tc)) # tr)"
      "resp = api (s_env s) ((get, RObj (OTenantCluster tc)) # tr) (HostUpdate (OTenantCluster (pin s tc)))"
      "lacks_finalizer s tc"
proof (cases "decode_with to_tenant_cluster (api (s_env s) tr get)")
  case (Inl e)
  then show thesis using not_read by (simp add: Reconcile_def Let_def split_beta get_def)
next
  case (Inr tc)
  from decode_tenant [OF this] have a: "api (s_env s) tr get = RObj (OTenantCluster tc)" .
  let ?t = "(get, RObj (OTenantCluster tc)) # tr"
  show thesis
  proof (cases "om_deleting (tc_meta tc)")
    case True
    then show thesis using deleted a by (simp add: Reconcile_def Let_def split_beta get_def)
  next
    case False
    let ?add = "add_finalizer (s_env s) TenantClusterFinalizer (om_finalizers (tc_meta tc))"
    let ?resp = "api (s_env s) ?t (HostUpdate (OTenantCluster (pin s tc)))"
    show thesis
    proof (cases "fst ?add")
      case add: True
      have eq: "Reconcile s ns name r tr =
          (case decode_write to_tenant_cluster (pin s tc) ?resp of
             Inl e \<Rightarrow> (\<lparr>o_error = Some (err_text e), o_requeue = 0\<rparr>, r,
               (HostUpdate (OTenantCluster (pin s tc)), ?resp) # ?t)
           | Inr tc' \<Rightarrow> sync_tenant s tc' r ((HostUpdate (OTenantCluster (pin s tc)), ?resp) # ?t))"
        using a False add by (simp add: Reconcile_def Let_def split_beta get_def pin_def split: sum.split)
      show thesis
      proof (cases "decode_write to_tenant_cluster (pin s tc) ?resp")
        case (Inl e)
        then show thesis using unpinned [OF a False] eq add by (simp add: lacks_finalizer_def)
      next
        case (Inr tc')
        then show thesis using pinning [OF a False Inr _ refl] eq add by (simp add: lacks_finalizer_def)
      qed
    next
      case add: False
      then show thesis using pinned [OF a False] a False
        by (simp add: Reconcile_def Let_def split_beta get_def lacks_finalizer_def)
    qed
  qed
qed

lemma read_as_mono: "read_as tr h ns name tc \<Longrightarrow> \<exists>new. h' = new @ h \<Longrightarrow> read_as tr h' ns name tc"
  by (auto simp: read_as_def)

lemma adopted_mono: "adopted s tr h ns name tc \<Longrightarrow> \<exists>new. h' = new @ h \<Longrightarrow> adopted s tr h' ns name tc"
proof -
  assume a: "adopted s tr h ns name tc" and e: "\<exists>new. h' = new @ h"
  then obtain tc0 where t: "read_as tr h ns name tc0" "\<not> om_deleting (tc_meta tc0)"
    "if lacks_finalizer s tc0
      then \<exists>new resp. h = new @ (HostUpdate (OTenantCluster (pin s tc0)), resp) #
          (HostGet KTenantCluster ns name, RObj (OTenantCluster tc0)) # tr \<and>
        decode_write to_tenant_cluster (pin s tc0) resp = Inr tc
      else tc = tc0" unfolding adopted_def by blast
  obtain more where h': "h' = more @ h" using e by blast
  have "if lacks_finalizer s tc0
      then \<exists>new resp. h' = new @ (HostUpdate (OTenantCluster (pin s tc0)), resp) #
          (HostGet KTenantCluster ns name, RObj (OTenantCluster tc0)) # tr \<and>
        decode_write to_tenant_cluster (pin s tc0) resp = Inr tc
      else tc = tc0"
    using t(3) unfolding h' by (metis append.assoc)
  then show ?thesis using read_as_mono [OF t(1) e] t(2) unfolding adopted_def by blast
qed

lemma get_guarded: "trace_ext (reconcile_guard s hot ns name tr) tr ((HostGet KTenantCluster ns name, resp) # tr)"
  by (rule trace_ext_one) (simp add: reconcile_guard_def)

lemma sync_reconcile:
  assumes "adopted s tr t ns name tc"
  shows "trace_ext (reconcile_guard s hot ns name tr) t (snd (snd (sync_tenant s tc r t)))"
  using trace_ext_suffix_guard [OF sync_tenant_guarded [of tc t s r]]
  by (rule trace_ext_mono) (use adopted_mono [OF assms] in \<open>auto simp: reconcile_guard_def\<close>)

lemma pin_guarded:
  assumes "\<not> om_deleting (tc_meta tc)" and "lacks_finalizer s tc"
  shows "trace_ext (reconcile_guard s hot ns name tr) tr
     ((HostUpdate (OTenantCluster (pin s tc)), resp) # (HostGet KTenantCluster ns name, RObj (OTenantCluster tc)) # tr)"
  by (rule trace_ext_step [OF get_guarded]) (use assms in \<open>auto simp: reconcile_guard_def\<close>)

text \<open>
  Claim C11. A reconciliation first reads the TenantCluster under its key, and every other request of
  it is made for what that read returned.  A deleted one is only torn down.  One that is not
  deleted and lacks the finalizer is updated at once with the finalizer added, and nothing is sent
  after that unless the update was accepted, for the TenantCluster as the server took it; one that
  has the finalizer is synced as it was read.  Beside what a pass may do, only its status is then
  written.  In particular each delete on the host satisfies the guard of deletes for that
  TenantCluster.
\<close>

theorem reconcile_guarded:
  "trace_ext (reconcile_guard s (r_hot r) ns name tr) tr (snd (snd (Reconcile s ns name r tr)))"
proof (cases rule: Reconcile_cases [of s tr ns name r])
  case (not_read e)
  then show ?thesis using get_guarded by simp
next
  case (deleted tc)
  let ?t = "(HostGet KTenantCluster ns name, RObj (OTenantCluster tc)) # tr"
  have "read_as tr ?t ns name tc" by (simp add: read_as_def)
  then have "trace_ext (reconcile_guard s (r_hot r) ns name tr) ?t (snd (snd (reconcileDelete s tc r ?t)))"
    using trace_ext_suffix_guard [OF reconcileDelete_guarded [of s r tc ?t]] deleted(2) read_as_mono
    by (fastforce simp: reconcile_guard_def elim!: trace_ext_mono)
  from trace_ext_trans [OF this get_guarded] show ?thesis using deleted(3) by simp
next
  case (pinned tc)
  have "adopted s tr ((HostGet KTenantCluster ns name, RObj (OTenantCluster tc)) # tr) ns name tc"
    using pinned(2,4) by (auto simp: adopted_def read_as_def)
  from trace_ext_trans [OF sync_reconcile [OF this] get_guarded] show ?thesis using pinned(3) by simp
next
  case (unpinned tc resp e)
  then show ?thesis using pin_guarded [OF unpinned(2,4)] by simp
next
  case (pinning tc resp tc')
  have "adopted s tr ((HostUpdate (OTenantCluster (pin s tc)), resp) #
      (HostGet KTenantCluster ns name, RObj (OTenantCluster tc)) # tr) ns name tc'"
    using pinning(2,3,6) by (auto simp: adopted_def read_as_def)
  from trace_ext_trans [OF sync_reconcile [OF this] pin_guarded [OF pinning(2,6)]] show ?thesis using pinning(4) by simp
qed

text \<open>
  Claim C14. An unreachable guest costs its tenant nothing: whatever the servers answer, a
  reconciliation changes no host object but the TenantCluster itself, unless the TenantCluster is
  being deleted or the guest has answered the list of its Services in this very reconciliation.
\<close>

theorem no_change_before_guest_answers:
  "trace_ext (answer_guard ns name tr) tr (snd (snd (Reconcile s ns name r tr)))"
proof -
  have get: "trace_ext (answer_guard ns name tr) tr ((HostGet KTenantCluster ns name, resp) # tr)" for resp
    by (rule trace_ext_one) simp
  have upd: "trace_ext (answer_guard ns name tr) tr
      ((HostUpdate (OTenantCluster tc), a) # (HostGet KTenantCluster ns name, b) # tr)" for tc a b
    by (rule trace_ext_step [OF get]) simp
  show ?thesis
  proof (cases rule: Reconcile_cases [of s tr ns name r])
    case (not_read e)
    then show ?thesis using get by simp
  next
    case (deleted tc)
    let ?t = "(HostGet KTenantCluster ns name, RObj (OTenantCluster tc)) # tr"
    have "read_as tr ?t ns name tc" by (simp add: read_as_def)
    then have "trace_ext (answer_guard ns name tr) ?t (snd (snd (reconcileDelete s tc r ?t)))"
      using trace_ext_suffix_guard [OF reconcileDelete_guarded [of s r tc ?t]] deleted(2) read_as_mono
      by (fastforce simp: answer_guard_def elim!: trace_ext_mono)
    from trace_ext_trans [OF this get] show ?thesis using deleted(3) by simp
  next
    case (pinned tc)
    have "\<exists>new. (HostGet KTenantCluster ns name, RObj (OTenantCluster tc)) # tr = new @ tr" by simp
    from trace_ext_trans [OF sync_tenant_answer [OF this] get] show ?thesis using pinned(3) by simp
  next
    case (unpinned tc resp e)
    then show ?thesis using upd by simp
  next
    case (pinning tc resp tc')
    have "\<exists>new. (HostUpdate (OTenantCluster (pin s tc)), resp) #
        (HostGet KTenantCluster ns name, RObj (OTenantCluster tc)) # tr = new @ tr" by simp
    from trace_ext_trans [OF sync_tenant_answer [OF this] upd] show ?thesis using pinning(4) by simp
  qed
qed

section \<open>Every tenant is looked at again\<close>

lemma interval_pos [simp]: "0 < interval r"
  by (simp add: interval_def DefaultInterval_def second_def)

text \<open>The TenantCluster is not there, or is deleted and does not wait for this controller any more.\<close>

definition over :: "surroundings \<Rightarrow> string \<Rightarrow> string \<Rightarrow> event list \<Rightarrow> event list \<Rightarrow> bool" where
  "over s ns name tr tr' \<longleftrightarrow>
     (\<exists>m. tr' = (HostGet KTenantCluster ns name, RErr (NotFound m)) # tr) \<or>
     (\<exists>tc. api (s_env s) tr (HostGet KTenantCluster ns name) = RObj (OTenantCluster tc) \<and> om_deleting (tc_meta tc) \<and>
        (contains_finalizer (s_env s) TenantClusterFinalizer (om_finalizers (tc_meta tc)) = False \<or>
         fst (remove_finalizer (s_env s) TenantClusterFinalizer (om_finalizers (tc_meta tc))) = False \<or>
         (\<exists>fs resp. hd tr' = (HostUpdate (set_finalizers fs (OTenantCluster tc)), resp) \<and> write_error resp = None)))"

lemma release_tenant_over:
  "o_error (fst (release_tenant s tc r tr)) \<noteq> None \<or>
   fst (remove_finalizer (s_env s) TenantClusterFinalizer (om_finalizers (tc_meta tc))) = False \<or>
   (\<exists>fs resp. hd (snd (snd (release_tenant s tc r tr))) = (HostUpdate (set_finalizers fs (OTenantCluster tc)), resp) \<and>
      write_error resp = None)"
  by (auto simp: release_tenant_def Let_def split_beta)

lemma sync_tenant_again:
  "o_error (fst (sync_tenant s tc r tr)) \<noteq> None \<or> 0 < o_requeue (fst (sync_tenant s tc r tr))"
proof (cases rule: sync_tenant_cases [of s tc r tr])
  case (synced g gw fams hot images now tc' resp res)
  then show ?thesis by (simp split: option.split)
qed (simp_all add: disconnected_outcome Let_def)

text \<open>
  Claim C32. No tenant falls out of the polling: a reconciliation ends with an error, which brings it
  back, or asks to run again after a positive delay, or there is nothing left to do: the
  TenantCluster was not found, or it is deleted and its finalizer is not there or was removed by an
  update that succeeded.
\<close>

theorem tenant_looked_at_again:
  "Reconcile s ns name r tr \<in>
     {(res, r', tr'). o_error res \<noteq> None} \<union> {(res, r', tr'). 0 < o_requeue res} \<union>
     {(res, r', tr'). over s ns name tr tr'}"
proof (cases rule: Reconcile_cases [of s tr ns name r])
  case (not_read e)
  have "over s ns name tr ((HostGet KTenantCluster ns name, api (s_env s) tr (HostGet KTenantCluster ns name)) # tr)"
    if "IsNotFound e"
    using decode_with_NotFound [OF not_read(1) that] by (auto simp: over_def)
  then show ?thesis using not_read(2) by auto
next
  case (deleted tc)
  let ?t = "(HostGet KTenantCluster ns name, RObj (OTenantCluster tc)) # tr"
  show ?thesis
  proof (cases rule: reconcileDelete_cases [of s tc r ?t])
    case kept
    then have "over s ns name tr ?t" using deleted(1,2) unfolding over_def by blast
    then show ?thesis using deleted(3) kept(2) by simp
  next
    case (finished t1 t2)
    show ?thesis
      using release_tenant_over [of s tc r t2] deleted finished(3) unfolding over_def
      by (auto simp: split_beta)
  qed (use deleted(3) in simp_all)
next
  case (pinned tc)
  then show ?thesis using sync_tenant_again [of s tc r] by (auto simp: split_beta)
next
  case (pinning tc resp tc')
  then show ?thesis using sync_tenant_again [of s tc' r] by (auto simp: split_beta)
qed simp

section \<open>What the host can do, and whom an event concerns\<close>

text \<open>
  The address families are those of the host's ServiceCIDRs: IPv4 first, then IPv6, each
  exactly if some CIDR that parses is of that family, and none if the list failed.
\<close>

theorem hostAddressFamilies_exact:
  "fst (hostAddressFamilies s tr) =
     (case decode_list to_service_cidr (api (s_env s) tr (HostList KServiceCIDR [] [])) of
        Inl e \<Rightarrow> []
      | Inr items \<Rightarrow> filter
          (\<lambda>fam. \<exists>item \<in> set items. \<exists>cidr \<in> set (sd_cidrs item). \<exists>a. ParseCIDR cidr = Some a \<and>
             fam = (if is_to4 a then IPv4Protocol else IPv6Protocol))
          [IPv4Protocol, IPv6Protocol])"
proof -
  have "a \<in> set (cidr_ips items) \<longleftrightarrow> (\<exists>item \<in> set items. \<exists>cidr \<in> set (sd_cidrs item). ParseCIDR cidr = Some a)"
    for a items by (force simp: cidr_ips_def List.map_filter_def)
  then have ex: "(\<exists>a \<in> set (cidr_ips items). P a) \<longleftrightarrow>
      (\<exists>item \<in> set items. \<exists>cidr \<in> set (sd_cidrs item). \<exists>a. ParseCIDR cidr = Some a \<and> P a)" for items P
    by blast
  have fam: "IPv4Protocol = (if b then IPv4Protocol else IPv6Protocol) \<longleftrightarrow> b"
    "IPv6Protocol = (if b then IPv4Protocol else IPv6Protocol) \<longleftrightarrow> \<not> b" for b
    by (simp_all add: IPv4Protocol_def IPv6Protocol_def)
  have two: "filter P [x, y] = (if P x then [x] else []) @ (if P y then [y] else [])" for P and x y :: string
    by simp
  show ?thesis
    unfolding two fam ex [symmetric]
    by (simp add: hostAddressFamilies_def Let_def split_beta split: sum.split)
qed

text \<open>
  Events of host objects reach their tenant and no other: an object is routed to a
  TenantCluster exactly if it carries that tenant's ownership labels and these are not empty.
\<close>

theorem event_routed_to_owner:
  "mapHostObjectToTenant m = [(tc_namespace tc, tc_name tc)] \<longleftrightarrow>
     ownedBy m tc \<and> tc_name tc \<noteq> [] \<and> tc_namespace tc \<noteq> []"
  by (auto simp: mapHostObjectToTenant_def ownedBy_def Let_def)

section \<open>A REST mapper that fails\<close>

text \<open>
  A REST mapper that fails, for whatever reason, makes a teardown forget the tenant's
  Gateways and HTTPRoutes: once storage, Services and Ingresses are torn down, the next thing that
  happens is the release of the tenant, finalizer included, with no Gateway or HTTPRoute listed.
\<close>

theorem failing_mapper_skips_gateways:
  assumes "contains_finalizer (s_env s) TenantClusterFinalizer (om_finalizers (tc_meta tc))"
    and "storageTeardown (s_env s) (r_hot r) tc tr = (Inr True, t1)"
    and "teardown_kind (s_env s) tc KService to_service OService False (False, t1) = (None, False, t2)"
    and "teardown_kind (s_env s) tc KIngress to_ingress OIngress False (False, t2) = (None, False, t3)"
    and "s_mapping s t3 ''Gateway'' = Some e"
  shows "reconcileDelete s tc r tr = release_tenant s tc r t3"
  using assms by (simp add: reconcileDelete_def teardown_host_def teardown_gateways_def hostHasGatewayAPI_def)

text \<open>A host with a Gateway of the tenant, an answer to everything, and a REST mapper that times out.\<close>

definition ex_servers :: "event list \<Rightarrow> request \<Rightarrow> response" where
  "ex_servers h r = (case r of HostList k ns sel \<Rightarrow> RObjs [] | VMs ns \<Rightarrow> RVMs []
     | HostGet k ns n \<Rightarrow> RErr (NotFound ''no such object'') | _ \<Rightarrow> ROk)"

definition ex_surroundings :: surroundings where
  "ex_surroundings = \<lparr>s_env = ex_env ex_servers, s_guest = (\<lambda>_ _ _. ROk),
     s_mapping = (\<lambda>_ _. Some (OtherError ''timeout'')), s_restConfig = Inr, s_newClient = (\<lambda>_ _. Inr [])\<rparr>"

definition ex_reconciler :: reconciler where
  "ex_reconciler = \<lparr>r_interval = 0, r_factory = None, r_hot = True,
     r_images = \<lparr>img_Node = ''node'', img_Registrar = ''registrar''\<rparr>, r_guests = []\<rparr>"

definition ex_deleted :: tenant_cluster where
  "ex_deleted = ex_tc\<lparr>tc_meta := (tc_meta ex_tc)\<lparr>om_deleting := True, om_finalizers := [TenantClusterFinalizer]\<rparr>\<rparr>"

theorem failing_mapper_skips_gateways_witness:
  "map fst (snd (snd (reconcileDelete ex_surroundings ex_deleted ex_reconciler []))) =
     [HostUpdate (set_finalizers [] (OTenantCluster ex_deleted)), secret_request ex_deleted,
      HostList KIngress (host_ns ex_deleted) (tenantSelector ex_deleted),
      HostList KService (host_ns ex_deleted) (tenantSelector ex_deleted),
      VMs (host_ns ex_deleted), HostList KPVC (host_ns ex_deleted) (tenantSelector ex_deleted)]"
proof -
  let ?ns = "host_ns ex_deleted" and ?sel = "tenantSelector ex_deleted"
  let ?t1 = "[(VMs ?ns, RVMs []), (HostList KPVC ?ns ?sel, RObjs [])]"
  let ?t2 = "(HostList KService ?ns ?sel, RObjs []) # ?t1"
  let ?t3 = "(HostList KIngress ?ns ?sel, RObjs []) # ?t2"
  have env [simp]: "s_env ex_surroundings = ex_env ex_servers" by (simp add: ex_surroundings_def)
  have srv [simp]: "ex_servers h (HostList k ns sel) = RObjs []" "ex_servers h (VMs ns) = RVMs []"
    "ex_servers h (HostGet k ns n) = RErr (NotFound ''no such object'')" "ex_servers h (HostUpdate x) = ROk"
    for h k ns sel n x by (simp_all add: ex_servers_def)
  have fin: "om_finalizers (tc_meta ex_deleted) = [TenantClusterFinalizer]" by (simp add: ex_deleted_def)
  have st: "storageTeardown (ex_env ex_servers) True ex_deleted [] = (Inr True, ?t1)"
    by (simp add: storageTeardown_def ask_api_def removeOrphanVMVolumes_def Let_def split_beta)
  have kinds: "teardown_kind (ex_env ex_servers) ex_deleted KService to_service OService False (False, ?t1) = (None, False, ?t2)"
    "teardown_kind (ex_env ex_servers) ex_deleted KIngress to_ingress OIngress False (False, ?t2) = (None, False, ?t3)"
    by (simp_all add: teardown_kind_def ask_api_def Let_def split_beta)
  have "reconcileDelete ex_surroundings ex_deleted ex_reconciler [] =
      release_tenant ex_surroundings ex_deleted ex_reconciler ?t3"
    by (rule failing_mapper_skips_gateways [where e = "OtherError ''timeout''" and ?t1.0 = ?t1 and ?t2.0 = ?t2])
      (simp_all add: st kinds fin ex_reconciler_def ex_surroundings_def)
  moreover have "guestClientFor ex_surroundings ex_deleted ex_reconciler ?t3 =
      (fst (guestClientFor ex_surroundings ex_deleted ex_reconciler ?t3), ex_reconciler,
       (secret_request ex_deleted, RErr (NotFound ''no such object'')) # ?t3)"
    by (simp add: guestClientFor_def read_secret_def secret_request_def ask_api_def Let_def split_beta)
  moreover have "\<exists>e. fst (guestClientFor ex_surroundings ex_deleted ex_reconciler ?t3) = Inl e"
    by (simp add: guestClientFor_def read_secret_def ask_api_def Let_def split_beta)
  ultimately show ?thesis
    by (auto simp: release_tenant_def fin ask_api_def split_beta Let_def)
qed

theorem key_change_keeps_client_witness:
  "let sec = \<lparr>se_meta = no_meta, se_resourceVersion = ''7'', se_data = [''old'' \<mapsto> ''a'', ''kubeconfig'' \<mapsto> ''b'']\<rparr>;
       s = ex_surroundings\<lparr>s_env := ex_env (\<lambda>_ _. RObj (OSecret sec)), s_newClient := (\<lambda>cfg _. Inr (''to '' @ cfg))\<rparr>;
       r = ex_reconciler\<lparr>r_guests := [([], \<lparr>cg_secretRV = ''7'', cg_client = ''to a''\<rparr>)]\<rparr>
   in factory_of s r (at (se_data sec) (kubeconfig_key ex_tc)) = Inr ''to b'' \<and>
      fst (guestClientFor s ex_tc r []) = Inr ''to a''"
proof -
  let ?sec = "\<lparr>se_meta = no_meta, se_resourceVersion = ''7'', se_data = [''old'' \<mapsto> ''a'', ''kubeconfig'' \<mapsto> ''b'']\<rparr>"
  let ?s = "ex_surroundings\<lparr>s_env := ex_env (\<lambda>_ _. RObj (OSecret ?sec)), s_newClient := (\<lambda>cfg _. Inr (''to '' @ cfg))\<rparr>"
  let ?g = "\<lparr>cg_secretRV = ''7'', cg_client = ''to a''\<rparr>"
  let ?r = "ex_reconciler\<lparr>r_guests := [([], ?g)]\<rparr>"
  have key: "kubeconfig_key ex_tc = ''kubeconfig''" by (simp add: kubeconfig_key_def ex_tc_def DefaultKubeconfigKey_def)
  have uid: "om_uid (tc_meta ex_tc) = []" by (simp add: ex_tc_def no_meta_def)
  have data [simp]: "at [''old'' \<mapsto> ''a'', ''kubeconfig'' \<mapsto> ''b''] (kubeconfig_key ex_tc) = ''b''"
    by (simp add: key at_def)
  have "factory_of ?s ?r ''b'' = Inr ''to b''"
    by (simp add: factory_of_def ex_reconciler_def DefaultGuestClient_def ex_surroundings_def)
  moreover have "fst (guestClientFor ?s ex_tc ?r []) = Inr (cg_client ?g)"
    by (rule key_change_keeps_client [where sec = ?sec and g = ?g]) (simp_all add: uid)
  ultimately show ?thesis by (simp add: Let_def)
qed

theorem guest_client_current_witness:
  "let sec = \<lparr>se_meta = no_meta, se_resourceVersion = ''7'', se_data = [''kubeconfig'' \<mapsto> ''b'']\<rparr>;
       s = ex_surroundings\<lparr>s_env := ex_env (\<lambda>_ _. RObj (OSecret sec)), s_newClient := (\<lambda>cfg _. Inr cfg)\<rparr>
   in cache_ok s (fst (snd (guestClientFor s ex_tc ex_reconciler []))) (snd (snd (guestClientFor s ex_tc ex_reconciler [])))"
proof -
  let ?sec = "\<lparr>se_meta = no_meta, se_resourceVersion = ''7'', se_data = [''kubeconfig'' \<mapsto> ''b'']\<rparr>"
  let ?s = "ex_surroundings\<lparr>s_env := ex_env (\<lambda>_ _. RObj (OSecret ?sec)), s_newClient := (\<lambda>cfg _. Inr cfg)\<rparr>"
  have "cache_ok ?s ex_reconciler []" by (simp add: cache_ok_def ex_reconciler_def)
  moreover have "guestClientFor ?s ex_tc ex_reconciler [] =
      (Inr ''b'', fst (snd (guestClientFor ?s ex_tc ex_reconciler [])), snd (snd (guestClientFor ?s ex_tc ex_reconciler [])))"
    by (simp add: guestClientFor_def read_secret_def ask_api_def kubeconfig_key_def ex_tc_def no_meta_def at_def
        DefaultKubeconfigKey_def factory_of_def ex_reconciler_def DefaultGuestClient_def ex_surroundings_def
        Let_def split_beta prod_eq_iff)
  ultimately show ?thesis using guest_client_current [of ?s ex_reconciler "[]" ex_tc] unfolding Let_def by blast
qed

end
