(* ===== verification/TeardownSync.thy ===== *)
theory TeardownSync
  imports HostSync ReconcilerInv
begin

text \<open>
  What a teardown amounts to on a host that does what it is told: when the TenantCluster is let go,
  exactly the objects of the tenant have gone from its namespace, or are on their way out and held by
  nothing but their finalizers, and nothing else has changed.
\<close>

section \<open>What is to go\<close>

definition emptied :: "tenant_cluster \<Rightarrow> kind set \<Rightarrow> host_store \<Rightarrow> host_store" where
  "emptied tc ks s = (\<lambda>(k, ns, n).
     case s (k, ns, n) of
       None \<Rightarrow> None
     | Some x \<Rightarrow> if k \<in> ks \<and> ns = host_ns tc \<and> ownedBy (meta_of x) tc then reaped x else Some x)"

definition torn_kinds :: "bool \<Rightarrow> kind set" where
  "torn_kinds gw = {KPVC, KService, KIngress} \<union> (if gw then {KGateway, KHTTPRoute} else {})"

lemma pruned_emptied: "pruned k tc {} s = emptied tc {k} s"
  by (auto simp: fun_eq_iff pruned_def emptied_def split: option.split)

lemma emptied_emptied: "emptied tc ks (emptied tc ls s) = emptied tc (ls \<union> ks) s"
  by (auto simp: fun_eq_iff emptied_def reaped_def split: option.split)

section \<open>Delete loops on an honest host\<close>

lemma written_delete:
  assumes "honest_host env objs adm"
  shows "objs ((delete_request x, resp) # t) = written adm (delete_request x) (objs t)"
  by (rule honest_hostD(1) [OF assms]) (simp add: delete_request_def)

lemma fold_teardown_delete_objs:
  assumes "honest_host env objs adm"
  shows "objs (snd (fold (\<lambda>x. teardown_delete env tc (enc x)) ys st)) =
    fold (written adm) (map delete_request (filter (\<lambda>x. ownedBy (meta_of x) tc) (map enc ys))) (objs (snd st))"
proof (induction ys arbitrary: st)
  case (Cons y ys)
  have "objs (snd (teardown_delete env tc (enc y) st)) =
      (if ownedBy (meta_of (enc y)) tc then written adm (delete_request (enc y)) (objs (snd st)) else objs (snd st))"
    by (simp add: teardown_delete_def Let_def split_beta written_delete [OF assms])
  then show ?case using Cons by simp
qed simp

context host_kind
begin

text \<open>Deleting all that is listed under the tenant's selector.\<close>

lemma deleted_listed:
  assumes "honest_host env objs adm"
    and "\<And>x. x \<in> enc ` set ys \<longleftrightarrow> objs t (k, host_ns tc, om_name (meta_of x)) = Some x \<and> ownedBy (meta_of x) tc"
  shows "fold (written adm) (map delete_request (filter (\<lambda>x. ownedBy (meta_of x) tc) (map enc ys))) (objs t) =
    emptied tc {k} (objs t)"
proof -
  let ?gone = "filter (\<lambda>x. ownedBy (meta_of x) tc) (map enc ys)"
  have g: "x \<in> set ?gone \<longleftrightarrow> objs t (k, host_ns tc, om_name (meta_of x)) = Some x \<and> ownedBy (meta_of x) tc \<and>
      om_name (meta_of x) \<notin> {}" for x
    using assms(2) [of x] by auto
  have "fold (written adm) (map delete_request ?gone) (objs t) =
      (\<lambda>key. if key \<in> key_of ` set ?gone then Option.bind (objs t key) reaped else objs t key)"
    by (rule written_deletes) (metis g honest_hostD(2) [OF assms(1)] insertCI)
  also have "\<dots> = pruned k tc {} (objs t)"
    by (rule without_listed [OF g honest_hostD(2) [OF assms(1)]])
  finally show ?thesis by (simp only: pruned_emptied)
qed

lemma teardown_kind_objs:
  assumes "honest_host env objs adm" and "tc_name tc \<noteq> []" and "tc_namespace tc \<noteq> []"
  shows "fst (teardown_kind env tc k dec enc optional s) = None"
    and "objs (snd (snd (teardown_kind env tc k dec enc optional s))) = emptied tc {k} (objs (snd s))"
proof -
  let ?list = "HostList k (host_ns tc) (tenantSelector tc)"
  obtain ys where ys: "decode_list dec (api env (snd s) ?list) = Inr ys"
    "\<And>x. x \<in> enc ` set ys \<longleftrightarrow> objs (snd s) (k, host_ns tc, om_name (meta_of x)) = Some x \<and> ownedBy (meta_of x) tc"
    using listed_objs [OF assms] by blast
  have same: "objs ((?list, resp) # snd s) = objs (snd s)" for resp using honest_hostD(1) [OF assms(1)] by simp
  show "fst (teardown_kind env tc k dec enc optional s) = None"
    using ys(1) by (simp add: teardown_kind_def Let_def split_beta)
  show "objs (snd (snd (teardown_kind env tc k dec enc optional s))) = emptied tc {k} (objs (snd s))"
    using ys(1) deleted_listed [OF assms(1) ys(2)]
    by (simp add: teardown_kind_def Let_def split_beta fold_teardown_delete_objs [OF assms(1)] same)
qed

end

section \<open>Storage\<close>

lemma unplugs_objs:
  assumes "honest_host env objs adm"
  shows "objs (fold (teardown_unplug env ns vol) vms t) = objs t"
proof (induction vms arbitrary: t)
  case (Cons vm vms)
  have "objs (teardown_unplug env ns vol vm t) = objs t"
    using honest_hostD(1) [OF assms] by (simp add: teardown_unplug_def written_def split: option.split)
  then show ?case using Cons by simp
qed simp

lemma teardown_pvc_objs:
  assumes "honest_host env objs adm" and "fst (teardown_pvc env tc vms x st)"
  shows "fst st" and "objs (snd (teardown_pvc env tc vms x st)) =
    (if ownedBy (pvc_meta x) tc then written adm (delete_request (OPVC x)) (objs (snd st)) else objs (snd st))"
  using assms(2) by (auto simp: teardown_pvc_def Let_def split_beta unplugs_objs [OF assms(1)]
      written_delete [OF assms(1)] split: if_splits)

lemma fold_teardown_pvc_objs:
  assumes "honest_host env objs adm" and "fst (fold (teardown_pvc env tc vms) ys st)"
  shows "fst st" and "objs (snd (fold (teardown_pvc env tc vms) ys st)) =
    fold (written adm) (map delete_request (filter (\<lambda>x. ownedBy (meta_of x) tc) (map OPVC ys))) (objs (snd st))"
proof -
  have "fst st \<and> objs (snd (fold (teardown_pvc env tc vms) ys st)) =
    fold (written adm) (map delete_request (filter (\<lambda>x. ownedBy (meta_of x) tc) (map OPVC ys))) (objs (snd st))"
    using assms(2)
  proof (induction ys arbitrary: st)
    case (Cons y ys)
    then have "fst (teardown_pvc env tc vms y st)" by simp
    from teardown_pvc_objs [OF assms(1) this] Cons show ?case by simp
  qed simp
  then show "fst st" "objs (snd (fold (teardown_pvc env tc vms) ys st)) =
    fold (written adm) (map delete_request (filter (\<lambda>x. ownedBy (meta_of x) tc) (map OPVC ys))) (objs (snd st))"
    by simp_all
qed

lemma sweep_objs:
  assumes "honest_host env objs adm"
  shows "objs (snd (snd (removeOrphanVMVolumes env ns vms t))) = objs t"
proof (rule ext)
  fix key :: "kind \<times> string \<times> string"
  obtain k ns' n where key: "key = (k, ns', n)" by (cases key)
  show "objs (snd (snd (removeOrphanVMVolumes env ns vms t))) key = objs t key"
    unfolding key
    by (rule objs_spared [OF assms removeOrphanVMVolumes_guarded])
      (auto simp: sweep_guard_def spares_def split: request.splits)
qed

lemma storageTeardown_objs:
  assumes "honest_host env objs adm" and "tc_name tc \<noteq> []" and "tc_namespace tc \<noteq> []"
    and "storageTeardown env hot tc t = (Inr True, t')"
  shows "objs t' = emptied tc {KPVC} (objs t)"
proof -
  let ?list = "HostList KPVC (host_ns tc) (tenantSelector tc)"
  obtain ys where ys: "decode_list to_pvc (api env t ?list) = Inr ys"
    "\<And>x. x \<in> OPVC ` set ys \<longleftrightarrow> objs t (KPVC, host_ns tc, om_name (meta_of x)) = Some x \<and> ownedBy (meta_of x) tc"
    using hk_pvc.listed_objs [OF assms(1-3)] by blast
  note del = hk_pvc.deleted_listed [OF assms(1) ys(2)]
  have same: "objs ((?list, resp) # t) = objs t" "objs ((VMs ns, resp') # (?list, resp) # t) = objs t" for resp resp' ns
    using honest_hostD(1) [OF assms(1)] by (simp_all add: written_def)
  show ?thesis
  proof (cases hot)
    case False
    then have "ys = []" "t' = (?list, api env t ?list) # t"
      using assms(4) ys(1) by (auto simp: storageTeardown_def Let_def split_beta split: if_splits)
    then show ?thesis using del same by simp
  next
    case True
    let ?t2 = "(VMs (host_ns tc), api env ((?list, api env t ?list) # t) (VMs (host_ns tc))) # (?list, api env t ?list) # t"
    obtain vms where "fst (fold (teardown_pvc env tc vms) ys (True, ?t2))"
      "t' = snd (snd (removeOrphanVMVolumes env (host_ns tc) vms (snd (fold (teardown_pvc env tc vms) ys (True, ?t2)))))"
      using assms(4) ys(1) True by (auto simp: storageTeardown_def Let_def split_beta split: sum.splits)
    then show ?thesis
      using fold_teardown_pvc_objs(2) [OF assms(1)] sweep_objs [OF assms(1)] del same by simp
  qed
qed

section \<open>The other kinds, and the release\<close>

lemma teardown_host_objs:
  assumes "honest_host (s_env s) objs adm" and "tc_name tc \<noteq> []" and "tc_namespace tc \<noteq> []"
    and "\<And>h. hostHasGatewayAPI s h = gw" and "teardown_host s tc t = (e, failed, t')"
  shows "e = None" and "objs t' = emptied tc (torn_kinds gw - {KPVC}) (objs t)"
proof -
  note o = hk_service.teardown_kind_objs [OF assms(1-3)] hk_ingress.teardown_kind_objs [OF assms(1-3)]
    hk_gateway.teardown_kind_objs [OF assms(1-3)] hk_route.teardown_kind_objs [OF assms(1-3)]
  have sets: "torn_kinds gw - {KPVC} = {KService} \<union> {KIngress} \<union> (if gw then {KGateway} \<union> {KHTTPRoute} else {})"
    by (auto simp: torn_kinds_def)
  have "fst (teardown_host s tc t) = None"
    by (simp add: teardown_host_def teardown_gateways_def Let_def split_beta o(1,3,5,7))
  then show "e = None" using assms(5) by simp
  have t': "t' = snd (snd (teardown_host s tc t))" using assms(5) by simp
  show "objs t' = emptied tc (torn_kinds gw - {KPVC}) (objs t)"
    unfolding t' sets
    by (simp add: teardown_host_def teardown_gateways_def Let_def split_beta o assms(4) emptied_emptied insert_commute Un_commute)
qed

lemma release_spares:
  assumes "release_guard s tc h r" and "k \<noteq> KTenantCluster"
  shows "spares k r"
  using assms
  by (cases r) (auto simp: release_guard_def cleanup_guard_def secret_request_def spares_def set_finalizers_def)

lemma release_not_undone: "trace_ext (undo_guard tc) t (new @ t) \<Longrightarrow> (HostUpdate x, resp) \<notin> set new"
proof
  assume ext: "trace_ext (undo_guard tc) t (new @ t)" and x: "(HostUpdate x, resp) \<in> set new"
  from x obtain a b where "new = a @ (HostUpdate x, resp) # b" by (meson split_list)
  then have "undo_guard tc (b @ t) (HostUpdate x)"
    using ext trace_ext_event [of "undo_guard tc" t a "HostUpdate x" resp b] by simp
  then show False by (simp add: undo_guard_def)
qed

text \<open>
  Claim C6. Letting a deleted TenantCluster go is the end of an orderly teardown.  On a host that does
  what it is told (\<open>honest_host\<close>, with its Gateway API found or not found throughout, and nobody else
  writing), whenever a teardown has updated the TenantCluster, which is how its finalizer goes, the
  Services, Ingresses and PVCs of this tenant in its namespace, and its Gateways and HTTPRoutes where
  the host has these kinds, have been deleted: each one without finalizers is gone, and each one with
  finalizers, as a PVC has in practice, is still there and marked as being deleted, for the code does
  not wait for it to go.  Every object of somebody else, and every object of another namespace or kind,
  is as it was.
\<close>

theorem teardown_empties_host:
  assumes "honest_host (s_env s) objs adm" and "tc_name tc \<noteq> []" and "tc_namespace tc \<noteq> []"
    and "\<And>h. hostHasGatewayAPI s h = gw"
    and "snd (snd (reconcileDelete s tc r tr)) = new @ tr" and "(HostUpdate x, resp) \<in> set new"
    and "k \<noteq> KTenantCluster"
  shows "objs (new @ tr) (k, ns, n) = emptied tc (torn_kinds gw) (objs tr) (k, ns, n)"
proof -
  have late: False if "trace_ext (undo_guard tc) tr (snd (snd (reconcileDelete s tc r tr)))"
    using release_not_undone [of tc tr new x resp] that assms(5,6) by simp
  note storage = storageTeardown_done(1) and host = teardown_host_done(1)
  show ?thesis
  proof (cases rule: reconcileDelete_cases [of s tc r tr])
    case kept
    then show ?thesis using late by simp
  next
    case (storage_error e t1)
    then show ?thesis using late storage [OF storage_error(1)] by simp
  next
    case (host_error st t1 e failed t2)
    then show ?thesis using late trace_ext_trans [OF host [OF host_error(2)] storage [OF host_error(1)]] by simp
  next
    case (again st t1 failed t2)
    then show ?thesis using late trace_ext_trans [OF host [OF again(2)] storage [OF again(1)]] by simp
  next
    case (finished t1 t2)
    have "objs (new @ tr) (k, ns, n) = objs t2 (k, ns, n)"
      unfolding assms(5) [symmetric] finished(3)
      by (rule objs_spared [OF assms(1) release_tenant_ext]) (rule release_spares [OF _ assms(7)])
    also have "{KPVC} \<union> (torn_kinds gw - {KPVC}) = torn_kinds gw" by (auto simp: torn_kinds_def)
    then have "objs t2 = emptied tc (torn_kinds gw) (objs tr)"
      unfolding teardown_host_objs(2) [OF assms(1-4) finished(2)] storageTeardown_objs [OF assms(1-3) finished(1)]
        emptied_emptied by simp
    finally show ?thesis .
  qed
qed

section \<open>The teardown comes to its end\<close>

text \<open>Nothing stands in the way: no VM is left, and no delete is refused.\<close>

definition unhindered :: "env \<Rightarrow> bool" where
  "unhindered env \<longleftrightarrow> (\<forall>h ns. api env h (VMs ns) = RVMs []) \<and>
     (\<forall>h x uid. write_error (api env h (HostDelete x uid)) = None)"

lemma unhinderedD:
  assumes "unhindered env"
  shows "api env h (VMs ns) = RVMs []" and "\<not> delete_failed (api env h (delete_request x))"
  using assms by (simp_all add: unhindered_def delete_failed_def delete_request_def)

lemma unhindered_storage:
  assumes "honest_host env objs adm" and "tc_name tc \<noteq> []" and "tc_namespace tc \<noteq> []" and "unhindered env"
  shows "fst (storageTeardown env True tc t) = Inr True"
proof -
  obtain ys where ys: "decode_list to_pvc (api env t (HostList KPVC (host_ns tc) (tenantSelector tc))) = Inr ys"
    using hk_pvc.listed_objs [OF assms(1-3)] by blast
  have "fst (teardown_pvc env tc [] y st) = fst st" for y st
    by (simp add: teardown_pvc_def Let_def split_beta unhinderedD(2) [OF assms(4)])
  then have "fst (fold (teardown_pvc env tc []) ys st) = fst st" for st
    by (induction ys arbitrary: st) simp_all
  then show ?thesis
    using ys by (simp add: storageTeardown_def Let_def split_beta unhinderedD(1) [OF assms(4)] removeOrphanVMVolumes_def)
qed

lemma unhindered_deletes:
  assumes "unhindered env"
  shows "fst (fold (\<lambda>x. teardown_delete env tc (enc x)) ys st) = fst st"
  by (induction ys arbitrary: st) (simp_all add: teardown_delete_def Let_def split_beta unhinderedD(2) [OF assms])

context host_kind
begin

lemma unhindered_kind:
  assumes "honest_host env objs adm" and "tc_name tc \<noteq> []" and "tc_namespace tc \<noteq> []" and "unhindered env"
  shows "fst (snd (teardown_kind env tc k dec enc optional s)) = fst s"
proof -
  obtain ys where "decode_list dec (api env (snd s) (HostList k (host_ns tc) (tenantSelector tc))) = Inr ys"
    using listed_objs [OF assms(1-3)] by blast
  then show ?thesis by (simp add: teardown_kind_def Let_def split_beta unhindered_deletes [OF assms(4)])
qed

end

lemma unhindered_host:
  assumes "honest_host (s_env s) objs adm" and "tc_name tc \<noteq> []" and "tc_namespace tc \<noteq> []" and "unhindered (s_env s)"
  shows "fst (teardown_host s tc t) = None \<and> \<not> fst (snd (teardown_host s tc t))"
proof -
  note none = hk_service.teardown_kind_objs(1) [OF assms(1-3)] hk_ingress.teardown_kind_objs(1) [OF assms(1-3)]
    hk_gateway.teardown_kind_objs(1) [OF assms(1-3)] hk_route.teardown_kind_objs(1) [OF assms(1-3)]
  note ok = hk_service.unhindered_kind [OF assms] hk_ingress.unhindered_kind [OF assms]
    hk_gateway.unhindered_kind [OF assms] hk_route.unhindered_kind [OF assms]
  show ?thesis by (simp add: teardown_host_def teardown_gateways_def Let_def split_beta none ok)
qed

lemma unhindered_releases:
  assumes "honest_host (s_env s) objs adm" and "tc_name tc \<noteq> []" and "tc_namespace tc \<noteq> []"
    and "unhindered (s_env s)" and "r_hot r"
    and "contains_finalizer (s_env s) TenantClusterFinalizer (om_finalizers (tc_meta tc))"
    and "remove_finalizer (s_env s) TenantClusterFinalizer (om_finalizers (tc_meta tc)) = (True, fs)"
  shows "\<exists>resp t. snd (snd (reconcileDelete s tc r tr)) =
    (HostUpdate (set_finalizers fs (OTenantCluster tc)), resp) # t @ tr"
proof -
  obtain t1 where 1: "storageTeardown (s_env s) True tc tr = (Inr True, t1)"
    using unhindered_storage [OF assms(1-4)] by (metis prod.collapse)
  obtain t2 where 2: "teardown_host s tc t1 = (None, False, t2)"
    using unhindered_host [OF assms(1-4)] by (metis prod.collapse)
  let ?g = "guestClientFor s tc r t2"
  let ?t = "case fst ?g of Inl e \<Rightarrow> snd (snd ?g) | Inr g \<Rightarrow> cleanup_guest (through s g) (snd (snd ?g))"
  let ?upd = "HostUpdate (set_finalizers fs (OTenantCluster tc))"
  have eq: "snd (snd (reconcileDelete s tc r tr)) = (?upd, api (s_env s) ?t ?upd) # ?t"
    using assms(5-7) 1 2 by (simp add: reconcileDelete_def release_tenant_def Let_def split_beta)
  obtain a where "t2 = a @ tr" using trace_ext_suffix [OF undo_then(2) [OF 1 2]] by blast
  moreover obtain b where "?t = b @ t2"
  proof (cases "fst ?g")
    case (Inl e)
    then show ?thesis using that [of "[(secret_request tc, api (s_env s) t2 (secret_request tc))]"]
      by (simp add: guestClientFor_trace)
  next
    case (Inr g)
    then show ?thesis using that trace_ext_suffix [OF cleanup_guest_ext [of "through s g" "snd (snd ?g)"]]
      by (force simp: guestClientFor_trace)
  qed
  ultimately show ?thesis using eq by simp
qed

text \<open>
  Claim C33. A teardown that nothing stands in the way of comes to its end in one reconciliation: when
  the host does what it is told (\<open>honest_host\<close>), the KubeVirt client is there, as \<open>main\<close> always has
  it, no VM is left and no delete is refused (one that only marks an object its finalizers hold is
  not), the TenantCluster is updated without its finalizer, whether or not the guest can be reached.
\<close>

theorem unhindered_teardown_releases:
  assumes "honest_host (s_env s) objs adm" and "tc_name tc \<noteq> []" and "tc_namespace tc \<noteq> []"
    and "unhindered (s_env s)" and "r_hot r"
    and "contains_finalizer (s_env s) TenantClusterFinalizer (om_finalizers (tc_meta tc))"
    and "remove_finalizer (s_env s) TenantClusterFinalizer (om_finalizers (tc_meta tc)) = (True, fs)"
  shows "\<exists>resp t. snd (snd (reconcileDelete s tc r tr)) =
    (HostUpdate (set_finalizers fs (OTenantCluster tc)), resp) # t @ tr"
  by (rule unhindered_releases [OF assms])

section \<open>A host with an old Service of the tenant and a foreign one\<close>

definition ex_old :: obj where
  "ex_old = ex_held ''old'' (ownershipLabels ex_tc (ex_meta ''old''))"

definition ex_foreign :: obj where
  "ex_foreign = ex_held ''other'' Map.empty"

text \<open>And one of the tenant that a finalizer of the cloud's controller holds.\<close>

definition ex_slow :: obj where
  "ex_slow = (let x = ex_held ''slow'' (ownershipLabels ex_tc (ex_meta ''slow''))
     in set_meta ((meta_of x)\<lparr>om_finalizers := [''service.kubernetes.io/load-balancer-cleanup'']\<rparr>) x)"

definition ex_left :: "obj list" where
  "ex_left = [ex_old, ex_slow, ex_foreign]"

definition ex_ending :: surroundings where
  "ex_ending = ex_surroundings\<lparr>s_env := ex_env (keeping_host (\<lambda>x. x) [] ex_left)\<rparr>"

lemma ex_ending:
  "honest_host (s_env ex_ending) (kept_objects (\<lambda>x. x) ex_left) (\<lambda>x. x)" "unhindered (s_env ex_ending)"
  "hostHasGatewayAPI ex_ending h = False" "tc_name ex_deleted \<noteq> []" "tc_namespace ex_deleted \<noteq> []"
  "contains_finalizer (s_env ex_ending) TenantClusterFinalizer (om_finalizers (tc_meta ex_deleted))"
  "remove_finalizer (s_env ex_ending) TenantClusterFinalizer (om_finalizers (tc_meta ex_deleted)) = (True, [])"
  "r_hot ex_reconciler"
  using keeping_host_honest [OF refl, of "[]" ex_left]
  by (simp_all add: ex_ending_def ex_surroundings_def unhindered_def keeping_host_def hostHasGatewayAPI_def ex_deleted_def
      ex_tc_def no_meta_def ex_reconciler_def)

lemma unhindered_teardown_releases_witness:
  "\<exists>resp t. snd (snd (reconcileDelete ex_ending ex_deleted ex_reconciler [])) =
     (HostUpdate (set_finalizers [] (OTenantCluster ex_deleted)), resp) # t @ []"
  using ex_ending by (intro unhindered_teardown_releases) simp_all

lemma ex_left_start:
  "kept_objects (\<lambda>x. x) ex_left [] (KService, ''host-t'', ''old'') = Some ex_old"
  "kept_objects (\<lambda>x. x) ex_left [] (KService, ''host-t'', ''slow'') = Some ex_slow"
  "kept_objects (\<lambda>x. x) ex_left [] (KService, ''host-t'', ''other'') = Some ex_foreign"
  by (simp_all add: ex_left_def kept_objects_def key_of_def ex_old_def ex_slow_def ex_foreign_def ex_held_def
      ex_service_def ex_meta_def Let_def)

lemma ex_left_owned:
  "ownedBy (meta_of ex_old) ex_tc" "ownedBy (meta_of ex_slow) ex_tc" "\<not> ownedBy (meta_of ex_foreign) ex_tc"
  "reaped ex_old = None" "reaped ex_slow = Some (terminating ex_slow)"
  by (simp_all add: ex_old_def ex_slow_def ex_foreign_def ex_held_def ex_service_def ex_meta_def Let_def ownedBy_def
      ownershipLabels_def ex_tc_def at_def reaped_def no_meta_def)

lemma teardown_empties_host_witness:
  "let after = kept_objects (\<lambda>x. x) ex_left (snd (snd (reconcileDelete ex_ending ex_deleted ex_reconciler [])))
   in after (KService, ''host-t'', ''old'') = None \<and>
      after (KService, ''host-t'', ''slow'') = Some (terminating ex_slow) \<and>
      after (KService, ''host-t'', ''other'') = Some ex_foreign"
proof -
  obtain resp t where t: "snd (snd (reconcileDelete ex_ending ex_deleted ex_reconciler [])) =
      ((HostUpdate (set_finalizers [] (OTenantCluster ex_deleted)), resp) # t) @ []"
    using unhindered_releases [OF ex_ending(1,4,5,2,8,6,7), of "[]"] by auto
  have "kept_objects (\<lambda>x. x) ex_left (((HostUpdate (set_finalizers [] (OTenantCluster ex_deleted)), resp) # t) @ []) (KService, ns, n) =
      emptied ex_deleted (torn_kinds False) (kept_objects (\<lambda>x. x) ex_left []) (KService, ns, n)" for ns n
    by (rule teardown_empties_host [OF ex_ending(1,4,5,3) t]) auto
  moreover have "host_ns ex_deleted = ''host-t''" "ownedBy m ex_deleted = ownedBy m ex_tc" for m
    by (simp_all add: ex_deleted_def ex_tc_def ownedBy_def)
  ultimately show ?thesis
    unfolding t Let_def by (simp add: emptied_def torn_kinds_def ex_left_start ex_left_owned)
qed

end
