(* ===== verification/Fleet.thy ===== *)
theory Fleet
  imports Convergence TeardownSync
begin

text \<open>
  Several tenants on one host.  One controller reconciles them one after the other, in whatever order
  its work queue has them, each through its own guest; the step relation \<open>turns\<close> is what the
  host has seen after any number of reconciliations.  By rule induction none of them touches an
  object that is not its tenant's.  Of the host it is only assumed what concerns that one object:
  that answers show it as it is, and that nothing but a write to it changes it.
\<close>

section \<open>One object of the host\<close>

text \<open>
  The requests that may change the object \<open>x\<close> under a key: updates of it and of its status, and a
  delete with its UID.  A create cannot, for the key is taken.
\<close>

definition touches :: "kind \<times> string \<times> string \<Rightarrow> obj \<Rightarrow> request \<Rightarrow> bool" where
  "touches key x r \<longleftrightarrow> (case r of
     HostUpdate y \<Rightarrow> key_of y = key
   | HostStatusUpdate y \<Rightarrow> key_of y = key
   | HostDelete y uid \<Rightarrow> key_of y = key \<and> uid = om_uid (meta_of x)
   | _ \<Rightarrow> False)"

definition changed_by_touch :: "(event list \<Rightarrow> host_store) \<Rightarrow> kind \<times> string \<times> string \<Rightarrow> obj \<Rightarrow> bool" where
  "changed_by_touch objs key x \<longleftrightarrow>
     (\<forall>h r resp. objs h key = Some x \<and> \<not> touches key x r \<longrightarrow> objs ((r, resp) # h) key = Some x)"

text \<open>
  What the host answers: a read with an object of the name asked for, an update with one of the name
  sent; and while the object is there, reads and lists that are answered with an object of its key
  show it.  Any request may fail instead.
\<close>

definition shows_object :: "env \<Rightarrow> (event list \<Rightarrow> host_store) \<Rightarrow> kind \<times> string \<times> string \<Rightarrow> obj \<Rightarrow> bool" where
  "shows_object env objs key x \<longleftrightarrow>
     (\<forall>h k ns n y. api env h (HostGet k ns n) = RObj y \<longrightarrow> key_of y = (k, ns, n)) \<and>
     (\<forall>h z y. api env h (HostUpdate z) = RObj y \<longrightarrow> key_of y = key_of z) \<and>
     (\<forall>h k ns n y. api env h (HostGet k ns n) = RObj y \<and> key_of y = key \<and> objs h key = Some x \<longrightarrow> y = x) \<and>
     (\<forall>h k ns sel ys y. api env h (HostList k ns sel) = RObjs ys \<and> y \<in> set ys \<and> key_of y = key \<and>
        objs h key = Some x \<longrightarrow> y = x)"

lemma shows_objectD:
  assumes "shows_object env objs key x"
  shows "api env h (HostGet k ns n) = RObj y \<Longrightarrow> key_of y = (k, ns, n)"
    and "api env h (HostUpdate z) = RObj y \<Longrightarrow> key_of y = key_of z"
    and "api env h (HostGet k ns n) = RObj y \<Longrightarrow> key_of y = key \<Longrightarrow> objs h key = Some x \<Longrightarrow> y = x"
    and "api env h (HostList k ns sel) = RObjs ys \<Longrightarrow> y \<in> set ys \<Longrightarrow> key_of y = key \<Longrightarrow> objs h key = Some x \<Longrightarrow> y = x"
  using assms unfolding shows_object_def by blast+

lemma shows_through:
  assumes "shows_object (s_env s) objs key x"
  shows "shows_object (through s g) objs key x"
proof -
  have e: "api (through s g) h (HostGet k ns n) = api (s_env s) h (HostGet k ns n)"
    "api (through s g) h (HostUpdate z) = api (s_env s) h (HostUpdate z)"
    "api (through s g) h (HostList k ns sel) = api (s_env s) h (HostList k ns sel)" for h k ns n z sel
    by (simp_all add: through_def)
  show ?thesis using assms unfolding shows_object_def e .
qed

lemma untouched: "changed_by_touch objs key x \<Longrightarrow> objs h key = Some x \<Longrightarrow> \<not> touches key x r \<Longrightarrow> objs ((r, resp) # h) key = Some x"
  by (simp add: changed_by_touch_def)

lemma touches_simps [simp]:
  "\<not> touches key x (HostGet k ns n)" "\<not> touches key x (HostList k ns sel)" "\<not> touches key x (HostCreate y)"
  "\<not> touches key x (VMs ns)" "\<not> touches key x Now" "\<not> touches key x (RemoveVolume ns vm vol)"
  "touches key x (HostUpdate y) = (key_of y = key)" "touches key x (HostStatusUpdate y) = (key_of y = key)"
  "touches key x (delete_request y) = (key_of y = key \<and> om_uid (meta_of y) = om_uid (meta_of x))"
  by (simp_all add: touches_def delete_request_def)

lemma spares_touches: "spares k r \<Longrightarrow> \<not> touches (k, ns, n) x r"
  by (cases r) (auto simp: spares_def touches_def key_of_def)

lemma kept_by_ext:
  assumes "changed_by_touch objs key x" and "objs t key = Some x"
    and "trace_ext Q t t'" and "\<And>h r. Q h r \<Longrightarrow> \<not> touches key x r"
  shows "objs t' key = Some x"
  using assms(3,2)
proof (induction rule: trace_ext.induct)
  case (trace_ext_step t t' r resp)
  then show ?case using untouched [OF assms(1)] assms(4) by blast
qed

section \<open>Applying and pruning leave what the tenant does not own\<close>

text \<open>The object is there, is not the tenant's, and the pass is that tenant's.\<close>

definition apart :: "(event list \<Rightarrow> host_store) \<Rightarrow> kind \<times> string \<times> string \<Rightarrow> obj \<Rightarrow> pass \<Rightarrow> bool" where
  "apart objs key x p \<longleftrightarrow> objs (p_trace p) key = Some x \<and> \<not> ownedBy (meta_of x) (p_tc p)"

lemma apart_fold:
  "(\<And>y q. y \<in> set ys \<Longrightarrow> apart objs key x q \<Longrightarrow> apart objs key x (f y q)) \<Longrightarrow> apart objs key x p \<Longrightarrow>
   apart objs key x (fold f ys p)"
  by (rule fold_invariant_set)

lemma apart_deleteOwned:
  assumes "changed_by_touch objs key x" and "key_of y = key \<Longrightarrow> y = x" and "apart objs key x p"
  shows "apart objs key x (deleteOwned env y p)"
proof -
  have "p_tc (deleteOwned env y p) = p_tc p" using deleteOwned_frame [of env y p] by (simp add: prune_frame_def)
  moreover have "\<not> touches key x (delete_request y)" if "ownedBy (meta_of y) (p_tc p)"
    using that assms(2,3) by (auto simp: apart_def)
  ultimately show ?thesis using assms(3) untouched [OF assms(1)] by (simp add: apart_def deleteOwned_trace)
qed

context sync_target
begin

lemma apart_apply1:
  assumes "changed_by_touch objs key x" and "shows_object env objs key x" and "apart objs key x p"
  shows "apart objs key x (apply1 env w p)"
proof -
  let ?get = "HostGet k (om_namespace (meta_of (enc w))) (om_name (meta_of (enc w)))"
  let ?t = "(?get, api env (p_trace p) ?get) # p_trace p"
  have t: "objs ?t key = Some x" using assms(3) untouched [OF assms(1)] by (simp add: apart_def)
  have upd: "key_of (enc (merge h w)) \<noteq> key"
    if h: "decode_with dec (api env (p_trace p) ?get) = Inr h" "ownedBy (meta_of (enc h)) (p_tc p)" for h
  proof
    assume key: "key_of (enc (merge h w)) = key"
    obtain y where "api env (p_trace p) ?get = RObj y" "dec y = Some h" using decode_with_Inr [OF h(1)] by blast
    then have "enc h = x"
      using shows_objectD(3) [OF assms(2)] key assms(3) dec_iff [of y h] by (simp add: merge_key apart_def)
    then show False using h(2) assms(3) by (simp add: apart_def)
  qed
  have "objs (p_trace (apply1 env w p)) key = Some x"
    using t upd untouched [OF assms(1) t]
    by (simp add: apply1_trace step_trace_def Let_def split: sum.split)
  then show ?thesis using assms(3) by (simp add: apart_def apply1_tc)
qed

lemma apart_each:
  assumes "changed_by_touch objs key x" and "shows_object env objs key x" and "apart objs key x p"
  shows "apart objs key x (apply_each field (apply1 env) p)"
  unfolding apply_each_def
  by (rule apart_fold [OF _ assms(3)]) (use apart_apply1 [OF assms(1,2)] in \<open>simp split: option.split\<close>)

lemma apart_prune:
  assumes "changed_by_touch objs key x" and "shows_object env objs key x" and "apart objs key x p"
  shows "apart objs key x (prune_kind env k dec enc (\<lambda>p. keys (field p)) optional p)"
proof -
  let ?list = "HostList k (host_ns (p_tc p)) (tenantSelector (p_tc p))"
  let ?p = "snd (call env ?list p)"
  have p: "apart objs key x ?p" using assms(3) untouched [OF assms(1)] by (simp add: apart_def)
  show ?thesis
  proof (cases "decode_list dec (api env (p_trace p) ?list)")
    case (Inl e)
    then show ?thesis using p by (simp add: prune_kind_def Let_def split_beta apart_def)
  next
    case (Inr items)
    then obtain xs where xs: "api env (p_trace p) ?list = RObjs xs" "list_all2 (\<lambda>x y. dec x = Some y) xs items"
      by (rule decode_list_Inr)
    have "enc y \<in> set xs" if "y \<in> set items" for y
      using xs(2) that dec_enc by (fastforce simp: list_all2_conv_all_nth in_set_conv_nth)
    then have "enc y = x" if "y \<in> set items" "key_of (enc y) = key" for y
      using shows_objectD(4) [OF assms(2) xs(1)] that assms(3) by (simp add: apart_def)
    then have "apart objs key x (prune_items env enc (\<lambda>p. keys (field p)) items ?p)"
      unfolding prune_items_def by (intro apart_fold [OF _ p]) (simp add: apart_deleteOwned [OF assms(1)])
    then show ?thesis using Inr by (simp add: prune_kind_def Let_def split_beta)
  qed
qed

end

lemma apart_applyAll:
  "changed_by_touch objs key x \<Longrightarrow> shows_object env objs key x \<Longrightarrow> apart objs key x p \<Longrightarrow> apart objs key x (applyAll env p)"
  unfolding applyAll_def
  by (intro st_route.apart_each st_gateway.apart_each st_ingress.apart_each st_service.apart_each)

lemma apart_pruneAll:
  assumes "changed_by_touch objs key x" and "shows_object env objs key x" and "apart objs key x p"
  shows "apart objs key x (pruneAll env p)"
  using st_route.apart_prune [OF assms(1,2)] st_gateway.apart_prune [OF assms(1,2)]
    st_ingress.apart_prune [OF assms(1,2)] st_service.apart_prune [OF assms(1,2)] assms(3)
  by (simp add: pruneAll_def Let_def)

section \<open>A pass\<close>

lemma apart_ext:
  assumes "changed_by_touch objs (k, ns, n) x" and "apart objs (k, ns, n) x p" and "p_tc q = p_tc p"
    and "trace_ext Q (p_trace p) (p_trace q)" and "\<And>h r. Q h r \<Longrightarrow> spares k r"
  shows "apart objs (k, ns, n) x q"
  using kept_by_ext [OF assms(1) _ assms(4)] spares_touches assms(2,3,5) by (auto simp: apart_def)

lemma apart_phases:
  assumes "changed_by_touch objs (k, ns, n) x" and "apart objs (k, ns, n) x p"
  shows "wb_ok p q \<Longrightarrow> apart objs (k, ns, n) x q"
    and "k \<noteq> KPVC \<Longrightarrow> step_ok p q \<Longrightarrow> apart objs (k, ns, n) x q"
  by (rule apart_ext [OF assms, where Q = writeback_calls];
      auto simp: wb_ok_def wb_frame_def spared(2))
    (rule apart_ext [OF assms, where Q = "storage_guard (p_tc p)"];
      auto simp: step_ok_def st_same_def spared(3))

lemma apart_namespace:
  assumes "changed_by_touch objs key x" and "apart objs key x p"
  shows "apart objs key x (snd (ensureHostNamespace env p))"
proof -
  let ?get = "HostGet KNamespace [] (host_ns (p_tc p))"
  have t: "objs ((?get, resp) # p_trace p) key = Some x" for resp
    using assms(2) untouched [OF assms(1)] by (simp add: apart_def)
  have "objs ((HostCreate y, resp') # (?get, resp) # p_trace p) key = Some x" for y resp resp'
    by (rule untouched [OF assms(1) t]) simp
  then show ?thesis
    using t assms(2) by (simp add: apart_def ensureHostNamespace_def Let_def split_beta split: sum.split option.split)
qed

lemma write_phase_apart:
  assumes "changed_by_touch objs (k, ns, n) x" and "shows_object env objs (k, ns, n) x" and "k \<noteq> KPVC"
    and "desired_inv tc b p" and "apart objs (k, ns, n) x p"
  shows "apart objs (k, ns, n) x (write_phase env p)"
proof -
  let ?p1 = "ensureGuestFinalizers env p" and ?apart = "apart objs (k, ns, n) x"
  let ?q = "apply_phase env ?p1"
  have i: "pass_inv tc b p" and d: "desired_ok p" using assms(4) by (simp_all add: desired_inv_def)
  have w1: "wb_ok p ?p1" using ensureGuestFinalizers_ok i by (simp add: pass_inv_def)
  then have "desired_inv tc b ?p1"
    using ensure.invariant [OF i, of env] desired_ok_same [OF _ _ d] by (simp add: desired_inv_def wb_ok_def wb_frame_def)
  then have iq: "pass_inv tc b ?q" by (rule conjunct1 [OF apply_phase_ok])
  have "?apart ?p1" by (rule apart_phases(1) [OF assms(1,5) w1])
  then have "?apart (snd (ensureHostNamespace env ?p1))" by (rule apart_namespace [OF assms(1)])
  moreover from this have "?apart (applyAll env (snd (ensureHostNamespace env ?p1)))"
    by (rule apart_applyAll [OF assms(1,2)])
  from apart_phases(2) [OF assms(1) this assms(3) applyStorage_ok]
  have "?apart (applyStorage env (applyAll env (snd (ensureHostNamespace env ?p1))))" .
  ultimately have "?apart ?q" by (simp add: apply_phase_def Let_def split_beta)
  then have 5: "?apart (pruneAll env ?q)" by (rule apart_pruneAll [OF assms(1,2)])
  have i5: "pass_inv tc b (pruneAll env ?q)" using keepsD(1) [OF keeps_pruneAll iq] .
  let ?p6 = "pruneStorage env (pruneAll env ?q)"
  have i6: "pass_inv tc b ?p6" by (rule keepsD(1) [OF keeps_storage i5]) (rule pruneStorage_ok)
  have 6: "?apart ?p6"
    by (rule apart_phases(2) [OF assms(1) 5 assms(3)]) (use pruneStorage_ok i5 in \<open>simp add: pass_inv_def\<close>)
  have w7: "wb_ok ?p6 (releaseGuestFinalizers env ?p6)" using releaseGuestFinalizers_ok i6 by (simp add: pass_inv_def)
  note 7 = apart_phases(1) [OF assms(1) 6 w7]
  have "?apart (writeBack env (releaseGuestFinalizers env ?p6))"
    by (rule apart_phases(1) [OF assms(1) 7]) (use writeBack_ok w7 in \<open>simp add: wb_ok_def\<close>)
  from apart_phases(2) [OF assms(1) this assms(3) writeBackStorage_ok] show ?thesis
    by (simp add: write_phase_split settle_def)
qed

lemma pass_keeps_others:
  assumes "changed_by_touch objs (k, ns, n) x" and "shows_object env objs (k, ns, n) x" and "k \<noteq> KPVC"
    and "objs tr (k, ns, n) = Some x" and "\<not> ownedBy (meta_of x) tc"
  shows "objs (p_trace (snd (run env (newPass tc gw fams hot images tr)))) (k, ns, n) = Some x"
proof -
  let ?new = "newPass tc gw fams hot images tr"
  let ?p = "snd (read_phase env ?new)"
  note r = read_phase_ok [of tc tr env gw fams hot images]
  have p: "objs (p_trace ?p) (k, ns, n) = Some x"
    by (rule kept_by_ext [OF assms(1,4) conjunct1 [OF r]]) (use spared(1) spares_touches in blast)
  show ?thesis
  proof (cases "fst (read_phase env ?new)")
    case None
    then have d: "desired_inv tc (\<forall>e \<in> set tr. \<not> prune_trouble e) ?p" using r by simp
    then have "apart objs (k, ns, n) x ?p" using p assms(5) by (simp add: apart_def desired_inv_def pass_inv_def)
    from write_phase_apart [OF assms(1-3) d this] None show ?thesis
      by (simp add: run_def Let_def split_beta apart_def)
  next
    case (Some e)
    then show ?thesis using p by (simp add: run_def Let_def split_beta)
  qed
qed

section \<open>A teardown\<close>

lemma unplug_keeps:
  assumes "changed_by_touch objs key x"
  shows "objs t key = Some x \<Longrightarrow> objs (fold (teardown_unplug env ns' vol) vms t) key = Some x"
proof (induction vms arbitrary: t)
  case (Cons vm vms)
  have "objs (teardown_unplug env ns' vol vm t) key = Some x"
    using Cons.prems untouched [OF assms] by (simp add: teardown_unplug_def split: option.split)
  then show ?case using Cons.IH by simp
qed simp

lemma storageTeardown_keeps:
  assumes "changed_by_touch objs (k, ns, n) x" and "k \<noteq> KPVC" and "objs t (k, ns, n) = Some x"
  shows "objs (snd (storageTeardown env hot tc t)) (k, ns, n) = Some x"
proof -
  let ?there = "\<lambda>t. objs t (k, ns, n) = Some x"
  have pvc: "?there (snd (teardown_pvc env tc vms y st))" if st: "?there (snd st)" for vms y st
  proof -
    have u: "?there (fold (teardown_unplug env (host_ns tc) v) order (snd st))" for v order
      by (rule unplug_keeps [OF assms(1) st])
    have "\<not> touches (k, ns, n) x (delete_request (OPVC y))" using assms(2) by (simp add: key_of_def)
    then show ?thesis using st u untouched [OF assms(1) u] by (simp add: teardown_pvc_def Let_def split_beta)
  qed
  have pvcs: "?there (snd (fold (teardown_pvc env tc vms) ys st))" if "?there (snd st)" for vms ys st
    using that by (intro fold_invariant_set [where P = "\<lambda>st. ?there (snd st)"] pvc)
  have sweep: "?there (snd (snd (removeOrphanVMVolumes env (host_ns tc) vms u)))" if "?there u" for vms u
    by (rule kept_by_ext [OF assms(1) that removeOrphanVMVolumes_guarded])
      (auto simp: sweep_guard_def touches_def split: request.splits)
  note read = untouched [OF assms(1)]
  show ?thesis
    using read [OF assms(3)] read [OF read [OF assms(3)]] pvcs sweep
    by (simp add: storageTeardown_def Let_def split_beta split: sum.split)
qed

context host_kind
begin

lemma teardown_kind_keeps:
  assumes "changed_by_touch objs key x" and "shows_object env objs key x"
    and "objs (snd s) key = Some x" and "\<not> ownedBy (meta_of x) tc"
  shows "objs (snd (snd (teardown_kind env tc k dec enc optional s))) key = Some x"
proof -
  let ?list = "HostList k (host_ns tc) (tenantSelector tc)"
  let ?t = "(?list, api env (snd s) ?list) # snd s"
  have t: "objs ?t key = Some x" using assms(3) untouched [OF assms(1)] by simp
  show ?thesis
  proof (cases "decode_list dec (api env (snd s) ?list)")
    case (Inl e)
    then show ?thesis using t by (simp add: teardown_kind_def Let_def split_beta)
  next
    case (Inr ys)
    then obtain xs where xs: "api env (snd s) ?list = RObjs xs" "list_all2 (\<lambda>x y. dec x = Some y) xs ys"
      by (rule decode_list_Inr)
    have "enc y \<in> set xs" if "y \<in> set ys" for y
      using xs(2) that dec_iff by (fastforce simp: list_all2_conv_all_nth in_set_conv_nth)
    then have same: "enc y = x" if "y \<in> set ys" "key_of (enc y) = key" for y
      using shows_objectD(4) [OF assms(2) xs(1)] that assms(3) by simp
    have "objs (snd (fold (\<lambda>y. teardown_delete env tc (enc y)) ys st)) key = Some x" if "objs (snd st) key = Some x"
      for st :: "bool \<times> event list"
    proof (rule fold_invariant_set [where P = "\<lambda>st. objs (snd st) key = Some x", OF that])
      fix y and st :: "bool \<times> event list"
      assume y: "y \<in> set ys" and st: "objs (snd st) key = Some x"
      have "\<not> touches key x (delete_request (enc y))" if "ownedBy (meta_of (enc y)) tc"
        using same [OF y] that assms(4) by auto
      then show "objs (snd (teardown_delete env tc (enc y) st)) key = Some x"
        using st untouched [OF assms(1) st] by (simp add: teardown_delete_def Let_def split_beta)
    qed
    then show ?thesis using Inr t by (simp add: teardown_kind_def Let_def split_beta)
  qed
qed

end

lemma teardown_host_keeps:
  assumes "changed_by_touch objs key x" and "shows_object (s_env s) objs key x"
    and "objs t key = Some x" and "\<not> ownedBy (meta_of x) tc"
  shows "objs (snd (snd (teardown_host s tc t))) key = Some x"
proof -
  note keep = hk_service.teardown_kind_keeps [OF assms(1,2) _ assms(4)] hk_ingress.teardown_kind_keeps [OF assms(1,2) _ assms(4)]
    hk_gateway.teardown_kind_keeps [OF assms(1,2) _ assms(4)] hk_route.teardown_kind_keeps [OF assms(1,2) _ assms(4)]
  show ?thesis
    using assms(3) keep by (simp add: teardown_host_def teardown_gateways_def Let_def split_beta split: option.split)
qed

lemma teardown_keeps_others:
  assumes "changed_by_touch objs (k, ns, n) x" and "shows_object (s_env s) objs (k, ns, n) x"
    and "k \<notin> {KPVC, KTenantCluster}" and "objs tr (k, ns, n) = Some x" and "\<not> ownedBy (meta_of x) tc"
  shows "objs (snd (snd (reconcileDelete s tc r tr))) (k, ns, n) = Some x"
proof -
  have storage: "objs t1 (k, ns, n) = Some x" if "storageTeardown (s_env s) (r_hot r) tc tr = (st, t1)" for st t1
    using storageTeardown_keeps [OF assms(1) _ assms(4), of "s_env s" "r_hot r" tc] that assms(3) by simp
  have host: "objs t2 (k, ns, n) = Some x"
    if "storageTeardown (s_env s) (r_hot r) tc tr = (st, t1)" "teardown_host s tc t1 = (e, failed, t2)" for st t1 e failed t2
    using teardown_host_keeps [OF assms(1,2) storage [OF that(1)] assms(5)] that(2) by simp
  show ?thesis
  proof (cases rule: reconcileDelete_cases [of s tc r tr])
    case (finished t1 t2)
    have "objs (snd (snd (release_tenant s tc r t2))) (k, ns, n) = Some x"
      by (rule kept_by_ext [OF assms(1) host [OF finished(1,2)] release_tenant_ext])
        (rule spares_touches [OF release_spares], assumption, use assms(3) in simp)
    then show ?thesis using finished(3) by simp
  qed (use assms(4) storage host in simp_all)
qed

section \<open>A whole reconciliation\<close>

text \<open>Whoever is reconciled is the tenant that was asked for.\<close>

lemma read_tenant:
  assumes "shows_object (s_env s) objs key x"
    and "api (s_env s) t (HostGet KTenantCluster ns name) = RObj (OTenantCluster tc)"
  shows "tc_namespace tc = ns" and "tc_name tc = name"
  using shows_objectD(1) [OF assms] by (simp_all add: key_of_def)

lemma pinned_tenant:
  assumes "shows_object (s_env s) objs key x" and "tc_namespace tc = ns" "tc_name tc = name"
    and "decode_write to_tenant_cluster (pin s tc) (api (s_env s) t (HostUpdate (OTenantCluster (pin s tc)))) = Inr tc'"
  shows "tc_namespace tc' = ns" and "tc_name tc' = name"
proof -
  have p: "tc_namespace (pin s tc) = ns" "tc_name (pin s tc) = name" using assms(2,3) by (simp_all add: pin_def)
  let ?resp = "api (s_env s) t (HostUpdate (OTenantCluster (pin s tc)))"
  have "tc_namespace tc' = ns \<and> tc_name tc' = name"
  proof (cases "tc' = pin s tc")
    case False
    then obtain y where y: "?resp = RObj y" "to_tenant_cluster y = Some tc'"
      using assms(4) by (cases ?resp) (auto split: option.splits)
    from shows_objectD(2) [OF assms(1) y(1)] y(2) show ?thesis
      using p by (cases y) (auto simp: key_of_def)
  qed (use p in simp)
  then show "tc_namespace tc' = ns" "tc_name tc' = name" by simp_all
qed

lemma disconnected_keeps:
  assumes "changed_by_touch objs (k, ns, n) x" and "k \<noteq> KTenantCluster" and "objs t (k, ns, n) = Some x"
  shows "objs (snd (disconnected s r tc cause t)) (k, ns, n) = Some x"
proof -
  have s: "\<not> touches (k, ns, n) x (HostStatusUpdate (OTenantCluster tc'))" for tc' using assms(2) by (simp add: key_of_def)
  note keep = untouched [OF assms(1)]
  obtain tc' resp where "snd (disconnected s r tc cause t) = (HostStatusUpdate (OTenantCluster tc'), resp) # t \<or>
      (\<exists>a. snd (disconnected s r tc cause t) = (HostStatusUpdate (OTenantCluster tc'), resp) # (Now, a) # t)"
    using disconnected_trace by blast
  then show ?thesis using keep [OF assms(3) s] keep [OF keep [OF assms(3)] s] by auto
qed

lemma sync_tenant_keeps_others:
  assumes "changed_by_touch objs (k, ns, n) x" and "shows_object (s_env s) objs (k, ns, n) x"
    and "k \<notin> {KPVC, KTenantCluster}" and "objs t (k, ns, n) = Some x" and "\<not> ownedBy (meta_of x) tc"
  shows "objs (snd (snd (sync_tenant s tc r t))) (k, ns, n) = Some x"
proof -
  let ?there = "\<lambda>t. objs t (k, ns, n) = Some x"
  have k: "k \<noteq> KPVC" "k \<noteq> KTenantCluster" using assms(3) by simp_all
  note down = disconnected_keeps [OF assms(1) k(2)]
  have read: "?there ((q, a) # t)" if "?there t" "q \<in> {secret_request tc, HostList KServiceCIDR [] [], Now}" for q a t
    using that untouched [OF assms(1) that(1)] by (auto simp: secret_request_def)
  have status: "?there ((HostStatusUpdate (OTenantCluster tc'), a) # t)" if "?there t" for tc' a t
    using untouched [OF assms(1) that] k(2) by (simp add: key_of_def)
  have "?there (before_pass s tc t)"
    using assms(4) read by (simp add: before_pass_def hostAddressFamilies_trace)
  from pass_keeps_others [OF assms(1) shows_through [OF assms(2)] k(1) this assms(5)] have pass:
    "?there (p_trace (snd (run (through s g) (newPass tc gw fams hot images (before_pass s tc t)))))" for g gw fams hot images .
  show ?thesis
  proof (cases rule: sync_tenant_cases [of s tc r t])
    case (unreachable cause)
    then show ?thesis by (simp add: down guestClientFor_trace read assms(4))
  next
    case (failed g gw fams hot images cause)
    then show ?thesis by (simp add: Let_def down pass)
  next
    case (synced g gw fams hot images now tc' resp res)
    then show ?thesis by (simp add: status read pass)
  qed
qed

lemma Reconcile_keeps_others:
  assumes "changed_by_touch objs (k, ns, n) x" and "shows_object (s_env s) objs (k, ns, n) x"
    and "k \<notin> {KPVC, KTenantCluster}" and "objs t (k, ns, n) = Some x"
    and "\<And>tc. tc_namespace tc = ns' \<Longrightarrow> tc_name tc = name \<Longrightarrow> \<not> ownedBy (meta_of x) tc"
  shows "objs (snd (snd (Reconcile s ns' name r t))) (k, ns, n) = Some x"
proof -
  let ?there = "\<lambda>t. objs t (k, ns, n) = Some x"
  have read: "?there ((HostGet KTenantCluster ns' name, a) # t)" for a
    using untouched [OF assms(1,4)] by simp
  have upd: "?there ((HostUpdate (OTenantCluster tc), a) # t)" if "?there t" for a tc t
    using untouched [OF assms(1) that] assms(3) by (auto simp: key_of_def)
  note sync = sync_tenant_keeps_others [OF assms(1-3)]
  show ?thesis
  proof (cases rule: Reconcile_cases [where s = s and ns = ns' and name = name and r = r and tr = t])
    case (deleted tc)
    from teardown_keeps_others [OF assms(1-3) read assms(5) [OF read_tenant [OF assms(2) deleted(1)]]] show ?thesis
      by (simp add: deleted(3))
  next
    case (pinned tc)
    then show ?thesis using sync [OF read assms(5) [OF read_tenant [OF assms(2) pinned(1)]]] by simp
  next
    case (pinning tc resp tc')
    note tc' = pinned_tenant [OF assms(2) read_tenant [OF assms(2) pinning(1)] pinning(3) [unfolded pinning(5)]]
    show ?thesis using sync [OF upd [OF read] assms(5) [OF tc']] by (simp add: pinning(4))
  qed (simp_all add: read upd)
qed

section \<open>Turns of the controller\<close>

text \<open>
  A tenant is the namespace and the name of a TenantCluster; its reconciliations have their
  surroundings.  Between them there may be any request by anybody that satisfies \<open>aside\<close>, with any
  answer.
\<close>

type_synonym tenants = "(surroundings \<times> string \<times> string) set"

inductive turns :: "tenants \<Rightarrow> (request \<Rightarrow> bool) \<Rightarrow> event list \<Rightarrow> event list \<Rightarrow> bool" for T aside tr where
  turns_none: "turns T aside tr tr"
| turns_reconcile: "turns T aside tr t \<Longrightarrow> (s, ns, name) \<in> T \<Longrightarrow>
    turns T aside tr (snd (snd (Reconcile s ns name r t)))"
| turns_aside: "turns T aside tr t \<Longrightarrow> aside q \<Longrightarrow> turns T aside tr ((q, resp) # t)"

text \<open>
  Claim C4. Tenants of one host do not interfere.  Take an object of the host, of any kind but
  PVC and TenantCluster, that none of the given tenants owns: another tenant's or nobody's, in
  their namespaces or not, under a name they want or not.  However the reconciliations of any number of
  tenants follow one another (whole ones, from reading the TenantCluster to its status, with guests that
  can be reached or not, passes and teardowns with and without errors, whatever else the servers
  answer), and whatever others do in between short of writing or deleting that object: it is after all
  of it exactly what it was.  Assumed of the host is that an object is only changed by an update of it
  or of its status or by a delete with its UID; that a read or an update answers with an object of the
  name asked for; and that reads and lists, if they are answered with an object under that key, show
  it as it is at that time, not as it was before.
\<close>

theorem tenants_do_not_interfere:
  assumes "turns T (\<lambda>q. \<not> touches (k, ns, n) x q) tr t" and "changed_by_touch objs (k, ns, n) x"
    and "\<And>s a b. (s, a, b) \<in> T \<Longrightarrow> shows_object (s_env s) objs (k, ns, n) x"
    and "k \<notin> {KPVC, KTenantCluster}" and "objs tr (k, ns, n) = Some x"
    and "\<And>s tc. (s, tc_namespace tc, tc_name tc) \<in> T \<Longrightarrow> \<not> ownedBy (meta_of x) tc"
  shows "objs t (k, ns, n) = Some x"
  using assms(1)
proof (induction rule: turns.induct)
  case (turns_reconcile t s ns' name r)
  show ?case
    using assms(6) turns_reconcile.hyps(2)
    by (intro Reconcile_keeps_others [OF assms(2) assms(3) [OF turns_reconcile.hyps(2)] assms(4) turns_reconcile.IH]) blast
next
  case (turns_aside t q resp)
  then show ?case using untouched [OF assms(2)] by blast
qed (rule assms(5))

section \<open>Two tenants and a Service of nobody\<close>

text \<open>A host with a TenantCluster \<open>t\<close> and a deleted TenantCluster \<open>u\<close>, who have guests like \<open>ex_web\<close>.\<close>

definition ex_neighbour :: tenant_cluster where
  "ex_neighbour = ex_deleted\<lparr>tc_meta := (tc_meta ex_deleted)\<lparr>om_name := ''u''\<rparr>\<rparr>"

definition ex_objects :: "obj list" where
  "ex_objects = [OTenantCluster ex_tc, OTenantCluster ex_neighbour, ex_old, ex_foreign]"

definition ex_company :: surroundings where
  "ex_company = ex_surroundings\<lparr>s_env := ex_env (keeping_host ex_admit [] ex_objects),
     s_guest := \<lambda>_. keeping_host ex_admit [OService ex_web] ex_objects\<rparr>"

definition ex_tenants :: tenants where
  "ex_tenants = {(ex_company, ''tenants'', ''t''), (ex_company, ''tenants'', ''u'')}"

lemma keeping_host_shows: "shows_object (ex_env (keeping_host ex_admit guest xs)) (kept_objects ex_admit xs) key x"
  using kept_objects_known [where adm = ex_admit, OF ex_admit_key]
  by (auto simp: shows_object_def keeping_host_def split: option.splits)

lemma kept_objects_touched: "changed_by_touch (kept_objects ex_admit xs) key x"
  by (auto simp: changed_by_touch_def touches_def kept_objects_def written_def split: request.splits option.splits)

lemma ex_company_start:
  "kept_objects ex_admit ex_objects [] (KService, ''host-t'', ''other'') = Some ex_foreign"
  by (simp add: kept_objects_def key_of_def ex_objects_def ex_neighbour_def ex_deleted_def ex_old_def ex_foreign_def
      ex_held_def ex_service_def ex_meta_def ex_tc_def no_meta_def)

text \<open>
  One tenant, the other, a create of somebody else under the same name, and the first again: the
  Service of nobody stays.
\<close>

lemma tenants_do_not_interfere_witness:
  "let turn = \<lambda>name t. snd (snd (Reconcile ex_company ''tenants'' name ex_reconciler t));
       t = turn ''t'' ((HostCreate ex_foreign, ROk) # turn ''u'' (turn ''t'' []))
   in kept_objects ex_admit ex_objects t (KService, ''host-t'', ''other'') = Some ex_foreign"
proof -
  have foreign: "\<not> ownedBy (meta_of ex_foreign) tc" if "(s, tc_namespace tc, tc_name tc) \<in> ex_tenants" for s tc
    using that by (auto simp: ex_tenants_def ownedBy_def at_def ex_foreign_def ex_held_def ex_service_def)
  have shown: "shows_object (s_env s) (kept_objects ex_admit ex_objects) key ex_foreign" if "(s, a, b) \<in> ex_tenants" for s a b key
    using that by (auto simp: ex_tenants_def ex_company_def ex_surroundings_def keeping_host_shows)
  show ?thesis
    unfolding Let_def
    by (rule tenants_do_not_interfere [where T = ex_tenants, OF _ kept_objects_touched shown _ ex_company_start foreign])
      (auto simp: ex_tenants_def intro!: turns.intros)
qed

end
