(* ===== verification/Refusals.thy ===== *)
theory Refusals
  imports Pass
begin

text \<open>
  Where a refusal may be recorded: only against a guest object in scope of the pass.  The status of
  a TenantCluster counts the refusals of a pass, and write-back looks at the objects in scope, so
  that this is what makes the two agree.
\<close>

section \<open>The part of a pass refusals depend on\<close>

definition scope ::
  "pass \<Rightarrow> (guest_ref \<Rightarrow> string list) \<times> (string \<times> guest_ref) list \<times> (guest_ref \<times> string) list \<times>
     (guest_ref \<times> string) list \<times> guest_ref list" where
  "scope p = (p_refusals p, p_hostOwner p, p_lbPairs p, p_gatewayPairs p, p_guestObjs p)"

text \<open>Every reference a refusal is or will be recorded against is in scope.\<close>

definition scoped :: "pass \<Rightarrow> bool" where
  "scoped p \<longleftrightarrow> {ref. p_refusals p ref \<noteq> []} \<union> snd ` set (p_hostOwner p) \<union>
     fst ` set (p_lbPairs p) \<union> fst ` set (p_gatewayPairs p) \<subseteq> set (p_guestObjs p)"

lemma scoped_iff:
  "scoped p \<longleftrightarrow> {ref. p_refusals p ref \<noteq> []} \<subseteq> set (p_guestObjs p) \<and> snd ` set (p_hostOwner p) \<subseteq> set (p_guestObjs p) \<and>
     fst ` set (p_lbPairs p) \<subseteq> set (p_guestObjs p) \<and> fst ` set (p_gatewayPairs p) \<subseteq> set (p_guestObjs p)"
  by (simp add: scoped_def)

lemma scoped_scope: "scope q = scope p \<Longrightarrow> scoped q = scoped p"
  by (simp add: scope_def scoped_def)

lemma scope_basic [simp]:
  "scope (snd (call env r p)) = scope p" "scope (problem m p) = scope p"
  "scope (wantFinalizer ref p) = scope p" "scope (unwantFinalizer ref p) = scope p"
  "scope (store ref x p) = scope p" "scope (noteFinalizerHolder om ref p) = scope p"
  "scope (observe x p) = scope p" "scope (pruneProblem e p) = scope p" "scope (set_loadBalancers n p) = scope p"
  "scope (storageProblem m e p) = scope p" "scope (upd_storage f p) = scope p"
  "scope (class_problem m cn e p) = scope p" "scope (snd (mayTouch y p)) = scope p"
  by (simp_all add: scope_def problem_def wantFinalizer_def unwantFinalizer_def store_def noteFinalizerHolder_def
      observe_def pruneProblem_def set_loadBalancers_def storageProblem_def upd_storage_def class_problem_def
      mayTouch_def Let_def)

lemma scope_fields [simp]:
  "scope (p\<lparr>p_services := a1\<rparr>) = scope p" "scope (p\<lparr>p_ingresses := a2\<rparr>) = scope p"
  "scope (p\<lparr>p_gateways := a3\<rparr>) = scope p" "scope (p\<lparr>p_routes := a4\<rparr>) = scope p"
  "scope (p\<lparr>p_storage := a5\<rparr>) = scope p" "scope (p\<lparr>p_backendNeeded := a6\<rparr>) = scope p"
  "scope (p\<lparr>p_pruneFailed := a7\<rparr>) = scope p" "scope (p\<lparr>p_ingressPairs := a8\<rparr>) = scope p"
  "scope (p\<lparr>p_guestSvcs := a9\<rparr>) = scope p" "scope (p\<lparr>p_problems := a10\<rparr>) = scope p"
  "scope (p\<lparr>p_trace := a11\<rparr>) = scope p"
  by (simp_all add: scope_def)

lemma scope_put [simp]:
  "scope (put_service n x p) = scope p" "scope (put_ingress n y p) = scope p"
  "scope (put_gateway n z p) = scope p" "scope (put_route n w p) = scope p"
  by (simp_all add: put_service_def put_ingress_def put_gateway_def put_route_def)

lemmas scoped_simps [simp] = scope_basic [THEN scoped_scope] scope_fields [THEN scoped_scope] scope_put [THEN scoped_scope]

lemma scoped_refuse: "scoped p \<Longrightarrow> ref \<in> set (p_guestObjs p) \<Longrightarrow> scoped (refuse ref m p)"
  by (auto simp: scoped_def refuse_def split: if_splits)

lemma scoped_refusals:
  "scoped p \<Longrightarrow> ref \<in> set (p_guestObjs p) \<Longrightarrow> scoped (fold (refuse ref) ms p)"
proof (induction ms arbitrary: p)
  case (Cons m ms)
  then show ?case using scoped_refuse [of p ref m] by (simp add: refuse_def)
qed simp

lemma scoped_inScope: "scoped p \<Longrightarrow> scoped (inScope ref b p) \<and> ref \<in> set (p_guestObjs (inScope ref b p))"
  by (auto simp: scoped_def inScope_def)

section \<open>Gathering\<close>

lemma guestObjs_refusals [simp]: "p_guestObjs (fold (refuse ref) ms p) = p_guestObjs p"
  by (rule fold_frame) (simp add: refuse_def)

lemma scoped_more_objects: "scoped p \<Longrightarrow> scoped (p\<lparr>p_services := m, p_guestObjs := add_key ref (p_guestObjs p)\<rparr>)"
  unfolding scoped_iff by (simp add: subset_insertI2)

lemma scoped_owner:
  "scoped p \<Longrightarrow> ref \<in> set (p_guestObjs p) \<Longrightarrow> m = p_hostOwner p \<Longrightarrow> scoped (p\<lparr>p_hostOwner := put h ref m\<rparr>)"
  using put_values [of h ref m] unfolding scoped_iff by (simp add: subset_trans)

lemma scoped_pair:
  "scoped p \<Longrightarrow> ref \<in> set (p_guestObjs p) \<Longrightarrow> m = p_lbPairs p \<Longrightarrow> scoped (p\<lparr>p_lbPairs := m @ [(ref, h)]\<rparr>)"
  "scoped p \<Longrightarrow> ref \<in> set (p_guestObjs p) \<Longrightarrow> m = p_gatewayPairs p \<Longrightarrow> scoped (p\<lparr>p_gatewayPairs := m @ [(ref, h)]\<rparr>)"
  unfolding scoped_iff by simp_all

lemma scoped_backends: "scoped p \<Longrightarrow> scoped (addBackends ns ms p)"
  unfolding addBackends_def
proof (rule fold_invariant_set)
  fix n q assume q: "scoped q"
  have "scoped ((q\<lparr>p_backendNeeded := b\<rparr>)\<lparr>p_services := m, p_guestObjs := add_key ref (p_guestObjs q)\<rparr>)" for b m ref
    using scoped_more_objects [of "q\<lparr>p_backendNeeded := b\<rparr>"] q by simp
  then show "scoped (add_backend ns n q)"
    using q by (simp add: add_backend_def Let_def split: option.split sum.split)
qed

lemma scoped_desire:
  assumes "scoped p" and "ref \<in> set (p_guestObjs p)"
  shows "scoped (desire_ingress ref ing p)" "scoped (desire_gateway ref gw p)" "scoped (desire_route ref rt p)"
proof -
  have r: "scoped (fold (refuse ref) ms p)" for ms by (rule scoped_refusals [OF assms])
  show "scoped (desire_ingress ref ing p)" "scoped (desire_route ref rt p)"
    by (simp_all add: desire_ingress_def desire_route_def Let_def r scoped_backends split: option.split)
  show "scoped (desire_gateway ref gw p)"
    using assms(2) by (simp add: desire_gateway_def Let_def split_beta r scoped_owner scoped_pair split: option.split)
qed

lemma scoped_gather_object:
  assumes "scoped p"
  shows "scoped (gather_ingress ing p)" "scoped (gather_gateway gw p)" "scoped (gather_route rt p)"
proof -
  have "scoped (observe x p)" for x using assms by simp
  then show "scoped (gather_ingress ing p)" "scoped (gather_gateway gw p)" "scoped (gather_route rt p)"
    using scoped_inScope by (simp_all add: gather_ingress_def gather_gateway_def gather_route_def Let_def scoped_desire)
qed

lemma scoped_gather_service: "scoped p \<Longrightarrow> scoped (gather_service ref p)"
proof -
  assume p: "scoped p"
  have n: "scoped (noteFinalizerHolder m ref p)" for m using p by simp
  show ?thesis
    using p n scoped_inScope [OF n] by (simp add: gather_service_def Let_def scoped_owner scoped_pair scoped_refuse split: option.split sum.split)
qed

lemma scoped_fold: "(\<And>x q. scoped q \<Longrightarrow> scoped (f x q)) \<Longrightarrow> scoped p \<Longrightarrow> scoped (fold f xs p)"
  by (rule fold_invariant_set)

lemma scope_fold: "(\<And>x q. scope (f x q) = scope q) \<Longrightarrow> scope (fold f xs p) = scope p"
  by (rule fold_frame)

lemma scoped_gather_guest: "scoped p \<Longrightarrow> scoped (snd (gather_guest env p))"
proof -
  assume p: "scoped p"
  have "scope (fold list_service xs q) = scope q" for xs q
    by (rule scope_fold) (simp add: list_service_def Let_def)
  then have ls: "scoped (fold list_service xs q) = scoped q" for xs q by (rule scoped_scope)
  have 1: "scoped (snd (gatherServices env q))" if "scoped q" for q
    using that scoped_fold [of gather_service, OF scoped_gather_service] ls
    by (simp add: gatherServices_def Let_def split_beta split: sum.split)
  have 2: "scoped (snd (gatherIngresses env q))" if "scoped q" for q
    using that scoped_fold [of gather_ingress, OF scoped_gather_object(1)]
    by (simp add: gatherIngresses_def Let_def split_beta split: sum.split)
  have 3: "scoped (snd (gatherGateways env q))" if "scoped q" for q
    using that scoped_fold [of gather_gateway, OF scoped_gather_object(2)]
      scoped_fold [of gather_route, OF scoped_gather_object(3)]
    by (simp add: gatherGateways_def Let_def split_beta split: sum.split)
  show ?thesis
    using p 1 2 3 by (simp add: gather_guest_def Let_def split_beta split: option.split)
qed

lemma scoped_gather_pvc: "scoped p \<Longrightarrow> scoped (gather_pvc env x p)"
proof -
  assume p: "scoped p"
  show ?thesis
    using p scoped_inScope by (simp add: gather_pvc_def Let_def scoped_refuse split: option.split sum.split)
qed

lemma scoped_gatherStorage: "scoped p \<Longrightarrow> scoped (snd (gatherStorage env p))"
proof -
  assume p: "scoped p"
  have "scoped (gather_storage_host env a b c d q)" if "scoped q" for a b c d q
    using that scoped_fold [of "gather_pvc env", OF scoped_gather_pvc]
    by (simp add: gather_storage_host_def Let_def split_beta split: sum.split)
  then show ?thesis using p by (simp add: gatherStorage_def Let_def split_beta split: sum.split)
qed

section \<open>The limit, and the guest GatewayClass\<close>

lemma scoped_withdraw:
  "scoped p \<Longrightarrow> scoped (withdrawClaim c p) \<and> p_guestObjs (withdrawClaim c p) = p_guestObjs p"
proof -
  assume p: "scoped p"
  have "scoped (p\<lparr>p_lbPairs := remove_pair h (p_lbPairs p)\<rparr>)"
    "scoped (p\<lparr>p_gatewayPairs := remove_pair h (p_gatewayPairs p)\<rparr>)" for h
    using p set_remove_pair [of h "p_lbPairs p"] set_remove_pair [of h "p_gatewayPairs p"]
    by (force simp: scoped_def)+
  then have "scoped (withdrawClaim c p)"
    using p by (simp add: withdrawClaim_def Let_def split: option.split)
  moreover have "p_guestObjs (withdrawClaim c p) = p_guestObjs p"
    by (simp add: withdrawClaim_def Let_def unwantFinalizer_def split: option.split)
  ultimately show ?thesis ..
qed

lemma scoped_refuse_claim:
  "scoped p \<Longrightarrow> ac_ref c \<in> set (p_guestObjs p) \<Longrightarrow>
     scoped (refuse_claim m c p) \<and> p_guestObjs (refuse_claim m c p) = p_guestObjs p"
  using scoped_withdraw [of "refuse (ac_ref c) m p" c] scoped_refuse [of p "ac_ref c" m]
  by (simp add: refuse_claim_def refuse_def)

lemma scoped_refuse_claims:
  "scoped p \<Longrightarrow> ac_ref ` set cs \<subseteq> set (p_guestObjs p) \<Longrightarrow> scoped (fold (refuse_claim m) cs p)"
proof (induction cs arbitrary: p)
  case (Cons c cs)
  then show ?case using scoped_refuse_claim [of p c m] by simp
qed simp

lemma scope_mark_existing: "scope (snd (mark_existing env cs p)) = scope p"
proof (induction cs arbitrary: p)
  case (Cons c cs)
  have "scope (snd (hostObjectExists env c p)) = scope p"
    by (simp add: hostObjectExists_def Let_def split_beta split: sum.split)
  then show ?case using Cons.IH by (simp add: Let_def split_beta)
qed simp

lemma scoped_limit: "scoped p \<Longrightarrow> scoped (applyAddressLimit env p)"
proof -
  assume p: "scoped p"
  define cs where "cs = claims_in_order (map_order env (p_trace p) ''sort.Slice'') p"
  obtain ms q where m: "mark_existing env cs p = (ms, q)" by (cases "mark_existing env cs p")
  have q: "scope q = scope p" using scope_mark_existing [of env cs p] m by simp
  have "map ac_ref ms = map ac_ref cs" using mark_existing_frame [of env cs p] m by simp
  then have "ac_ref ` set ms = ac_ref ` set cs" by (metis image_set)
  moreover have "ac_ref (claim_of p x) = fst x" for x by (simp add: claim_of_def Let_def)
  then have "ac_ref ` set cs = fst ` set (p_lbPairs p) \<union> fst ` set (p_gatewayPairs p)"
    by (simp add: cs_def claims_in_order_def image_Un image_image)
  ultimately have ms: "ac_ref ` set ms \<subseteq> set (p_guestObjs p)" using p by (auto simp: scoped_def)
  have set_lb: "p_guestObjs (set_loadBalancers n r) = p_guestObjs r" for n r by (simp add: set_loadBalancers_def)
  have "scoped q" using p q scoped_scope by blast
  moreover have "p_guestObjs q = p_guestObjs p" using q by (simp add: scope_def)
  moreover have "set (snd (admit limit 0 ms)) \<subseteq> set ms" for limit using admit_facts [of limit 0 ms] by auto
  ultimately have "scoped (fold (refuse_claim msg) (snd (admit limit 0 ms)) (set_loadBalancers n q))" for msg limit n
    using ms set_lb by (intro scoped_refuse_claims) (simp, fastforce)
  then show ?thesis
    using p set_lb m by (simp add: applyAddressLimit_def Let_def split_beta cs_def [symmetric])
qed

lemma scope_class: "scope (reconcileGuestGatewayClass env p) = scope p"
proof -
  have a: "scope (accept_class env w c q) = scope q" for w c q
    by (simp add: accept_class_def Let_def split_beta split: option.split)
  have r: "scope (fold (remove_class env w) xs q) = scope q" for w xs q
    by (rule scope_fold) (simp add: remove_class_def Let_def split_beta split: option.split)
  have "scope (replace_class env w c d q) = scope q" "scope (update_class env w c d q) = scope q" for w c d q
    by (simp_all add: replace_class_def update_class_def Let_def split_beta a split: option.split sum.split)
  then show ?thesis
    by (simp add: reconcileGuestGatewayClass_def assert_class_def Let_def split_beta a r split: sum.split)
qed

section \<open>Applying, pruning, writing back\<close>

lemma scoped_applyProblem: "scoped p \<Longrightarrow> scoped (applyProblem k n e p)"
proof -
  assume p: "scoped p"
  have "ref \<in> set (p_guestObjs p)" if "map_of (p_hostOwner p) n = Some ref" for ref
    using p map_of_SomeD [OF that] by (force simp: scoped_iff)
  then show ?thesis
    using p by (auto simp: applyProblem_def Let_def problem_def [of _ p] intro!: scoped_refuse split: option.split)
qed

lemma scoped_step:
  assumes "scoped p" and "\<And>x q. scoped q \<Longrightarrow> scoped (created x q)" "\<And>q. scoped q \<Longrightarrow> scoped (foreign q)"
    and "\<And>x q. scoped q \<Longrightarrow> scoped (updated x q)"
  shows "scoped (apply_step env k dec enc merge created foreign updated want p)"
  using assms by (simp add: apply_step_def Let_def split_beta scoped_applyProblem split: sum.split)

lemma scoped_apply_each: "(\<And>x q. scoped q \<Longrightarrow> scoped (f x q)) \<Longrightarrow> scoped p \<Longrightarrow> scoped (apply_each field f p)"
  unfolding apply_each_def by (rule scoped_fold) (auto split: option.split)

lemma scoped_applyAll: "scoped p \<Longrightarrow> scoped (applyAll env p)"
  unfolding applyAll_def
  by (intro scoped_apply_each) (simp_all add: applyService_def applyIngress_def applyGateway_def applyRoute_def
      Let_def scoped_step)

lemma scope_guest_call [simp]: "scope (snd (guest_call_or env r t w p)) = scope p"
  by (simp add: guest_call_or_def Let_def split_beta split: option.split)

lemma scope_attachment [simp]:
  "scope (set_attachment i va p) = scope p" "scope (snd (update_attachment env i va w p)) = scope p"
  "scope (release_attachment env i va w p) = scope p" "scope (add_vaStatus s p) = scope p"
  by (simp_all add: set_attachment_def update_attachment_def release_attachment_def add_vaStatus_def Let_def split_beta
      split: sum.split)

lemma scope_reconcileAttachment: "scope (reconcileAttachment env i p) = scope p"
  by (simp add: reconcileAttachment_def detach_def attach_def Let_def split_beta split: option.split)

lemma scope_provisionPVC: "scope (provisionPVC env ref p) = scope p"
  by (simp add: provisionPVC_def provision_host_def provision_pv_def Let_def split_beta split: option.split sum.split)

lemma scope_plugin: "scope (applyGuestPlugin env p) = scope p"
  by (simp add: applyGuestPlugin_def apply_driver_def apply_daemon_set_def Let_def split_beta split: option.split sum.split)

lemma scope_classes: "scope (applyGuestStorageClasses env p) = scope p"
proof -
  have "scope (fold (apply_class env ex) xs q) = scope q" for ex xs q
    by (rule scope_fold) (simp add: apply_class_def Let_def split_beta split: option.split)
  then show ?thesis by (simp add: applyGuestStorageClasses_def Let_def split: option.split)
qed

lemma scope_applyStorage: "scope (applyStorage env p) = scope p"
proof -
  have "scope (fold (provisionPVC env) xs q) = scope q" "scope (fold (reconcileAttachment env) ys q) = scope q" for xs ys q
    by (rule scope_fold, rule scope_provisionPVC, rule scope_fold, rule scope_reconcileAttachment)
  then show ?thesis by (simp add: applyStorage_def Let_def scope_plugin scope_classes split: option.split)
qed

lemma scope_delete [simp]: "scope (deleteOwned env x p) = scope p"
  by (simp add: deleteOwned_def Let_def split_beta split: option.split)

lemma scope_prune_kind [simp]: "scope (prune_kind env k dec enc w b p) = scope p"
proof -
  have "scope (prune_items env enc w xs q) = scope q" for xs q
    unfolding prune_items_def by (rule scope_fold) simp
  then show ?thesis by (simp add: prune_kind_def Let_def split_beta split: sum.split)
qed

lemma scope_pruneAll: "scope (pruneAll env p) = scope p"
  by (simp add: pruneAll_def Let_def)

lemma scope_unplugged [simp]: "scope (snd (volumeUnplugged env n p)) = scope p"
proof -
  have "scope (fold (unplug env v) xs q) = scope q" for v xs q
    by (rule scope_fold) (simp add: unplug_def Let_def split_beta split: option.split)
  then show ?thesis by (simp add: volumeUnplugged_def Let_def split: option.split)
qed

lemma scope_pruneStorage: "scope (pruneStorage env p) = scope p"
proof -
  have pv: "scope (teardown_pv env ref n st q) = scope q" for ref n st q
    by (simp add: teardown_pv_def Let_def split_beta split: option.split)
  have "scope (teardownGuestPVC env ref q) = scope q" for ref q
    by (simp add: teardownGuestPVC_def Let_def split_beta pv split: option.split)
  then have 1: "scope (fold (teardownGuestPVC env) xs q) = scope q" for xs q by (rule scope_fold)
  have "scope (prune_orphan_pvc env x q) = scope q" for x q
    by (simp add: prune_orphan_pvc_def Let_def split_beta split: option.split)
  then have 2: "scope (fold (prune_orphan_pvc env) xs q) = scope q" for xs q by (rule scope_fold)
  have 3: "scope (fold (prune_class env st) xs q) = scope q" for st xs q
    by (rule scope_fold) (simp add: prune_class_def)
  show ?thesis by (simp add: pruneStorage_def Let_def split_beta 1 2 3 split: option.split)
qed

lemma scope_guest_write [simp]:
  "scope (snd (guest_write env req ref x p)) = scope p" "scope (guest_write_or env req ref x w p) = scope p"
  "scope (guestEvent env x k t r m p) = scope p"
proof -
  show "scope (snd (guest_write env req ref x p)) = scope p"
    by (simp add: guest_write_def Let_def split_beta split: sum.split)
  then show "scope (guest_write_or env req ref x w p) = scope p"
    by (simp add: guest_write_or_def split_beta split: prod.split option.split)
  show "scope (guestEvent env x k t r m p) = scope p"
    by (simp add: guestEvent_def Let_def split_beta)
qed

lemma scope_finalizers: "scope (ensureGuestFinalizers env p) = scope p" "scope (releaseGuestFinalizers env p) = scope p"
proof -
  have "scope (ensure_finalizer env ref q) = scope q" "scope (release_finalizer env ref q) = scope q" for ref q
    by (simp_all add: ensure_finalizer_def release_finalizer_def Let_def split_beta split: option.split)
  then show "scope (ensureGuestFinalizers env p) = scope p" "scope (releaseGuestFinalizers env p) = scope p"
    by (simp_all add: ensureGuestFinalizers_def releaseGuestFinalizers_def scope_fold)
qed

lemma scope_writeBack: "scope (writeBack env p) = scope p"
proof -
  have s: "scope (writeBackService env x q) = scope q" "scope (writeBackIngress env x q) = scope q"
    "scope (writeBackGateway env x q) = scope q" for x q
    by (simp_all add: writeBackService_def writeBackIngress_def writeBackGateway_def Let_def split_beta
        split: option.split)
  have w: "scope (write_service_refusal env ref svc ms q) = scope q" "scope (write_annotation env ref x ms q) = scope q"
    for ref svc ms x q
    using scope_guest_write(1) [of env GuestStatusUpdate] scope_guest_write(1) [of env GuestUpdate]
    by (simp_all add: write_service_refusal_def write_annotation_def Let_def split_beta split: option.split)
  have "scope (write_refusal env ref q) = scope q" for ref q
    by (simp add: write_refusal_def w split: option.split)
  then show ?thesis
    by (simp add: writeBack_def writeRefusals_def writeBackServices_def writeBackIngresses_def
        writeBackGateways_def s scope_fold)
qed

lemma scope_writeBackStorage: "scope (writeBackStorage env p) = scope p"
proof -
  have "scope (write_vaStatus env w q) = scope q" for w q
    by (simp add: write_vaStatus_def Let_def split_beta split: option.split sum.split)
  then show ?thesis by (simp add: writeBackStorage_def scope_fold split: option.split)
qed

lemma scoped_ensureHostNamespace: "scoped p \<Longrightarrow> scoped (snd (ensureHostNamespace env p))"
  by (simp add: ensureHostNamespace_def Let_def split_beta split: option.split sum.split)

lemmas scoped_frames [simp] =
  scope_class [THEN scoped_scope] scope_applyStorage [THEN scoped_scope] scope_pruneAll [THEN scoped_scope]
  scope_pruneStorage [THEN scoped_scope] scope_finalizers [THEN scoped_scope] scope_writeBack [THEN scoped_scope]
  scope_writeBackStorage [THEN scoped_scope]

lemma scoped_run: "scoped p \<Longrightarrow> scoped (snd (run env p))"
proof -
  assume p: "scoped p"
  have r: "scoped (snd (read_phase env p))"
    using scoped_gather_guest [OF p, of env] scoped_limit scoped_gatherStorage
    by (simp add: read_phase_def limit_and_class_def Let_def split_beta split: option.split)
  have "scoped (write_phase env q)" if "scoped q" for q
    using that scoped_ensureHostNamespace scoped_applyAll
    by (simp add: write_phase_def prune_phase_def apply_phase_def Let_def split_beta)
  then show ?thesis using r by (simp add: run_def Let_def split_beta split: option.split)
qed

text \<open>Whatever the servers answer, a pass refuses objects in scope only.\<close>

lemma refused_in_scope:
  "p_refusals (snd (run env (newPass tc gw fams hot images tr))) ref \<noteq> [] \<Longrightarrow>
     ref \<in> set (p_guestObjs (snd (run env (newPass tc gw fams hot images tr))))"
proof -
  have "scoped (newPass tc gw fams hot images tr)" by (simp add: scoped_iff newPass_def)
  from scoped_run [OF this, of env] show "p_refusals (snd (run env (newPass tc gw fams hot images tr))) ref \<noteq> [] \<Longrightarrow>
      ref \<in> set (p_guestObjs (snd (run env (newPass tc gw fams hot images tr))))"
    by (auto simp: scoped_iff)
qed

end
