(* ===== verification/SyncStatus.thy ===== *)
theory SyncStatus
  imports ReconcilerInv Refusals
begin

text \<open>
  The count in the Synced condition of a TenantCluster: the refusals counted are all the refusals
  a pass has recorded.
\<close>

lemma count_refusals_all:
  assumes "\<And>ref. p_refusals p ref \<noteq> [] \<Longrightarrow> ref \<in> set (p_guestObjs p)"
  shows "count_refusals p = (\<Sum>ref | p_refusals p ref \<noteq> []. length (p_refusals p ref))"
proof -
  have "count_refusals p = (\<Sum>ref \<in> set (p_guestObjs p). length (p_refusals p ref))"
    unfolding count_refusals_def by (subst sum.distinct_set_conv_list [symmetric]) simp_all
  also have "\<dots> = (\<Sum>ref | p_refusals p ref \<noteq> []. length (p_refusals p ref))"
    by (rule sum.mono_neutral_right) (use assms in auto)
  finally show ?thesis .
qed

lemma count_refusals_zero:
  assumes "\<And>ref. p_refusals p ref \<noteq> [] \<Longrightarrow> ref \<in> set (p_guestObjs p)"
  shows "count_refusals p = 0 \<longleftrightarrow> p_refusals p = (\<lambda>_. [])"
  using assms by (auto simp: count_refusals_def fun_eq_iff)

text \<open>
  So what \<open>count_refusals\<close> adds up over the guest objects of a pass is the sum of Go over its whole
  map of refusals, for no other object is ever refused.
\<close>

lemma refusals_of_run:
  fixes env tc gw fams hot images tr
  defines "p \<equiv> snd (run env (newPass tc gw fams hot images tr))"
  shows "count_refusals p = (\<Sum>ref | p_refusals p ref \<noteq> []. length (p_refusals p ref))"
    and "count_refusals p = 0 \<longleftrightarrow> p_refusals p = (\<lambda>_. [])"
proof -
  show "count_refusals p = (\<Sum>ref | p_refusals p ref \<noteq> []. length (p_refusals p ref))"
    unfolding p_def by (rule count_refusals_all [OF refused_in_scope])
  show "count_refusals p = 0 \<longleftrightarrow> p_refusals p = (\<lambda>_. [])"
    unfolding p_def by (rule count_refusals_zero [OF refused_in_scope])
qed

end
