(* ===== verification/Kubevirt.thy ===== *)
theory Kubevirt
  imports StorageInv
begin

text \<open>
  The hotplug client of internal/kubevirt/hotplug.go: what it sends to KubeVirt, and how it merges
  the VM specs, the queue of volume requests and the VMI statuses into the volume states the
  storage slice of a pass works on.

  The documents KubeVirt lists are JSON trees.  Reading a nested list out of one and its name are
  functions of the third-party package \<open>unstructured\<close>, so they are parameters; so is the server.
  What \<open>json.Marshal\<close> writes is given as a tree, not as text.
\<close>

section \<open>Documents\<close>

datatype json =
    JNull
  | JBool bool
  | JNum int
  | JStr string
  | JArr "json list"
  | JObj "(string \<times> json) list"

text \<open>The assertions \<open>v.(map[string]any)\<close>, \<open>m[k].(map[string]any)\<close> and \<open>m[k].(string)\<close>.\<close>

fun as_map :: "json \<Rightarrow> (string \<times> json) list option" where
  "as_map (JObj m) = Some m"
| "as_map _ = None"

fun as_str :: "json \<Rightarrow> string" where
  "as_str (JStr s) = s"
| "as_str _ = []"

definition map_field :: "(string \<times> json) list \<Rightarrow> string \<Rightarrow> (string \<times> json) list option" where
  "map_field m k = (case map_of m k of None \<Rightarrow> None | Some v \<Rightarrow> as_map v)"

definition str_field :: "(string \<times> json) list \<Rightarrow> string \<Rightarrow> string" where
  "str_field m k = (case map_of m k of None \<Rightarrow> [] | Some v \<Rightarrow> as_str v)"

text \<open>\<open>unstructured.NestedSlice\<close>, an empty slice where it finds none, and \<open>GetName\<close>.\<close>

record unstructured =
  nested_slice :: "json \<Rightarrow> string list \<Rightarrow> json list"
  get_name :: "json \<Rightarrow> string"

section \<open>The server\<close>

datatype kv_request =
    ListVMs string
  | ListVMIs string
  | Put string json

datatype kv_response = KErr api_error | KItems "json list" | KDone

type_synonym kv_server = "kv_request \<Rightarrow> kv_response"

fun kv_items :: "kv_response \<Rightarrow> api_error + json list" where
  "kv_items (KErr e) = Inl e"
| "kv_items (KItems xs) = Inr xs"
| "kv_items KDone = Inl decode_error"

fun kv_error :: "kv_response \<Rightarrow> api_error option" where
  "kv_error (KErr e) = Some e"
| "kv_error _ = None"

text \<open>\<open>fmt.Errorf("...: %w", err)\<close>: another text, still of the same class.\<close>

fun wrap :: "string \<Rightarrow> api_error \<Rightarrow> api_error" where
  "wrap what (NotFound m) = NotFound (what @ '': '' @ m)"
| "wrap what (AlreadyExists m) = AlreadyExists (what @ '': '' @ m)"
| "wrap what (NoMatch m) = NoMatch (what @ '': '' @ m)"
| "wrap what (OtherError m) = OtherError (what @ '': '' @ m)"

section \<open>Plugging and unplugging\<close>

record add_volume_options =
  av_name :: string
  av_diskName :: string
  av_serial :: string
  av_bus :: string
  av_claimName :: string
  av_hotpluggable :: bool

text \<open>\<open>json.Marshal\<close> by the field tags; \<open>serial\<close> is left out when empty.\<close>

definition pvc_source_json :: "add_volume_options \<Rightarrow> json" where
  "pvc_source_json v =
     JObj [(''persistentVolumeClaim'',
            JObj [(''claimName'', JStr (av_claimName v)), (''hotpluggable'', JBool (av_hotpluggable v))])]"

definition disk_json :: "add_volume_options \<Rightarrow> json" where
  "disk_json v =
     JObj ([(''name'', JStr (av_diskName v))] @
           (if av_serial v = [] then [] else [(''serial'', JStr (av_serial v))]) @
           [(''disk'', JObj [(''bus'', JStr (av_bus v))])])"

definition add_volume_json :: "add_volume_options \<Rightarrow> json" where
  "add_volume_json v =
     JObj [(''name'', JStr (av_name v)), (''disk'', disk_json v), (''volumeSource'', pvc_source_json v)]"

definition add_body :: "string \<Rightarrow> string \<Rightarrow> string \<Rightarrow> json" where
  "add_body volume claim serial =
     add_volume_json \<lparr>av_name = volume, av_diskName = volume, av_serial = serial, av_bus = ''scsi'',
       av_claimName = claim, av_hotpluggable = True\<rparr>"

definition remove_body :: "string \<Rightarrow> json" where
  "remove_body volume = JObj [(''name'', JStr volume)]"

definition put_path :: "string \<Rightarrow> string \<Rightarrow> string \<Rightarrow> string" where
  "put_path ns vm verb =
     ''/apis/subresources.kubevirt.io/v1/namespaces/'' @ ns @ ''/virtualmachines/'' @ vm @ ''/'' @ verb"

definition put_verb :: "kv_server \<Rightarrow> string \<Rightarrow> string \<Rightarrow> string \<Rightarrow> json \<Rightarrow> api_error option" where
  "put_verb kv ns vm verb body =
     (case kv_error (kv (Put (put_path ns vm verb) body)) of
        Some e \<Rightarrow> Some (wrap (verb @ '' on VM '' @ ns @ ''/'' @ vm) e)
      | None \<Rightarrow> None)"

definition client_AddVolume ::
  "kv_server \<Rightarrow> string \<Rightarrow> string \<Rightarrow> string \<Rightarrow> string \<Rightarrow> string \<Rightarrow> api_error option" where
  "client_AddVolume kv ns vm volume claim serial =
     put_verb kv ns vm ''addvolume'' (add_body volume claim serial)"

definition client_RemoveVolume :: "kv_server \<Rightarrow> string \<Rightarrow> string \<Rightarrow> string \<Rightarrow> api_error option" where
  "client_RemoveVolume kv ns vm volume = put_verb kv ns vm ''removevolume'' (remove_body volume)"

section \<open>Listing\<close>

definition claimOf :: "(string \<times> json) list \<Rightarrow> string" where
  "claimOf m = (case map_field m ''persistentVolumeClaim'' of
     None \<Rightarrow> [] | Some pvc \<Rightarrow> str_field pvc ''claimName'')"

type_synonym volumes = "(string \<times> volume_state) list"

text \<open>\<open>vols[name]\<close>, the zero state for a missing name.\<close>

definition volume :: "volumes \<Rightarrow> string \<Rightarrow> volume_state" where
  "volume vols name = (case map_of vols name of None \<Rightarrow> no_volume | Some v \<Rightarrow> v)"

definition add_spec :: "json \<Rightarrow> volumes \<Rightarrow> volumes" where
  "add_spec v vols =
     (case as_map v of
        None \<Rightarrow> vols
      | Some m \<Rightarrow>
          let name = str_field m ''name'' in
          if name \<noteq> [] then put name \<lparr>InSpec = True, Phase = [], Claim = claimOf m\<rparr> vols else vols)"

text \<open>The name a queued request adds, empty where it adds none.\<close>

definition queued_add :: "json \<Rightarrow> (string \<times> json) list option" where
  "queued_add rq =
     (case as_map rq of None \<Rightarrow> None | Some m \<Rightarrow> map_field m ''addVolumeOptions'')"

definition add_queued :: "json \<Rightarrow> volumes \<Rightarrow> volumes" where
  "add_queued rq vols =
     (case queued_add rq of
        None \<Rightarrow> vols
      | Some add \<Rightarrow>
          let name = str_field add ''name'' in
          if name = [] then vols
          else
            let st = (volume vols name)\<lparr>InSpec := True\<rparr>;
                st = (if Claim st = [] then
                        case map_field add ''volumeSource'' of
                          None \<Rightarrow> st | Some vs \<Rightarrow> st\<lparr>Claim := claimOf vs\<rparr>
                      else st)
            in put name st vols)"

definition add_status :: "json \<Rightarrow> volumes \<Rightarrow> volumes" where
  "add_status s vols =
     (case as_map s of
        None \<Rightarrow> vols
      | Some m \<Rightarrow>
          let name = str_field m ''name''; phase = str_field m ''phase'' in
          if name = [] then vols else put name ((volume vols name)\<lparr>Phase := phase\<rparr>) vols)"

definition spec_entries :: "unstructured \<Rightarrow> json \<Rightarrow> json list" where
  "spec_entries u vm = nested_slice u vm [''spec'', ''template'', ''spec'', ''volumes'']"

definition queue_entries :: "unstructured \<Rightarrow> json \<Rightarrow> json list" where
  "queue_entries u vm = nested_slice u vm [''status'', ''volumeRequests'']"

definition status_entries :: "unstructured \<Rightarrow> json \<Rightarrow> json list" where
  "status_entries u vmi = nested_slice u vmi [''status'', ''volumeStatus'']"

definition vm_desired :: "unstructured \<Rightarrow> json \<Rightarrow> volumes" where
  "vm_desired u vm = fold add_queued (queue_entries u vm) (fold add_spec (spec_entries u vm) [])"

definition list_vm :: "unstructured \<Rightarrow> json \<Rightarrow> vm_volumes \<Rightarrow> vm_volumes" where
  "list_vm u vm out = put (get_name u vm) (vm_desired u vm) out"

definition list_vmi :: "unstructured \<Rightarrow> json \<Rightarrow> vm_volumes \<Rightarrow> vm_volumes" where
  "list_vmi u vmi out =
     (case map_of out (get_name u vmi) of
        None \<Rightarrow> out
      | Some vols \<Rightarrow> put (get_name u vmi) (fold add_status (status_entries u vmi) vols) out)"

definition client_VMs :: "unstructured \<Rightarrow> kv_server \<Rightarrow> string \<Rightarrow> api_error + vm_volumes" where
  "client_VMs u kv ns =
     (case kv_items (kv (ListVMs ns)) of
        Inl e \<Rightarrow> Inl (wrap (''listing VirtualMachines in '' @ ns) e)
      | Inr vms \<Rightarrow>
          let out = fold (list_vm u) vms [] in
          case kv_items (kv (ListVMIs ns)) of
            Inl e \<Rightarrow> Inl (wrap (''listing VirtualMachineInstances in '' @ ns) e)
          | Inr vmis \<Rightarrow> Inr (fold (list_vmi u) vmis out))"

text \<open>
  The answers this client gives to the hotplug requests of a pass, in the place of the servers of
  an environment.
\<close>

definition error_response :: "api_error option \<Rightarrow> response" where
  "error_response e = (case e of None \<Rightarrow> ROk | Some e \<Rightarrow> RErr e)"

definition hotplug_env :: "unstructured \<Rightarrow> (event list \<Rightarrow> kv_server) \<Rightarrow> env \<Rightarrow> env" where
  "hotplug_env u kv env = env\<lparr>api := \<lambda>h r.
     case r of
       VMs ns \<Rightarrow> (case client_VMs u (kv h) ns of Inl e \<Rightarrow> RErr e | Inr vms \<Rightarrow> RVMs vms)
     | AddVolume ns vm vol claim serial \<Rightarrow> error_response (client_AddVolume (kv h) ns vm vol claim serial)
     | RemoveVolume ns vm vol \<Rightarrow> error_response (client_RemoveVolume (kv h) ns vm vol)
     | _ \<Rightarrow> api env h r\<rparr>"

lemma hotplug_env_VMs: "decode_vms (api (hotplug_env u kv env) h (VMs ns)) = client_VMs u (kv h) ns"
  by (simp add: hotplug_env_def split: sum.split)

lemma hotplug_env_writes:
  "write_error (api (hotplug_env u kv env) h (AddVolume ns vm v c s)) = client_AddVolume (kv h) ns vm v c s"
  "write_error (api (hotplug_env u kv env) h (RemoveVolume ns vm v)) = client_RemoveVolume (kv h) ns vm v"
  by (simp_all add: hotplug_env_def error_response_def split: option.split)

section \<open>What a listing says of a volume\<close>

text \<open>The name an entry of a spec or a status has, and the name a queued request adds, if any.\<close>

definition entry_name :: "json \<Rightarrow> string set" where
  "entry_name v = (case as_map v of None \<Rightarrow> {} | Some m \<Rightarrow> {str_field m ''name''} - {[]})"

definition queued_name :: "json \<Rightarrow> string set" where
  "queued_name rq = (case queued_add rq of None \<Rightarrow> {} | Some m \<Rightarrow> {str_field m ''name''} - {[]})"

abbreviation names :: "('a \<Rightarrow> string set) \<Rightarrow> 'a list \<Rightarrow> string set" where
  "names f vs \<equiv> \<Union> (f ` set vs)"

lemma volume_put [simp]: "volume (put n v vols) k = (if k = n then v else volume vols k)"
  by (simp add: volume_def)

lemma volume_Nil [simp]: "volume [] n = no_volume"
  by (simp add: volume_def)

lemma no_volume_simps [simp]: "InSpec no_volume = False" "Phase no_volume = []" "Claim no_volume = []"
  by (simp_all add: no_volume_def)

lemma add_spec_step [simp]:
  "keys (add_spec v vols) = entry_name v \<union> keys vols"
  "InSpec (volume (add_spec v vols) n) \<longleftrightarrow> n \<in> entry_name v \<or> InSpec (volume vols n)"
  "n \<notin> entry_name v \<Longrightarrow> volume (add_spec v vols) n = volume vols n"
  by (auto simp: add_spec_def entry_name_def Let_def split: option.splits)

lemma add_queued_step [simp]:
  "keys (add_queued v vols) = queued_name v \<union> keys vols"
  "InSpec (volume (add_queued v vols) n) \<longleftrightarrow> n \<in> queued_name v \<or> InSpec (volume vols n)"
  "n \<notin> queued_name v \<Longrightarrow> volume (add_queued v vols) n = volume vols n"
  by (auto simp: add_queued_def queued_name_def Let_def split: option.splits if_splits)

lemma add_status_step [simp]:
  "keys (add_status v vols) = entry_name v \<union> keys vols"
  "InSpec (volume (add_status v vols) n) \<longleftrightarrow> InSpec (volume vols n)"
  "Claim (volume (add_status v vols) n) = Claim (volume vols n)"
  by (auto simp: add_status_def entry_name_def Let_def split: option.splits)

lemma fold_add_spec [simp]:
  "keys (fold add_spec vs vols) = names entry_name vs \<union> keys vols"
  "InSpec (volume (fold add_spec vs vols) n) \<longleftrightarrow> n \<in> names entry_name vs \<or> InSpec (volume vols n)"
  by (induction vs arbitrary: vols) auto

lemma fold_add_spec_other: "n \<notin> names entry_name vs \<Longrightarrow> volume (fold add_spec vs vols) n = volume vols n"
  by (induction vs arbitrary: vols) auto

lemma fold_add_queued [simp]:
  "keys (fold add_queued vs vols) = names queued_name vs \<union> keys vols"
  "InSpec (volume (fold add_queued vs vols) n) \<longleftrightarrow> n \<in> names queued_name vs \<or> InSpec (volume vols n)"
  by (induction vs arbitrary: vols) auto

lemma fold_add_status [simp]:
  "keys (fold add_status vs vols) = names entry_name vs \<union> keys vols"
  "InSpec (volume (fold add_status vs vols) n) \<longleftrightarrow> InSpec (volume vols n)"
  "Claim (volume (fold add_status vs vols) n) = Claim (volume vols n)"
  by (induction vs arbitrary: vols) auto

text \<open>Desired by KubeVirt: in the spec, or in a queued add.  Carried: that, or still reported.\<close>

definition desired_names :: "unstructured \<Rightarrow> json \<Rightarrow> string set" where
  "desired_names u vm = names entry_name (spec_entries u vm) \<union> names queued_name (queue_entries u vm)"

definition reported_names :: "unstructured \<Rightarrow> string \<Rightarrow> json list \<Rightarrow> string set" where
  "reported_names u name vmis =
     names (\<lambda>vmi. names entry_name (status_entries u vmi)) (filter (\<lambda>vmi. get_name u vmi = name) vmis)"

lemma vm_desired_names:
  "keys (vm_desired u vm) = desired_names u vm"
  "InSpec (volume (vm_desired u vm) n) \<longleftrightarrow> n \<in> desired_names u vm"
  by (auto simp: vm_desired_def desired_names_def)

lemma map_of_list_vm: "map_of (list_vm u vm out) k = (if k = get_name u vm then Some (vm_desired u vm) else map_of out k)"
  by (simp add: list_vm_def)

lemma fold_list_vm_other: "k \<notin> get_name u ` set vms \<Longrightarrow> map_of (fold (list_vm u) vms out) k = map_of out k"
  by (induction vms arbitrary: out) (auto simp: map_of_list_vm)

lemma fold_list_vm:
  "distinct (map (get_name u) vms) \<Longrightarrow> vm \<in> set vms \<Longrightarrow>
     map_of (fold (list_vm u) vms out) (get_name u vm) = Some (vm_desired u vm)"
  by (induction vms arbitrary: out) (auto simp: fold_list_vm_other map_of_list_vm)

text \<open>The VMI listing keeps each VM's entry and only adds what its VMIs report.\<close>

definition same_desire :: "volumes \<Rightarrow> string set \<Rightarrow> volumes \<Rightarrow> bool" where
  "same_desire vols reported vols' \<longleftrightarrow> keys vols' = reported \<union> keys vols \<and>
     (\<forall>n. InSpec (volume vols' n) = InSpec (volume vols n) \<and> Claim (volume vols' n) = Claim (volume vols n))"

lemma list_vmi_entry:
  assumes "map_of out k = Some vols"
  shows "\<exists>vols'. map_of (list_vmi u vmi out) k = Some vols' \<and> same_desire vols (reported_names u k [vmi]) vols'"
  using assms by (auto simp: list_vmi_def same_desire_def reported_names_def split: option.split)

lemma fold_list_vmi_entry:
  "map_of out k = Some vols \<Longrightarrow>
     \<exists>vols'. map_of (fold (list_vmi u) vmis out) k = Some vols' \<and> same_desire vols (reported_names u k vmis) vols'"
proof (induction vmis arbitrary: out vols)
  case Nil
  then show ?case by (simp add: same_desire_def reported_names_def)
next
  case (Cons vmi vmis)
  obtain v1 where v1: "map_of (list_vmi u vmi out) k = Some v1" "same_desire vols (reported_names u k [vmi]) v1"
    using list_vmi_entry [OF Cons.prems] by blast
  obtain v2 where "map_of (fold (list_vmi u) vmis (list_vmi u vmi out)) k = Some v2"
    "same_desire v1 (reported_names u k vmis) v2"
    using Cons.IH [OF v1(1)] by blast
  then show ?case using v1(2) by (auto simp: same_desire_def reported_names_def)
qed

lemma client_VMs_entry:
  assumes "kv (ListVMs ns) = KItems vms" and "kv (ListVMIs ns) = KItems vmis"
    and "distinct (map (get_name u) vms)" and "vm \<in> set vms"
  shows "\<exists>out vols. client_VMs u kv ns = Inr out \<and> map_of out (get_name u vm) = Some vols \<and>
     same_desire (vm_desired u vm) (reported_names u (get_name u vm) vmis) vols"
  using fold_list_vmi_entry [OF fold_list_vm [OF assms(3,4)]] assms(1,2)
  by (simp add: client_VMs_def)

section \<open>What was sent is what is listed\<close>

definition queued_request :: "json \<Rightarrow> json" where
  "queued_request body = JObj [(''addVolumeOptions'', body)]"

lemma queued_add_body: "queued_add (queued_request (add_body v c s)) =
    Some [(''name'', JStr v), (''disk'', disk_json \<lparr>av_name = v, av_diskName = v, av_serial = s, av_bus = ''scsi'',
            av_claimName = c, av_hotpluggable = True\<rparr>),
          (''volumeSource'', pvc_source_json \<lparr>av_name = v, av_diskName = v, av_serial = s, av_bus = ''scsi'',
            av_claimName = c, av_hotpluggable = True\<rparr>)]"
  by (simp add: queued_add_def queued_request_def add_body_def add_volume_json_def map_field_def)

lemma queued_name_body: "queued_name (queued_request (add_body v c s)) = {v} - {[]}"
  by (simp add: queued_name_def queued_add_body str_field_def)

lemma add_queued_body:
  "v \<noteq> [] \<Longrightarrow> Claim (volume (add_queued (queued_request (add_body v c s)) vols) v) =
     (if Claim (volume vols v) = [] then c else Claim (volume vols v))"
  by (simp add: add_queued_def queued_add_body str_field_def map_field_def claimOf_def pvc_source_json_def Let_def)

text \<open>A queue whose entries for a volume name are all that request.\<close>

definition only_request :: "string \<Rightarrow> json \<Rightarrow> json \<Rightarrow> bool" where
  "only_request v q rq \<longleftrightarrow> v \<in> queued_name rq \<longrightarrow> rq = q"

lemma only_request_self [simp]: "only_request v q q"
  by (simp add: only_request_def)

lemma add_queued_claim:
  assumes "v \<noteq> []" and "only_request v (queued_request (add_body v c s)) rq"
    and "Claim (volume vols v) = [] \<or> Claim (volume vols v) = c"
  shows "Claim (volume (add_queued rq vols) v) = [] \<or> Claim (volume (add_queued rq vols) v) = c"
    and "rq = queued_request (add_body v c s) \<or> Claim (volume vols v) = c \<Longrightarrow>
      Claim (volume (add_queued rq vols) v) = c"
proof -
  have "Claim (volume (add_queued rq vols) v) = c" if "rq = queued_request (add_body v c s)"
    unfolding that add_queued_body [OF assms(1)] using assms(3) by (auto split: if_split)
  moreover have "volume (add_queued rq vols) v = volume vols v" if "rq \<noteq> queued_request (add_body v c s)"
    using assms(2) that by (simp add: only_request_def)
  ultimately show "Claim (volume (add_queued rq vols) v) = [] \<or> Claim (volume (add_queued rq vols) v) = c"
    and "rq = queued_request (add_body v c s) \<or> Claim (volume vols v) = c \<Longrightarrow>
      Claim (volume (add_queued rq vols) v) = c"
    using assms(3) by metis+
qed

lemma fold_add_queued_claim:
  assumes "v \<noteq> []" and "list_all (only_request v (queued_request (add_body v c s))) rqs"
    and "Claim (volume vols v) = [] \<or> Claim (volume vols v) = c"
    and "queued_request (add_body v c s) \<in> set rqs \<or> Claim (volume vols v) = c"
  shows "Claim (volume (fold add_queued rqs vols) v) = c"
  using assms(2-4)
proof (induction rqs arbitrary: vols)
  case (Cons rq rqs)
  have hd: "only_request v (queued_request (add_body v c s)) rq"
    and tl: "list_all (only_request v (queued_request (add_body v c s))) rqs" using Cons.prems(1) by simp_all
  note step = add_queued_claim [OF assms(1) hd Cons.prems(2)]
  show ?case
    unfolding fold_simps
    by (rule Cons.IH [OF tl step(1)]) (use Cons.prems(3) step(2) in auto)
qed simp

section \<open>A volume that KubeVirt still wants keeps its disk\<close>

definition only_unplugs :: "event list \<Rightarrow> request \<Rightarrow> bool" where
  "only_unplugs h r = (case r of RemoveVolume _ _ _ \<Rightarrow> True | _ \<Rightarrow> False)"

lemma unplug_only: "trace_ext only_unplugs (p_trace p) (p_trace (unplug env v vm p))"
  by (auto simp: unplug_def Let_def split_beta storageProblem_def problem_def only_unplugs_def
      intro!: trace_ext_one split: option.split)

lemma volumeUnplugged_only: "trace_ext only_unplugs (p_trace p) (p_trace (snd (volumeUnplugged env name p)))"
proof -
  have "keeps (\<lambda>_. True) only_unplugs (fold (unplug env v) vms)" for v vms
    by (rule keeps_fold) (simp add: keeps_def unplug_only)
  then show ?thesis by (auto simp: volumeUnplugged_def Let_def keeps_def split: option.split)
qed

lemma listed_desired_carried:
  assumes "client_VMs u kv ns = Inr out" and "kv (ListVMs ns) = KItems vms" and "kv (ListVMIs ns) = KItems vmis"
    and "distinct (map (get_name u) vms)" and "vm \<in> set vms" and "v \<in> desired_names u vm"
  shows "\<exists>vm \<in> set out. carries v vm"
proof -
  obtain vols where "map_of out (get_name u vm) = Some vols" "v \<in> keys vols"
    using client_VMs_entry [OF assms(2-5)] assms(1,6) by (force simp: same_desire_def vm_desired_names)
  then show ?thesis by (force simp: carries_def dest: map_of_SomeD)
qed

lemma carried_not_unplugged:
  "p_storage p = Some st \<Longrightarrow> \<exists>vm \<in> set (st_vms st). carries (VolumeName name) vm \<Longrightarrow>
     \<not> fst (volumeUnplugged env name p)"
  using volumeUnplugged_clear by blast

section \<open>Properties\<close>

text \<open>
  Claim C23. The listing merges its three sources: for two answers of the server, VMs of distinct
  names, and one of these, the volumes reported for it are those of its spec, of its queued adds,
  and of the statuses of the VMIs of its name, and a volume counts as in the spec exactly if the
  spec has it or a queued add names it, whatever the VMI reports.
\<close>

theorem VMs_merges_sources:
  assumes "kv (ListVMs ns) = KItems vms" and "kv (ListVMIs ns) = KItems vmis"
    and "distinct (map (get_name u) vms)" and "vm \<in> set vms"
  shows "\<exists>out vols. client_VMs u kv ns = Inr out \<and> map_of out (get_name u vm) = Some vols \<and>
     keys vols = desired_names u vm \<union> reported_names u (get_name u vm) vmis \<and>
     (\<forall>n. InSpec (volume vols n) \<longleftrightarrow> n \<in> desired_names u vm)"
  using client_VMs_entry [OF assms] by (force simp: same_desire_def vm_desired_names)

text \<open>
  Claim C35. What \<open>AddVolume\<close> sends is what the listing reads back: once KubeVirt has queued the
  body of a hotplug request of this client, and neither the VM's spec nor another queued add uses
  that volume name, the volume is listed as in the spec and with the claim it was plugged for.
\<close>

theorem queued_add_read_back:
  assumes "kv (ListVMs ns) = KItems vms" and "kv (ListVMIs ns) = KItems vmis"
    and "distinct (map (get_name u) vms)" and "vm \<in> set vms" and "v \<noteq> []"
    and "queued_request (add_body v c s) \<in> set (queue_entries u vm)"
    and "v \<notin> names entry_name (spec_entries u vm)"
    and "list_all (only_request v (queued_request (add_body v c s))) (queue_entries u vm)"
  shows "\<exists>out vols. client_VMs u kv ns = Inr out \<and> map_of out (get_name u vm) = Some vols \<and>
     InSpec (volume vols v) \<and> Claim (volume vols v) = c"
proof -
  have "volume (fold add_spec (spec_entries u vm) []) v = no_volume"
    using fold_add_spec_other [OF assms(7)] by simp
  then have "Claim (volume (vm_desired u vm) v) = c"
    using fold_add_queued_claim [OF assms(5,8), of "fold add_spec (spec_entries u vm) []"] assms(6)
    by (simp add: vm_desired_def)
  moreover have "v \<in> desired_names u vm"
    using assms(5,6) queued_name_body by (force simp: desired_names_def)
  ultimately show ?thesis using client_VMs_entry [OF assms(1-4)] by (force simp: same_desire_def vm_desired_names)
qed

text \<open>
  Claim C10. A disk that KubeVirt still wants in a VM is never deleted: when the VMs of a pass are
  what the client listed, and the spec or a queued add of a VM names the volume of a host PVC, both
  prunes only send unplug requests: the teardown of its guest PVC pins that PVC again, and the prune
  of orphans lets the host PVC be.
\<close>

theorem desired_volume_keeps_disk:
  assumes "p_storage p = Some st" and "client_VMs u kv ns = Inr (st_vms st)"
    and "kv (ListVMs ns) = KItems vms" and "kv (ListVMIs ns) = KItems vmis"
    and "distinct (map (get_name u) vms)" and "vm \<in> set vms"
    and "heap_as to_pvc p ref = Some pvc" and "HostPVCName (p_tc p) (om_uid (pvc_meta pvc)) = om_name (pvc_meta x)"
    and "VolumeName (om_name (pvc_meta x)) \<in> desired_names u vm"
  shows "ref \<in> set (p_wantFinalizer (teardownGuestPVC env ref p)) \<and>
     trace_ext only_unplugs (p_trace p) (p_trace (teardownGuestPVC env ref p)) \<and>
     trace_ext only_unplugs (p_trace p) (p_trace (prune_orphan_pvc env x p))"
proof -
  have "\<not> fst (volumeUnplugged env (om_name (pvc_meta x)) p)"
    using carried_not_unplugged [OF assms(1) listed_desired_carried [OF assms(2-6,9)]] .
  then show ?thesis
    using assms(1,7,8) volumeUnplugged_only [of p env "om_name (pvc_meta x)"]
    by (simp add: teardownGuestPVC_def prune_orphan_pvc_def Let_def split_beta wantFinalizer_def)
qed

text \<open>A VM with a volume in its queue, as a server would list it.\<close>

definition ex_unstructured :: unstructured where
  "ex_unstructured = \<lparr>nested_slice = \<lambda>vm path.
       if path = [''status'', ''volumeRequests''] then [vm] else [],
     get_name = \<lambda>_. ''node1''\<rparr>"

definition ex_kv :: "json \<Rightarrow> kv_server" where
  "ex_kv vm r = (case r of ListVMs _ \<Rightarrow> KItems [vm] | ListVMIs _ \<Rightarrow> KItems [] | Put _ _ \<Rightarrow> KDone)"

definition ex_queued :: json where
  "ex_queued = queued_request (add_body (VolumeName ''disk'') ''disk'' (SerialFor ''disk''))"

lemma ex_entries:
  "queue_entries ex_unstructured vm = [vm]" "spec_entries ex_unstructured vm = []"
  "status_entries ex_unstructured vm = []" "get_name ex_unstructured vm = ''node1''"
  by (simp_all add: queue_entries_def spec_entries_def status_entries_def ex_unstructured_def)

lemma VolumeName_not_Nil: "VolumeName n \<noteq> []"
  by (simp add: VolumeName_def)

lemma ex_queued_name: "queued_name ex_queued = {VolumeName ''disk''}"
  using VolumeName_not_Nil by (auto simp: ex_queued_def queued_name_body)

lemma ex_kv_facts:
  "ex_kv vm (ListVMs ns) = KItems [vm]" "ex_kv vm (ListVMIs ns) = KItems []"
  "distinct (map (get_name ex_unstructured) [vm])" "vm \<in> set [vm]"
  by (simp_all add: ex_kv_def)

theorem VMs_merges_sources_witness:
  "\<exists>out vols. client_VMs ex_unstructured (ex_kv ex_queued) ''host-t'' = Inr out \<and> map_of out ''node1'' = Some vols \<and>
     keys vols = {VolumeName ''disk''} \<and> InSpec (volume vols (VolumeName ''disk''))"
  using VMs_merges_sources [OF ex_kv_facts]
  unfolding ex_entries desired_names_def reported_names_def by (force simp: ex_queued_name ex_entries)

theorem queued_add_read_back_witness:
  "\<exists>out vols. client_VMs ex_unstructured (ex_kv ex_queued) ''host-t'' = Inr out \<and> map_of out ''node1'' = Some vols \<and>
     InSpec (volume vols (VolumeName ''disk'')) \<and> Claim (volume vols (VolumeName ''disk'')) = ''disk''"
  unfolding ex_entries(4) [of ex_queued, symmetric]
  by (rule queued_add_read_back [OF ex_kv_facts VolumeName_not_Nil, where s = "SerialFor ''disk''"])
    (simp_all add: ex_entries ex_queued_def)

definition ex_guest_pvc :: pvc where
  "ex_guest_pvc = ex_host_pvc\<lparr>pvc_meta := no_meta\<lparr>om_name := ''data'', om_namespace := ''shop'', om_uid := ''u1''\<rparr>\<rparr>"

theorem desired_volume_keeps_disk_witness:
  "let name = HostPVCName ex_tc ''u1''; v = VolumeName name; ref = (KPVC, ''shop'', ''data'');
       vms = [(''node1'', [(v, \<lparr>InSpec = True, Phase = [], Claim = name\<rparr>)])];
       p = ex_pass\<lparr>p_storage := Some ((ex_storage [])\<lparr>st_vms := vms\<rparr>), p_heap := [ref \<mapsto> OPVC ex_guest_pvc]\<rparr>
   in ref \<in> set (p_wantFinalizer (teardownGuestPVC (ex_env (\<lambda>_ _. ROk)) ref p))"
proof -
  let ?name = "HostPVCName ex_tc ''u1''"
  let ?v = "VolumeName ?name"
  let ?q = "queued_request (add_body ?v ?name [])"
  let ?vms = "[(''node1'', [(?v, \<lparr>InSpec = True, Phase = [], Claim = ?name\<rparr>)])]"
  let ?ref = "(KPVC, ''shop'', ''data'')"
  let ?p = "ex_pass\<lparr>p_storage := Some ((ex_storage [])\<lparr>st_vms := ?vms\<rparr>), p_heap := [?ref \<mapsto> OPVC ex_guest_pvc]\<rparr>"
  have "client_VMs ex_unstructured (ex_kv ?q) ''host-t'' = Inr ?vms"
    using VolumeName_not_Nil
    by (simp add: client_VMs_def ex_kv_facts list_vm_def vm_desired_def ex_entries add_queued_def queued_add_body
        str_field_def map_field_def claimOf_def pvc_source_json_def no_volume_def Let_def)
  moreover have "?v \<in> desired_names ex_unstructured ?q"
    using VolumeName_not_Nil by (simp add: desired_names_def ex_entries queued_name_body)
  ultimately show ?thesis
    using desired_volume_keeps_disk [of ?p "(ex_storage [])\<lparr>st_vms := ?vms\<rparr>" ex_unstructured "ex_kv ?q" "''host-t''"
        "[?q]" "[]" ?q ?ref ex_guest_pvc "ex_host_pvc\<lparr>pvc_meta := no_meta\<lparr>om_name := ?name\<rparr>\<rparr>" "ex_env (\<lambda>_ _. ROk)"]
      ex_kv_facts
    by (simp add: heap_as_def ex_guest_pvc_def ex_pass_def newPass_def no_meta_def Let_def)
qed

end
