(* ===== verification/GoFlags.thy ===== *)
theory GoFlags
  imports Effects
begin

text \<open>
  What the two entry points use of Go's standard library to read a command line: package flag with
  \<open>strconv.ParseBool\<close> and \<open>time.ParseDuration\<close>.  Fractions of a duration go through floating
  point; that one product is a parameter.  The text of a usage message is left out.
\<close>

section \<open>Booleans and durations\<close>

definition ParseBool :: "string \<Rightarrow> bool option" where
  "ParseBool s =
     (if s \<in> set [''1'', ''t'', ''T'', ''true'', ''TRUE'', ''True''] then Some True
      else if s \<in> set [''0'', ''f'', ''F'', ''false'', ''FALSE'', ''False''] then Some False
      else None)"

text \<open>
  The integers are \<open>uint64\<close>: every sum below stays under \<open>2 ^ 64\<close> but the last one, which wraps.
\<close>

definition half_range :: int where "half_range = 2 ^ 63"

definition digit_value :: "char \<Rightarrow> int" where "digit_value c = of_char c - 48"

fun leadingInt :: "int \<Rightarrow> string \<Rightarrow> (int \<times> string) option" where
  "leadingInt x [] = Some (x, [])"
| "leadingInt x (c # s) =
     (if \<not> is_digit c then Some (x, c # s)
      else if x > half_range div 10 then None
      else
        let y = x * 10 + digit_value c in
        if y > half_range then None else leadingInt y s)"

text \<open>Digits that no longer fit are read and ignored.\<close>

fun leadingFraction :: "int \<Rightarrow> int \<Rightarrow> bool \<Rightarrow> string \<Rightarrow> int \<times> int \<times> string" where
  "leadingFraction x scale overflow [] = (x, scale, [])"
| "leadingFraction x scale overflow (c # s) =
     (if \<not> is_digit c then (x, scale, c # s)
      else
        let y = x * 10 + digit_value c in
        if overflow \<or> x > (half_range - 1) div 10 \<or> y > half_range
        then leadingFraction x scale True s
        else leadingFraction y (scale * 10) False s)"

text \<open>The micro sign and the Greek letter mu are two bytes each.\<close>

definition duration_units :: "(string \<times> int) list" where
  "duration_units =
     [(''ns'', 1), (''us'', 1000), ([CHR 0xC2, CHR 0xB5, CHR ''s''], 1000), ([CHR 0xCE, CHR 0xBC, CHR ''s''], 1000),
      (''ms'', 1000000), (''s'', second), (''m'', 60 * second), (''h'', 3600 * second)]"

definition in_number :: "char \<Rightarrow> bool" where
  "in_number c = (c = CHR ''.'' \<or> is_digit c)"

text \<open>\<open>float f unit scale\<close> is \<open>uint64(float64(f) * (float64(unit) / scale))\<close>.\<close>

type_synonym float_product = "int \<Rightarrow> int \<Rightarrow> int \<Rightarrow> int"

definition duration_fraction :: "string \<Rightarrow> int \<times> int \<times> string" where
  "duration_fraction s =
     (if s \<noteq> [] \<and> hd s = CHR ''.'' then leadingFraction 0 1 False (tl s) else (0, 1, s))"

definition duration_unit :: "string \<Rightarrow> string" where
  "duration_unit s = takeWhile (\<lambda>c. \<not> in_number c) s"

text \<open>One term, a number and its unit, and what follows it.\<close>

definition duration_term :: "float_product \<Rightarrow> string \<Rightarrow> (int \<times> string) option" where
  "duration_term float s =
     (if s = [] \<or> \<not> in_number (hd s) then None
      else
        case leadingInt 0 s of
          None \<Rightarrow> None
        | Some (v, s1) \<Rightarrow>
            let (f, scale, s2) = duration_fraction s1;
                pre = length s1 \<noteq> length s;
                post = s1 \<noteq> [] \<and> hd s1 = CHR ''.'' \<and> length s2 \<noteq> length (tl s1);
                u = duration_unit s2
            in
            if \<not> pre \<and> \<not> post then None
            else if u = [] then None
            else
              case map_of duration_units u of
                None \<Rightarrow> None
              | Some unit \<Rightarrow>
                  if v > half_range div unit then None
                  else
                    let d = v * unit + (if f > 0 then float f unit scale else 0) in
                    if d > half_range then None else Some (d, drop (length u) s2))"

lemma length_leadingInt: "leadingInt x s = Some (y, r) \<Longrightarrow> length r \<le> length s"
  by (induction x s rule: leadingInt.induct) (auto simp: Let_def split: if_splits)

lemma length_leadingFraction: "leadingFraction x k b s = (y, l, r) \<Longrightarrow> length r \<le> length s"
  by (induction x k b s rule: leadingFraction.induct) (auto simp: Let_def split: if_splits)

lemma length_duration_fraction: "duration_fraction s = (f, k, r) \<Longrightarrow> length r \<le> length s"
  using length_leadingFraction [of 0 1 False "tl s" f k r]
  by (cases s) (auto simp: duration_fraction_def split: if_splits)

lemma duration_term_shorter:
  assumes "duration_term float s = Some (d, r)"
  shows "length r < length s"
proof -
  obtain v s1 where s1: "leadingInt 0 s = Some (v, s1)"
    using assms by (auto simp: duration_term_def split: if_splits option.splits)
  obtain f k s2 where s2: "duration_fraction s1 = (f, k, s2)" by (cases "duration_fraction s1")
  have "duration_unit s2 \<noteq> []" "r = drop (length (duration_unit s2)) s2"
    using assms s1 s2 by (auto simp: duration_term_def Let_def split: if_splits option.splits)
  moreover from this have "s2 \<noteq> []" by (auto simp: duration_unit_def)
  ultimately have "length r < length s2" by simp
  with length_leadingInt [OF s1] length_duration_fraction [OF s2] show ?thesis by linarith
qed

function duration_sum :: "float_product \<Rightarrow> int \<Rightarrow> string \<Rightarrow> int option" where
  "duration_sum float d s =
     (if s = [] then Some d
      else
        case duration_term float s of
          None \<Rightarrow> None
        | Some (v, r) \<Rightarrow>
            let d' = (d + v) mod 2 ^ 64 in
            if d' > half_range then None else duration_sum float d' r)"
  by pat_completeness auto

termination
  by (relation "measure (\<lambda>(float, d, s). length s)") (auto dest: duration_term_shorter)

declare duration_sum.simps [simp del]

definition unsigned_duration :: "float_product \<Rightarrow> string \<Rightarrow> int option" where
  "unsigned_duration float s =
     (if s = ''0'' then Some 0 else if s = [] then None else duration_sum float 0 s)"

definition ParseDuration :: "float_product \<Rightarrow> string \<Rightarrow> int option" where
  "ParseDuration float s =
     (case s of
        CHR ''-'' # r \<Rightarrow> map_option uminus (unsigned_duration float r)
      | _ \<Rightarrow>
          (case unsigned_duration float (case s of CHR ''+'' # r \<Rightarrow> r | _ \<Rightarrow> s) of
             None \<Rightarrow> None
           | Some d \<Rightarrow> if d > half_range - 1 then None else Some d))"

section \<open>Flag sets\<close>

text \<open>
  A flag of another package takes a value or refuses it with an error; \<open>ForeignFlag b accept\<close> says
  whether it may stand without a value, as a boolean flag does.
\<close>

datatype flag_kind = StringFlag | BoolFlag | DurationFlag | ForeignFlag bool "string \<Rightarrow> string option"

datatype flag_value = VString string | VBool bool | VDuration int | VForeign string

fun is_bool_flag :: "flag_kind \<Rightarrow> bool" where
  "is_bool_flag BoolFlag = True"
| "is_bool_flag (ForeignFlag b accept) = b"
| "is_bool_flag _ = False"

definition parse_error :: string where "parse_error = ''parse error''"

fun set_flag :: "float_product \<Rightarrow> flag_kind \<Rightarrow> string \<Rightarrow> string + flag_value" where
  "set_flag float StringFlag v = Inr (VString v)"
| "set_flag float BoolFlag v =
     (case ParseBool v of None \<Rightarrow> Inl parse_error | Some b \<Rightarrow> Inr (VBool b))"
| "set_flag float DurationFlag v =
     (case ParseDuration float v of None \<Rightarrow> Inl parse_error | Some d \<Rightarrow> Inr (VDuration d))"
| "set_flag float (ForeignFlag b accept) v =
     (case accept v of Some e \<Rightarrow> Inl e | None \<Rightarrow> Inr (VForeign v))"

text \<open>Why \<open>Parse\<close> ends the process: \<open>-help\<close> was asked for, or a flag is wrong.\<close>

datatype parse_stop = HelpWanted | BadUsage string

text \<open>The text after one or two dashes; \<open>None\<close> ends the flags.\<close>

fun flag_text :: "string \<Rightarrow> string option" where
  "flag_text (a # b # s) =
     (if a \<noteq> CHR ''-'' then None
      else if b \<noteq> CHR ''-'' then Some (b # s)
      else if s = [] then None else Some s)"
| "flag_text _ = None"

definition split_flag :: "string \<Rightarrow> string \<times> string option" where
  "split_flag t =
     (case index_byte t (CHR ''='') of
        None \<Rightarrow> (t, None)
      | Some i \<Rightarrow> (take i t, Some (drop (Suc i) t)))"

definition unknown_flag :: "string \<Rightarrow> parse_stop" where
  "unknown_flag n =
     (if n = ''help'' \<or> n = ''h'' then HelpWanted
      else BadUsage (''flag provided but not defined: -'' @ n))"

text \<open>A boolean flag takes a value only after \<open>=\<close>; another flag may take the next argument.\<close>

definition assign :: "float_product \<Rightarrow> flag_kind \<Rightarrow> string \<Rightarrow> string option \<Rightarrow> parse_stop + flag_value" where
  "assign float k n v =
     (if is_bool_flag k then
        (case v of
           Some v \<Rightarrow>
             (case set_flag float k v of
                Inl e \<Rightarrow> Inl (BadUsage (''invalid boolean value '' @ quote v @ '' for -'' @ n @ '': '' @ e))
              | Inr x \<Rightarrow> Inr x)
         | None \<Rightarrow>
             (case set_flag float k ''true'' of
                Inl e \<Rightarrow> Inl (BadUsage (''invalid boolean flag '' @ n @ '': '' @ e))
              | Inr x \<Rightarrow> Inr x))
      else
        (case v of
           None \<Rightarrow> Inl (BadUsage (''flag needs an argument: -'' @ n))
         | Some v \<Rightarrow>
             (case set_flag float k v of
                Inl e \<Rightarrow> Inl (BadUsage (''invalid value '' @ quote v @ '' for flag -'' @ n @ '': '' @ e))
              | Inr x \<Rightarrow> Inr x)))"

text \<open>The settings, the latest first.\<close>

type_synonym settings = "(string \<times> flag_value) list"

fun parse_flags ::
  "float_product \<Rightarrow> (string \<Rightarrow> flag_kind option) \<Rightarrow> string list \<Rightarrow> settings \<Rightarrow> parse_stop + settings" where
  "parse_flags float F [] st = Inr st"
| "parse_flags float F (a # as) st =
     (case flag_text a of
        None \<Rightarrow> Inr st
      | Some t \<Rightarrow>
          if hd t = CHR ''-'' \<or> hd t = CHR ''='' then Inl (BadUsage (''bad flag syntax: '' @ a))
          else
            case split_flag t of (n, v) \<Rightarrow>
              (case F n of
                 None \<Rightarrow> Inl (unknown_flag n)
               | Some k \<Rightarrow>
                   if v = None \<and> \<not> is_bool_flag k \<and> as \<noteq> [] then
                     (case as of
                        [] \<Rightarrow> Inr st
                      | v # as' \<Rightarrow>
                          (case assign float k n (Some v) of
                             Inl e \<Rightarrow> Inl e
                           | Inr x \<Rightarrow> parse_flags float F as' ((n, x) # st)))
                   else
                     (case assign float k n v of
                        Inl e \<Rightarrow> Inl e
                      | Inr x \<Rightarrow> parse_flags float F as ((n, x) # st))))"

declare parse_flags.simps(2) [simp del]

section \<open>Reading the settings\<close>

fun flag_string :: "string \<Rightarrow> flag_value option \<Rightarrow> string" where
  "flag_string d (Some (VString s)) = s" | "flag_string d _ = d"

fun flag_bool :: "bool \<Rightarrow> flag_value option \<Rightarrow> bool" where
  "flag_bool d (Some (VBool b)) = b" | "flag_bool d _ = d"

fun flag_duration :: "int \<Rightarrow> flag_value option \<Rightarrow> int" where
  "flag_duration d (Some (VDuration i)) = i" | "flag_duration d _ = d"

text \<open>A duration that is accepted fits 64 bits.\<close>

lemma duration_sum_bounds:
  assumes "duration_sum float d s = Some e" and "0 \<le> d" and "d \<le> half_range"
  shows "0 \<le> e \<and> e \<le> half_range"
  using assms
proof (induction float d s rule: duration_sum.induct)
  case (1 float d s)
  show ?case
  proof (cases "s = []")
    case True
    then show ?thesis using 1 by (simp add: duration_sum.simps [of float d "[]"])
  next
    case False
    then obtain v r where t: "duration_term float s = Some (v, r)" and le: "(d + v) mod 2 ^ 64 \<le> half_range"
      and rest: "duration_sum float ((d + v) mod 2 ^ 64) r = Some e"
      using "1.prems"(1) by (auto simp: duration_sum.simps [of float d s] Let_def split: option.splits if_splits)
    show ?thesis using "1.IH" [OF False t _ refl _ rest] le by (simp add: not_less)
  qed
qed

lemma ParseDuration_range:
  assumes "ParseDuration float s = Some d"
  shows "- (2 ^ 63) \<le> d \<and> d < 2 ^ 63"
proof -
  have "0 \<le> e \<and> e \<le> half_range" if "unsigned_duration float r = Some e" for r e
    using that duration_sum_bounds [of float 0 r e]
    by (auto simp: unsigned_duration_def half_range_def split: if_splits)
  then show ?thesis
    using assms unfolding ParseDuration_def half_range_def
    by (fastforce split: list.splits char.splits bool.splits option.splits if_splits)
qed

end
