(* ===== verification/CsiNode.thy ===== *)
theory CsiNode
  imports StorageInv
begin

text \<open>
  The CSI node plugin of internal/csinode (node.go and the identity service of driver.go): it
  waits for the hotplugged disk by its serial, formats and mounts it, and bind-mounts it into pods.

  The operating system and the mount library answer requests; which answer they give is a function
  of the whole history, as for the servers of a pass.  Times are nanoseconds.  The wait for a device
  is a loop that only the clock ends, so it has fuel: \<open>None\<close> means the fuel ran out.
\<close>

section \<open>The node's operating system\<close>

datatype os_request =
    ReadDir string
  | EvalSymlinks string
  | MkdirAll string nat
  | IsLikelyNotMountPoint string
  | FormatAndMount string string string "string list"
  | Mount string string string "string list"
  | CleanupMountPoint string
  | Clock
  | Wait int

text \<open>\<open>OCancelled\<close> answers a \<open>Wait\<close> whose context was done first, with \<open>ctx.Err()\<close>.\<close>

datatype os_response =
    OErr string
  | ODone
  | ONames "string list"
  | OPath string
  | OBool bool
  | OTime int
  | OCancelled string

type_synonym os_event = "os_request \<times> os_response"

type_synonym os = "os_event list \<Rightarrow> os_request \<Rightarrow> os_response"

definition ask :: "os \<Rightarrow> os_request \<Rightarrow> os_event list \<Rightarrow> os_response \<times> os_event list" where
  "ask w r tr = (let resp = w tr r in (resp, (r, resp) # tr))"

definition bad_answer :: string where
  "bad_answer = ''unexpected answer''"

fun os_names :: "os_response \<Rightarrow> string + string list" where
  "os_names (ONames ns) = Inr ns"
| "os_names (OErr e) = Inl e"
| "os_names _ = Inl bad_answer"

fun os_path :: "os_response \<Rightarrow> string + string" where
  "os_path (OPath s) = Inr s"
| "os_path (OErr e) = Inl e"
| "os_path _ = Inl bad_answer"

fun os_error :: "os_response \<Rightarrow> string option" where
  "os_error (OErr e) = Some e"
| "os_error _ = None"

fun os_time :: "os_response \<Rightarrow> int" where
  "os_time (OTime t) = t"
| "os_time _ = 0"

text \<open>\<open>notMnt, err := IsLikelyNotMountPoint(path); err == nil && !notMnt\<close>.\<close>

fun is_mount_point :: "os_response \<Rightarrow> bool" where
  "is_mount_point (OBool notMnt) = (\<not> notMnt)"
| "is_mount_point _ = False"

section \<open>Requests and answers of the kubelet\<close>

record stage_request =
  sr_volumeId :: string
  sr_staging :: string
  sr_block :: bool
  sr_publishContext :: strmap
  sr_volumeContext :: strmap

record publish_request =
  pq_staging :: string
  pq_target :: string
  pq_readonly :: bool

datatype code = InvalidArgument | DeviceNotFound | Internal

type_synonym status = "code \<times> string"

record driver =
  nodeID :: string

definition driverVersion :: string where "driverVersion = ''1.1.0''"
text \<open>The directory mode \<open>0o750\<close>.\<close>

definition dirMode :: nat where "dirMode = 488"

definition serialContextKey :: string where "serialContextKey = ''serial''"
definition fsType :: string where "fsType = ''ext4''"
definition byIDDir :: string where "byIDDir = ''/dev/disk/by-id''"

definition deviceWait :: int where "deviceWait = 30 * second"

definition NodeGetInfo :: "driver \<Rightarrow> string" where
  "NodeGetInfo d = nodeID d"

definition NodeGetCapabilities :: "driver \<Rightarrow> string list" where
  "NodeGetCapabilities d = [''STAGE_UNSTAGE_VOLUME'']"

text \<open>The name and the vendor version; no capability; an empty answer.\<close>

definition GetPluginInfo :: "driver \<Rightarrow> string \<times> string" where
  "GetPluginInfo d = (DriverName, driverVersion)"

definition GetPluginCapabilities :: "driver \<Rightarrow> string list" where
  "GetPluginCapabilities d = []"

definition Probe :: "driver \<Rightarrow> unit" where
  "Probe d = ()"

section \<open>Device lookup\<close>

definition by_id :: "string \<Rightarrow> string" where
  "by_id name = byIDDir @ ''/'' @ name"

fun first_match :: "os \<Rightarrow> string \<Rightarrow> string list \<Rightarrow> os_event list \<Rightarrow> (string + string) \<times> os_event list" where
  "first_match w serial [] tr =
     (Inl (''no entry in '' @ byIDDir @ '' matches serial '' @ quote serial), tr)"
| "first_match w serial (e # es) tr =
     (if \<not> contains e serial then first_match w serial es tr
      else let (resp, tr) = ask w (EvalSymlinks (by_id e)) tr in (os_path resp, tr))"

definition findDeviceBySerial :: "os \<Rightarrow> string \<Rightarrow> os_event list \<Rightarrow> (string + string) \<times> os_event list" where
  "findDeviceBySerial w serial tr =
     (let (resp, tr) = ask w (ReadDir byIDDir) tr in
      case os_names resp of
        Inl e \<Rightarrow> (Inl e, tr)
      | Inr entries \<Rightarrow> first_match w serial entries tr)"

fun wait_loop ::
  "os \<Rightarrow> nat \<Rightarrow> string \<Rightarrow> int \<Rightarrow> os_event list \<Rightarrow> ((string + string) \<times> os_event list) option" where
  "wait_loop w 0 serial deadline tr = None"
| "wait_loop w (Suc fuel) serial deadline tr =
     (case findDeviceBySerial w serial tr of
        (Inr dev, tr) \<Rightarrow> Some (Inr dev, tr)
      | (Inl e, tr) \<Rightarrow>
          let (resp, tr) = ask w Clock tr in
          if os_time resp > deadline then Some (Inl e, tr)
          else
            let (resp, tr) = ask w (Wait second) tr in
            case resp of
              OCancelled c \<Rightarrow> Some (Inl c, tr)
            | _ \<Rightarrow> wait_loop w fuel serial deadline tr)"

definition waitForDevice ::
  "os \<Rightarrow> nat \<Rightarrow> string \<Rightarrow> int \<Rightarrow> os_event list \<Rightarrow> ((string + string) \<times> os_event list) option" where
  "waitForDevice w fuel serial timeout tr =
     (let (resp, tr) = ask w Clock tr in wait_loop w fuel serial (os_time resp + timeout) tr)"

section \<open>The node service\<close>

text \<open>The serial \<open>NodeStageVolume\<close> looks for: hints first, then derived from the volume ID.\<close>

definition stage_serial :: "stage_request \<Rightarrow> string" where
  "stage_serial req =
     (let s = at (sr_publishContext req) serialContextKey;
          s = (if s = [] then at (sr_volumeContext req) serialContextKey else s)
      in if s = [] then SerialFor (sr_volumeId req) else s)"

definition stage_device :: "os \<Rightarrow> stage_request \<Rightarrow> string \<Rightarrow> os_event list \<Rightarrow> (status + unit) \<times> os_event list" where
  "stage_device w req dev tr =
     (let path = sr_staging req;
          (resp, tr) = ask w (IsLikelyNotMountPoint path) tr in
      if is_mount_point resp then (Inr (), tr)
      else
        let (resp, tr) = ask w (MkdirAll path dirMode) tr in
        case os_error resp of
          Some e \<Rightarrow> (Inl (Internal, ''creating staging path: '' @ e), tr)
        | None \<Rightarrow>
            let (resp, tr) = ask w (FormatAndMount dev path fsType []) tr in
            case os_error resp of
              Some e \<Rightarrow> (Inl (Internal, ''mounting '' @ dev @ '' at '' @ path @ '': '' @ e), tr)
            | None \<Rightarrow> (Inr (), tr))"

definition NodeStageVolume ::
  "os \<Rightarrow> nat \<Rightarrow> stage_request \<Rightarrow> os_event list \<Rightarrow> ((status + unit) \<times> os_event list) option" where
  "NodeStageVolume w fuel req tr =
     (if sr_volumeId req = [] \<or> sr_staging req = [] then
        Some (Inl (InvalidArgument, ''volume ID and staging target path are required''), tr)
      else if sr_block req then
        Some (Inl (InvalidArgument, ''raw block volumes are not supported''), tr)
      else
        case waitForDevice w fuel (stage_serial req) deviceWait tr of
          None \<Rightarrow> None
        | Some (Inl e, tr) \<Rightarrow>
            Some (Inl (DeviceNotFound, ''no disk with serial '' @ quote (stage_serial req) @
              '' appeared within 30s: '' @ e), tr)
        | Some (Inr dev, tr) \<Rightarrow> Some (stage_device w req dev tr))"

definition NodeUnstageVolume :: "os \<Rightarrow> string \<Rightarrow> os_event list \<Rightarrow> (status + unit) \<times> os_event list" where
  "NodeUnstageVolume w staging tr =
     (if staging = [] then (Inl (InvalidArgument, ''staging target path is required''), tr)
      else
        let (resp, tr) = ask w (CleanupMountPoint staging) tr in
        case os_error resp of
          Some e \<Rightarrow> (Inl (Internal, ''unmounting staging path: '' @ e), tr)
        | None \<Rightarrow> (Inr (), tr))"

definition publish_options :: "publish_request \<Rightarrow> string list" where
  "publish_options req = ''bind'' # (if pq_readonly req then [''ro''] else [])"

definition NodePublishVolume ::
  "os \<Rightarrow> publish_request \<Rightarrow> os_event list \<Rightarrow> (status + unit) \<times> os_event list" where
  "NodePublishVolume w req tr =
     (if pq_staging req = [] \<or> pq_target req = [] then
        (Inl (InvalidArgument, ''staging and target paths are required''), tr)
      else
        let (resp, tr) = ask w (IsLikelyNotMountPoint (pq_target req)) tr in
        if is_mount_point resp then (Inr (), tr)
        else
          let (resp, tr) = ask w (MkdirAll (pq_target req) dirMode) tr in
          case os_error resp of
            Some e \<Rightarrow> (Inl (Internal, ''creating target path: '' @ e), tr)
          | None \<Rightarrow>
              let (resp, tr) = ask w (Mount (pq_staging req) (pq_target req) [] (publish_options req)) tr in
              case os_error resp of
                Some e \<Rightarrow> (Inl (Internal, ''bind-mounting into pod: '' @ e), tr)
              | None \<Rightarrow> (Inr (), tr))"

definition NodeUnpublishVolume :: "os \<Rightarrow> string \<Rightarrow> os_event list \<Rightarrow> (status + unit) \<times> os_event list" where
  "NodeUnpublishVolume w target tr =
     (if target = [] then (Inl (InvalidArgument, ''target path is required''), tr)
      else
        let (resp, tr) = ask w (CleanupMountPoint target) tr in
        case os_error resp of
          Some e \<Rightarrow> (Inl (Internal, ''unmounting target path: '' @ e), tr)
        | None \<Rightarrow> (Inr (), tr))"

section \<open>The wait ends\<close>

lemma ask_simps [simp]: "fst (ask w r tr) = w tr r" "snd (ask w r tr) = (r, w tr r) # tr"
  by (simp_all add: ask_def Let_def)

text \<open>
  A clock as Go documents it: readings never go back, and a timer fires no earlier than it was set
  for, unless the context is done first.
\<close>

definition honest_clock :: "os \<Rightarrow> (os_event list \<Rightarrow> int) \<Rightarrow> bool" where
  "honest_clock w now \<longleftrightarrow>
     (\<forall>h. w h Clock = OTime (now h)) \<and> (\<forall>h e. now h \<le> now (e # h)) \<and>
     (\<forall>h d. now h + d \<le> now ((Wait d, ODone) # h)) \<and>
     (\<forall>h d. w h (Wait d) \<in> insert ODone (range OCancelled))"

lemma honest_clockD:
  assumes "honest_clock w now"
  shows "w h Clock = OTime (now h)" "now h \<le> now (e # h)" "now h + d \<le> now ((Wait d, ODone) # h)"
    "w h (Wait d) = ODone \<or> (\<exists>c. w h (Wait d) = OCancelled c)"
  using assms unfolding honest_clock_def by blast+

lemma first_match_now: "honest_clock w now \<Longrightarrow> now tr \<le> now (snd (first_match w serial es tr))"
  by (induction es) (simp_all add: honest_clockD(2) split_beta Let_def)

lemma find_now:
  assumes "honest_clock w now"
  shows "now tr \<le> now (snd (findDeviceBySerial w serial tr))"
proof -
  have "now tr \<le> now ((ReadDir byIDDir, w tr (ReadDir byIDDir)) # tr)" by (rule honest_clockD(2) [OF assms])
  then show ?thesis
    using first_match_now [OF assms, of "(ReadDir byIDDir, w tr (ReadDir byIDDir)) # tr"]
    by (auto simp: findDeviceBySerial_def split_beta Let_def intro: order_trans split: sum.split)
qed

text \<open>One round of the loop, with the pairs taken apart.\<close>

lemma wait_loop_Suc:
  "wait_loop w (Suc fuel) serial deadline tr =
     (let res = fst (findDeviceBySerial w serial tr); t1 = snd (findDeviceBySerial w serial tr);
          t2 = (Clock, w t1 Clock) # t1; r = w t2 (Wait second); t3 = (Wait second, r) # t2
      in case res of
           Inr dev \<Rightarrow> Some (Inr dev, t1)
         | Inl e \<Rightarrow>
             if os_time (w t1 Clock) > deadline then Some (Inl e, t2)
             else case r of OCancelled c \<Rightarrow> Some (Inl c, t3) | _ \<Rightarrow> wait_loop w fuel serial deadline t3)"
  by (simp add: split_beta Let_def split: prod.split sum.split)

declare wait_loop.simps(2) [simp del]

lemma wait_loop_enough:
  assumes "honest_clock w now"
  shows "deadline < now tr + int n * second \<Longrightarrow> wait_loop w (Suc n) serial deadline tr \<noteq> None"
proof (induction n arbitrary: tr)
  case 0
  have "deadline < now (snd (findDeviceBySerial w serial tr))"
    using 0 find_now [OF assms, of tr serial] by simp
  then show ?case by (simp add: wait_loop_Suc Let_def honest_clockD(1) [OF assms] split: sum.split)
next
  case (Suc n)
  define t1 where "t1 = snd (findDeviceBySerial w serial tr)"
  define t2 where "t2 = (Clock, w t1 Clock) # t1"
  define t3 where "t3 = (Wait second, ODone) # t2"
  have "now tr \<le> now t1" unfolding t1_def by (rule find_now [OF assms])
  moreover have "now t1 \<le> now t2" unfolding t2_def by (rule honest_clockD(2) [OF assms])
  moreover have "now t2 + second \<le> now t3" unfolding t3_def by (rule honest_clockD(3) [OF assms])
  ultimately have "deadline < now t3 + int n * second" using Suc.prems by (simp add: algebra_simps)
  then have "wait_loop w (Suc n) serial deadline t3 \<noteq> None" by (rule Suc.IH)
  then show ?case
    using honest_clockD(4) [OF assms, of t2 second]
    unfolding wait_loop_Suc [of w "Suc n"] Let_def t1_def [symmetric] t2_def [symmetric]
    by (auto simp: t3_def split: sum.split)
qed

lemma wait_loop_more_fuel:
  "wait_loop w n serial deadline tr = Some r \<Longrightarrow> n \<le> m \<Longrightarrow> wait_loop w m serial deadline tr = Some r"
proof (induction n arbitrary: m tr)
  case (Suc n)
  then obtain m' where m: "m = Suc m'" "n \<le> m'" by (cases m) auto
  show ?case
    using Suc.prems(1) Suc.IH [OF _ m(2)] unfolding m(1) wait_loop_Suc Let_def
    by (auto split: sum.splits if_splits os_response.splits)
qed simp

lemma waitForDevice_enough:
  assumes "honest_clock w now" and "0 \<le> timeout" and "timeout < int n * second"
  shows "waitForDevice w (Suc n) serial timeout tr \<noteq> None"
proof -
  let ?tr = "(Clock, w tr Clock) # tr"
  have "now tr \<le> now ?tr" by (rule honest_clockD(2) [OF assms(1)])
  then have "os_time (w tr Clock) + timeout < now ?tr + int n * second"
    using assms(3) by (simp add: honest_clockD(1) [OF assms(1)])
  then show ?thesis using wait_loop_enough [OF assms(1)] by (simp add: waitForDevice_def split_beta Let_def)
qed

text \<open>32 rounds are enough for 30 seconds at a second each.\<close>

lemma waitForDevice_32:
  assumes "honest_clock w now" and "32 \<le> fuel"
  shows "\<exists>r. waitForDevice w 32 serial deviceWait tr = Some r \<and> waitForDevice w fuel serial deviceWait tr = Some r"
proof -
  have "waitForDevice w (Suc 31) serial deviceWait tr \<noteq> None"
    by (rule waitForDevice_enough [OF assms(1)]) (simp_all add: deviceWait_def second_def)
  then obtain r where r: "waitForDevice w 32 serial deviceWait tr = Some r" by auto
  then have "waitForDevice w fuel serial deviceWait tr = Some r"
    unfolding waitForDevice_def split_beta Let_def by (rule wait_loop_more_fuel [OF _ assms(2)])
  with r show ?thesis by blast
qed

text \<open>
  Claim C24. Staging a volume always answers: with a clock that runs, 32 rounds of looking for the
  device are enough, so the loop ends with the device, or with an error at the deadline or when the
  caller gives up, and a larger bound on the rounds changes nothing.
\<close>

theorem stage_answers:
  assumes "honest_clock w now" and "32 \<le> fuel"
  shows "NodeStageVolume w 32 req tr \<noteq> None \<and> NodeStageVolume w fuel req tr = NodeStageVolume w 32 req tr"
  using waitForDevice_32 [OF assms, of "stage_serial req" tr]
  by (auto simp: NodeStageVolume_def split: sum.split)

section \<open>What is mounted\<close>

text \<open>The last thing a successful lookup did was to resolve an entry that contains the serial.\<close>

lemma first_match_found:
  "fst (first_match w serial es tr) = Inr dev \<Longrightarrow>
     \<exists>e. contains e serial \<and> snd (first_match w serial es tr) = (EvalSymlinks (by_id e), OPath dev) # tr"
proof (induction es)
  case (Cons e es)
  then show ?case
    by (cases "w tr (EvalSymlinks (by_id e))") (auto simp: split_beta Let_def split: if_splits)
qed simp

lemma find_found:
  assumes "fst (findDeviceBySerial w serial tr) = Inr dev"
  shows "\<exists>e h. contains e serial \<and> snd (findDeviceBySerial w serial tr) = (EvalSymlinks (by_id e), OPath dev) # h"
  using assms first_match_found
  by (fastforce simp: findDeviceBySerial_def split_beta Let_def split: sum.splits)

lemma wait_loop_found:
  "wait_loop w n serial deadline tr = Some (Inr dev, tr') \<Longrightarrow>
     \<exists>e h. contains e serial \<and> tr' = (EvalSymlinks (by_id e), OPath dev) # h"
proof (induction n arbitrary: tr)
  case (Suc n)
  show ?case
    using Suc.prems find_found [of w serial tr dev] Suc.IH unfolding wait_loop_Suc Let_def
    by (auto split: sum.splits if_splits os_response.splits)
qed simp

text \<open>Looking for the device reads and waits; it mounts nothing.\<close>

definition looks :: "os_event list \<Rightarrow> os_request \<Rightarrow> bool" where
  "looks h r \<longleftrightarrow> r \<in> {ReadDir byIDDir, Clock, Wait second} \<union> range EvalSymlinks"

lemma looks_simps [simp]: "looks h (ReadDir byIDDir)" "looks h Clock" "looks h (Wait second)" "looks h (EvalSymlinks s)"
  by (simp_all add: looks_def)

lemma first_match_looks: "trace_ext looks tr (snd (first_match w serial es tr))"
  by (induction es) (auto simp: split_beta Let_def intro: trace_ext_one)

lemma find_looks: "trace_ext looks tr (snd (findDeviceBySerial w serial tr))"
proof -
  have "trace_ext looks tr ((ReadDir byIDDir, r) # tr)" for r by (rule trace_ext_one) simp
  then show ?thesis
    by (simp add: findDeviceBySerial_def split_beta Let_def trace_ext_trans [OF first_match_looks] split: sum.split)
qed

lemma wait_loop_looks: "wait_loop w n serial deadline tr = Some (res, tr') \<Longrightarrow> trace_ext looks tr tr'"
proof (induction n arbitrary: tr)
  case (Suc n)
  define t1 where "t1 = snd (findDeviceBySerial w serial tr)"
  have t1: "trace_ext looks tr t1" unfolding t1_def by (rule find_looks)
  have t2: "trace_ext looks tr ((Clock, a) # t1)" for a by (rule trace_ext_step [OF t1]) simp
  have t3: "trace_ext looks tr ((Wait second, b) # (Clock, a) # t1)" for a b by (rule trace_ext_step [OF t2]) simp
  have rest: "trace_ext looks tr tr'"
    if "wait_loop w n serial deadline ((Wait second, b) # (Clock, a) # t1) = Some (res, tr')" for a b
    by (rule trace_ext_trans [OF Suc.IH [OF that] t3])
  show ?case
    using Suc.prems t1 t2 t3 rest unfolding wait_loop_Suc Let_def t1_def [symmetric]
    by (auto split: sum.splits if_splits os_response.splits)
qed simp

lemma waitForDevice_looks: "waitForDevice w n serial timeout tr = Some (res, tr') \<Longrightarrow> trace_ext looks tr tr'"
proof -
  assume "waitForDevice w n serial timeout tr = Some (res, tr')"
  then have "trace_ext looks ((Clock, w tr Clock) # tr) tr'"
    by (auto simp: waitForDevice_def split_beta Let_def intro: wait_loop_looks)
  moreover have "trace_ext looks tr ((Clock, w tr Clock) # tr)" by (rule trace_ext_one) simp
  ultimately show ?thesis by (rule trace_ext_trans)
qed

lemma waitForDevice_found:
  "waitForDevice w n serial timeout tr = Some (Inr dev, tr') \<Longrightarrow>
     \<exists>e h. contains e serial \<and> tr' = (EvalSymlinks (by_id e), OPath dev) # h"
  unfolding waitForDevice_def split_beta Let_def by (rule wait_loop_found)

text \<open>
  The history in which a disk may be formatted: the directory was made, the path was not a mount
  point, and before that the device was resolved from an entry of \<open>/dev/disk/by-id\<close> that contains
  the serial.
\<close>

definition found_unmounted :: "string \<Rightarrow> string \<Rightarrow> string \<Rightarrow> os_event list \<Rightarrow> bool" where
  "found_unmounted serial path dev h \<longleftrightarrow>
     (\<exists>m chk e h'. h = (MkdirAll path dirMode, m) # (IsLikelyNotMountPoint path, chk) # (EvalSymlinks (by_id e), OPath dev) # h' \<and>
        os_error m = None \<and> \<not> is_mount_point chk \<and> contains e serial)"

fun stage_guard :: "stage_request \<Rightarrow> os_event list \<Rightarrow> os_request \<Rightarrow> bool" where
  "stage_guard req h (FormatAndMount dev path fs opts) =
     (path = sr_staging req \<and> fs = fsType \<and> opts = [] \<and> found_unmounted (stage_serial req) path dev h)"
| "stage_guard req h (Mount _ _ _ _) = False"
| "stage_guard req h (CleanupMountPoint _) = False"
| "stage_guard req h (MkdirAll path _) = (path = sr_staging req)"
| "stage_guard req h _ = True"

definition staged :: "stage_request \<Rightarrow> os_event list \<Rightarrow> bool" where
  "staged req tr \<longleftrightarrow> fst (hd tr) = IsLikelyNotMountPoint (sr_staging req) \<and> is_mount_point (snd (hd tr)) \<or>
     (\<exists>dev. fst (hd tr) = FormatAndMount dev (sr_staging req) fsType [] \<and> os_error (snd (hd tr)) = None)"

definition stage_ok :: "stage_request \<Rightarrow> os_event list \<Rightarrow> (status + unit) \<times> os_event list \<Rightarrow> bool" where
  "stage_ok req tr r \<longleftrightarrow> trace_ext (stage_guard req) tr (snd r) \<and> (fst r = Inr () \<longrightarrow> staged req (snd r))"

lemma looks_stage: "looks h r \<Longrightarrow> stage_guard req h r"
  by (auto simp: looks_def)

lemma stage_device_ok:
  assumes "tr = (EvalSymlinks (by_id e), OPath dev) # h" and "contains e (stage_serial req)"
  shows "stage_ok req tr (stage_device w req dev tr)"
proof -
  define chk where "chk = w tr (IsLikelyNotMountPoint (sr_staging req))"
  define t1 where "t1 = (IsLikelyNotMountPoint (sr_staging req), chk) # tr"
  define m where "m = w t1 (MkdirAll (sr_staging req) dirMode)"
  define t2 where "t2 = (MkdirAll (sr_staging req) dirMode, m) # t1"
  define f where "f = w t2 (FormatAndMount dev (sr_staging req) fsType [])"
  have e1: "trace_ext (stage_guard req) tr t1" unfolding t1_def by (rule trace_ext_one) simp
  have e2: "trace_ext (stage_guard req) tr t2" unfolding t2_def by (rule trace_ext_step [OF e1]) simp
  have e3: "trace_ext (stage_guard req) tr ((FormatAndMount dev (sr_staging req) fsType [], f) # t2)"
    if "os_error m = None" "\<not> is_mount_point chk"
    by (rule trace_ext_step [OF e2]) (use assms that in \<open>auto simp: found_unmounted_def t2_def t1_def\<close>)
  show ?thesis
    using e1 e2 e3
    unfolding stage_device_def Let_def ask_def chk_def [symmetric] prod.case t1_def [symmetric] m_def [symmetric]
      t2_def [symmetric] f_def [symmetric]
    by (auto simp: stage_ok_def staged_def t1_def split: option.split)
qed

text \<open>
  Claim C15. Staging mounts the right disk, once: whatever the operating system answers, a disk is
  formatted and mounted only at the staging path, only as ext4, only if its device was just resolved
  from an entry that contains the volume's serial, and only after the check that nothing is mounted
  there; nothing else is mounted or unmounted; and success is reported only if something was
  mounted there already or the mount succeeded.
\<close>

theorem stage_mounts_found_disk:
  "set_option (NodeStageVolume w fuel req tr) \<subseteq> {r. stage_ok req tr r}"
proof -
  have "stage_ok req tr r" if "NodeStageVolume w fuel req tr = Some r" for r
  proof (cases "waitForDevice w fuel (stage_serial req) deviceWait tr")
    case None
    then show ?thesis using that by (auto simp: NodeStageVolume_def stage_ok_def split: if_splits)
  next
    case (Some x)
    obtain res t where x: "x = (res, t)" by (cases x)
    have ext: "trace_ext (stage_guard req) tr t"
      by (rule trace_ext_mono [OF waitForDevice_looks [OF Some [unfolded x]] looks_stage])
    show ?thesis
    proof (cases res)
      case (Inl e)
      then show ?thesis using that Some x ext by (auto simp: NodeStageVolume_def stage_ok_def split: if_splits)
    next
      case (Inr dev)
      then obtain e h where "contains e (stage_serial req)" "t = (EvalSymlinks (by_id e), OPath dev) # h"
        using waitForDevice_found Some x by blast
      then have "stage_ok req t (stage_device w req dev t)" by (intro stage_device_ok)
      then have "stage_ok req tr (stage_device w req dev t)" using ext by (auto simp: stage_ok_def intro: trace_ext_trans)
      then show ?thesis using that Some x Inr by (auto simp: NodeStageVolume_def stage_ok_def split: if_splits)
    qed
  qed
  then show ?thesis by auto
qed

text \<open>
  A request that cannot be served is turned away untouched: staging answers
  InvalidArgument exactly if the volume ID or the staging path is missing or a raw block volume is
  asked for, and then the operating system is not asked for anything.
\<close>

theorem stage_rejects_iff:
  "(\<exists>m. NodeStageVolume w fuel req tr = Some (Inl (InvalidArgument, m), tr')) \<longleftrightarrow>
     (sr_volumeId req = [] \<or> sr_staging req = [] \<or> sr_block req) \<and> tr' = tr"
  by (auto simp: NodeStageVolume_def stage_device_def Let_def split_beta split: option.splits sum.splits if_splits)

section \<open>The disk of the host is the disk of the guest\<close>

lemma SerialFor_not_Nil [simp]: "SerialFor h \<noteq> []"
  using SerialFor_shape [of h] by auto

text \<open>
  Whatever reaches the plugin, it looks for the disk the host side plugged: for a volume
  of a PV that provisioning made for a host PVC, the plugin's driver name is the PV's, and the
  serial is that of the host PVC's hotplug request if the publish context is missing, if it is the
  attachment's metadata, and also if the volume's attributes are missing.
\<close>

theorem serials_agree:
  "case pv_csi (guestPVForClaim guest hostPVC c) of
     None \<Rightarrow> False
   | Some csi \<Rightarrow>
       csi_driver csi = fst (GetPluginInfo d) \<and>
       (\<lambda>(publish, attributes). stage_serial \<lparr>sr_volumeId = csi_handle csi, sr_staging = path, sr_block = False,
            sr_publishContext = publish, sr_volumeContext = attributes\<rparr>) `
         ({Map.empty, map_of [(''serial'', SerialFor hostPVC)]} \<times> {Map.empty, csi_attributes csi})
         = {SerialFor hostPVC}"
  by (auto simp: guestPVForClaim_def GetPluginInfo_def stage_serial_def serialContextKey_def at_def Let_def)

section \<open>Publishing\<close>

fun publish_guard :: "publish_request \<Rightarrow> os_event list \<Rightarrow> os_request \<Rightarrow> bool" where
  "publish_guard req h (Mount src dst fs opts) =
     (src = pq_staging req \<and> dst = pq_target req \<and> fs = [] \<and> (''ro'' \<in> set opts) = pq_readonly req \<and>
      ''bind'' \<in> set opts \<and>
      (\<exists>m chk h'. h = (MkdirAll dst dirMode, m) # (IsLikelyNotMountPoint dst, chk) # h' \<and>
         os_error m = None \<and> \<not> is_mount_point chk))"
| "publish_guard req h r = (r \<in> {IsLikelyNotMountPoint (pq_target req), MkdirAll (pq_target req) dirMode})"

text \<open>
  Claim C16. Publishing bind-mounts the staged volume at the pod's target and nothing else, read-only
  exactly if the request is, and only where nothing is mounted yet.
\<close>

theorem publish_mounts_guarded:
  "trace_ext (publish_guard req) tr (snd (NodePublishVolume w req tr))"
proof -
  have "trace_ext (publish_guard req) tr ((IsLikelyNotMountPoint (pq_target req), chk) # tr)" for chk
    by (rule trace_ext_one) simp
  moreover from this have "trace_ext (publish_guard req) tr
      ((MkdirAll (pq_target req) dirMode, m) # (IsLikelyNotMountPoint (pq_target req), chk) # tr)" for m chk
    by (rule trace_ext_step) simp
  ultimately show ?thesis
    by (auto simp: NodePublishVolume_def Let_def split_beta publish_options_def split: option.split
        intro!: trace_ext_step)
qed

text \<open>A node whose clock adds up the time waited, and that has no devices.\<close>

definition waited :: "os_event \<Rightarrow> int" where
  "waited e = (case fst e of Wait d \<Rightarrow> max 0 d | _ \<Rightarrow> 0)"

definition ex_now :: "os_event list \<Rightarrow> int" where
  "ex_now h = sum_list (map waited h)"

definition ex_os :: os where
  "ex_os h r = (case r of Clock \<Rightarrow> OTime (ex_now h) | ReadDir _ \<Rightarrow> ONames [] | _ \<Rightarrow> ODone)"

definition ex_request :: stage_request where
  "ex_request = \<lparr>sr_volumeId = ''t-pvc-1'', sr_staging = ''/staging'', sr_block = False,
     sr_publishContext = Map.empty, sr_volumeContext = Map.empty\<rparr>"

theorem stage_answers_witness:
  "NodeStageVolume ex_os 32 ex_request [] \<noteq> None \<and>
     NodeStageVolume ex_os 100 ex_request [] = NodeStageVolume ex_os 32 ex_request []"
proof -
  have "0 \<le> waited e" for e by (simp add: waited_def split: os_request.split)
  then have "honest_clock ex_os ex_now"
    by (simp add: honest_clock_def ex_os_def ex_now_def waited_def)
  then show ?thesis using stage_answers [of ex_os ex_now 100 ex_request "[]"] by simp
qed

end
