(* ===== verification/Startup.thy ===== *)
theory Startup
  imports GoFlags CsiNode Reconciler
begin

text \<open>
  The entry points: cmd/main.go, which is the controller or, as \<open>csi-node\<close>, the node plugin;
  \<open>Main\<close> and \<open>Serve\<close> of internal/csinode/driver.go; \<open>New\<close> of internal/kubevirt/hotplug.go; and
  \<open>SetupWithManager\<close> of internal/syncer/tenantcluster_controller.go.

  What third-party packages and the operating system do when the process starts is answered by a
  machine, from the history of all requests and the request.  A server that is never stopped is
  one whose answer is never given: the history up to its request is all there is to see.
\<close>

section \<open>The machine\<close>

text \<open>A REST config: what the loader found, and the fields that are set afterwards.\<close>

record rest_config =
  rc_loaded :: string
  rc_groupVersion :: "(string \<times> string) option"
  rc_apiPath :: string
  rc_withoutConversion :: bool

record manager_options =
  mo_metrics :: string
  mo_probe :: string
  mo_leaderElection :: bool
  mo_electionID :: string
  mo_cached :: "(kind \<times> string) list"

text \<open>What the builder of a controller is told: its kind, and the kinds it watches with their maps.\<close>

record controller_setup =
  cs_for :: kind
  cs_watches :: "(kind \<times> (obj_meta \<Rightarrow> (string \<times> string) list)) list"
  cs_reconciler :: reconciler

datatype boot_request =
    AddToScheme string
  | PrintErr string
  | PrintOut string
  | LogLine string
  | Remove string
  | Listen string string
  | ServeGRPC string driver
  | ParseSelector string
  | GetConfig
  | NewManager rest_config manager_options
  | NewDynamic rest_config
  | NewREST rest_config
  | NewController controller_setup
  | AddHealthz string
  | AddReadyz string
  | SetupSignalHandler
  | StartManager

text \<open>\<open>BAbsent e\<close> is an error that \<open>errors.Is\<close> takes for \<open>os.ErrNotExist\<close>.\<close>

datatype boot_response = BDone | BErr string | BAbsent string | BConfig rest_config

type_synonym boot_event = "boot_request \<times> boot_response"

record machine =
  m_answer :: "boot_event list \<Rightarrow> boot_request \<Rightarrow> boot_response"
  m_getenv :: "string \<Rightarrow> string"
  m_flags :: "string \<Rightarrow> flag_kind option"
  m_float :: float_product

definition syscall :: "machine \<Rightarrow> boot_request \<Rightarrow> boot_event list \<Rightarrow> boot_response \<times> boot_event list" where
  "syscall w r tr = (let a = m_answer w tr r in (a, (r, a) # tr))"

fun boot_error :: "boot_response \<Rightarrow> string option" where
  "boot_error (BErr e) = Some e"
| "boot_error (BAbsent e) = Some e"
| "boot_error _ = None"

fun boot_config :: "boot_response \<Rightarrow> string + rest_config" where
  "boot_config (BConfig c) = Inr c"
| "boot_config (BErr e) = Inl e"
| "boot_config (BAbsent e) = Inl e"
| "boot_config BDone = Inl bad_answer"

text \<open>How the process ends: \<open>main\<close> returns, exits, or panics.\<close>

datatype ending = Returned | Exit nat | Panicked string

definition say :: "machine \<Rightarrow> (string \<Rightarrow> boot_request) \<Rightarrow> string \<Rightarrow> boot_event list \<Rightarrow> boot_event list" where
  "say w channel line tr = snd (syscall w (channel line) tr)"

text \<open>\<open>utilruntime.Must\<close> on one request after the other.\<close>

fun must_all :: "machine \<Rightarrow> boot_request list \<Rightarrow> boot_event list \<Rightarrow> string option \<times> boot_event list" where
  "must_all w [] tr = (None, tr)"
| "must_all w (r # rs) tr =
     (let (a, tr) = syscall w r tr in
      case boot_error a of
        Some e \<Rightarrow> (Some e, tr)
      | None \<Rightarrow> must_all w rs tr)"

text \<open>A flag set with \<open>flag.ExitOnError\<close>.\<close>

definition stop_parsing :: "machine \<Rightarrow> parse_stop \<Rightarrow> boot_event list \<Rightarrow> ending \<times> boot_event list" where
  "stop_parsing w e tr =
     (case e of
        HelpWanted \<Rightarrow> (Exit 0, tr)
      | BadUsage m \<Rightarrow> (Exit 2, say w PrintErr m tr))"

section \<open>The node plugin\<close>

definition removal_error :: "boot_response \<Rightarrow> string option" where
  "removal_error a = (case a of BAbsent e \<Rightarrow> None | _ \<Rightarrow> boot_error a)"

definition serving_line :: "string \<Rightarrow> string \<Rightarrow> string" where
  "serving_line endpoint nodeName =
     ''csi-node: serving '' @ DriverName @ '' on '' @ endpoint @ '' as node '' @ quote nodeName"

definition listen_and_serve :: "machine \<Rightarrow> string \<Rightarrow> string \<Rightarrow> string \<Rightarrow> boot_event list \<Rightarrow> string option \<times> boot_event list" where
  "listen_and_serve w endpoint path nodeName tr =
     (let (a, tr) = syscall w (Listen ''unix'' path) tr in
      case boot_error a of
        Some e \<Rightarrow> (Some (''listening on '' @ path @ '': '' @ e), tr)
      | None \<Rightarrow>
          let d = \<lparr>nodeID = nodeName\<rparr>;
              tr = say w PrintOut (serving_line endpoint nodeName) tr;
              (a, tr) = syscall w (ServeGRPC path d) tr
          in (boot_error a, tr))"

definition Serve :: "machine \<Rightarrow> string \<Rightarrow> string \<Rightarrow> boot_event list \<Rightarrow> string option \<times> boot_event list" where
  "Serve w endpoint nodeName tr =
     (case cut_prefix endpoint ''unix://'' of
        None \<Rightarrow> (Some (''only unix:// endpoints are supported, got '' @ quote endpoint), tr)
      | Some path \<Rightarrow>
          let (a, tr) = syscall w (Remove path) tr in
          case removal_error a of
            Some e \<Rightarrow> (Some (''removing stale socket: '' @ e), tr)
          | None \<Rightarrow> listen_and_serve w endpoint path nodeName tr)"

definition csi_flags :: "string \<Rightarrow> flag_kind option" where
  "csi_flags = [''endpoint'' \<mapsto> StringFlag, ''node-name'' \<mapsto> StringFlag]"

definition default_endpoint :: string where "default_endpoint = ''unix:///csi/csi.sock''"
definition node_name_variable :: string where "node_name_variable = ''KUBE_NODE_NAME''"

definition csi_endpoint :: "settings \<Rightarrow> string" where
  "csi_endpoint st = flag_string default_endpoint (map_of st ''endpoint'')"

definition csi_node_name :: "machine \<Rightarrow> settings \<Rightarrow> string" where
  "csi_node_name w st = flag_string (m_getenv w node_name_variable) (map_of st ''node-name'')"

definition Main :: "machine \<Rightarrow> string list \<Rightarrow> boot_event list \<Rightarrow> ending \<times> boot_event list" where
  "Main w args tr =
     (case parse_flags (m_float w) csi_flags args [] of
        Inl e \<Rightarrow> stop_parsing w e tr
      | Inr st \<Rightarrow>
          if csi_node_name w st = [] then
            (Exit 1, say w PrintErr ''csi-node: --node-name (or KUBE_NODE_NAME) is required'' tr)
          else
            (case Serve w (csi_endpoint st) (csi_node_name w st) tr of
               (None, tr) \<Rightarrow> (Returned, tr)
             | (Some e, tr) \<Rightarrow> (Exit 1, say w PrintErr (''csi-node: '' @ e) tr)))"

section \<open>The controller\<close>

definition manager_flags :: "machine \<Rightarrow> string \<Rightarrow> flag_kind option" where
  "manager_flags w =
     (m_flags w)(''metrics-bind-address'' \<mapsto> StringFlag, ''health-probe-bind-address'' \<mapsto> StringFlag,
       ''leader-elect'' \<mapsto> BoolFlag, ''poll-interval'' \<mapsto> DurationFlag,
       ''csi-node-image'' \<mapsto> StringFlag, ''csi-registrar-image'' \<mapsto> StringFlag)"

definition options_of :: "settings \<Rightarrow> manager_options" where
  "options_of st = \<lparr>
     mo_metrics = flag_string '':8080'' (map_of st ''metrics-bind-address''),
     mo_probe = flag_string '':8081'' (map_of st ''health-probe-bind-address''),
     mo_leaderElection = flag_bool False (map_of st ''leader-elect''),
     mo_electionID = ''tenant-syncer.vcluster.the-it-dept.io'',
     mo_cached = [(KService, LabelTenantCluster), (KIngress, LabelTenantCluster)]\<rparr>"

definition reconciler_of :: "settings \<Rightarrow> reconciler" where
  "reconciler_of st = \<lparr>
     r_interval = flag_duration DefaultInterval (map_of st ''poll-interval''),
     r_factory = None, r_hot = True,
     r_images = \<lparr>
       img_Node = flag_string ''ghcr.io/the-it-dept/vcluster-private-cloud-controller-csi-node:latest''
         (map_of st ''csi-node-image''),
       img_Registrar = flag_string ''registry.k8s.io/sig-storage/csi-node-driver-registrar:v2.13.0''
         (map_of st ''csi-registrar-image'')\<rparr>,
     r_guests = []\<rparr>"

text \<open>The config of the subresource client: a copy with its own group, path and serializer.\<close>

definition subresource_config :: "rest_config \<Rightarrow> rest_config" where
  "subresource_config c = c\<lparr>rc_groupVersion := Some (''subresources.kubevirt.io'', ''v1''),
     rc_apiPath := ''/apis'', rc_withoutConversion := True\<rparr>"

definition New :: "machine \<Rightarrow> rest_config \<Rightarrow> boot_event list \<Rightarrow> string option \<times> boot_event list" where
  "New w cfg tr =
     (let (a, tr) = syscall w (NewDynamic cfg) tr in
      case boot_error a of
        Some e \<Rightarrow> (Some (''building dynamic client: '' @ e), tr)
      | None \<Rightarrow>
          let (a, tr) = syscall w (NewREST (subresource_config cfg)) tr in
          case boot_error a of
            Some e \<Rightarrow> (Some (''building subresource client: '' @ e), tr)
          | None \<Rightarrow> (None, tr))"

definition SetupWithManager :: "machine \<Rightarrow> reconciler \<Rightarrow> boot_event list \<Rightarrow> string option \<times> boot_event list" where
  "SetupWithManager w r tr =
     (let (a, tr) = syscall w (NewController \<lparr>cs_for = KTenantCluster,
         cs_watches = [(KService, mapHostObjectToTenant), (KIngress, mapHostObjectToTenant)],
         cs_reconciler = r\<rparr>) tr
      in (boot_error a, tr))"

definition launch :: "machine \<Rightarrow> boot_event list \<Rightarrow> ending \<times> boot_event list" where
  "launch w tr =
     (case must_all w [AddHealthz ''healthz'', AddReadyz ''readyz''] tr of
        (Some e, tr) \<Rightarrow> (Panicked e, tr)
      | (None, tr) \<Rightarrow>
          let tr = say w LogLine ''starting tenant syncer'' tr;
              (_, tr) = syscall w SetupSignalHandler tr;
              (a, tr) = syscall w StartManager tr
          in case boot_error a of
               Some e \<Rightarrow> (Exit 1, say w LogLine ''manager exited'' tr)
             | None \<Rightarrow> (Returned, tr))"

definition wire :: "machine \<Rightarrow> settings \<Rightarrow> rest_config \<Rightarrow> boot_event list \<Rightarrow> ending \<times> boot_event list" where
  "wire w st cfg tr =
     (case New w cfg tr of
        (Some e, tr) \<Rightarrow> (Exit 1, say w LogLine ''unable to build KubeVirt hotplug client'' tr)
      | (None, tr) \<Rightarrow>
          (case SetupWithManager w (reconciler_of st) tr of
             (Some e, tr) \<Rightarrow> (Exit 1, say w LogLine ''unable to create controller'' tr)
           | (None, tr) \<Rightarrow> launch w tr))"

text \<open>\<open>ctrl.GetConfigOrDie\<close> exits by itself when there is no config.\<close>

definition start_manager :: "machine \<Rightarrow> settings \<Rightarrow> boot_event list \<Rightarrow> ending \<times> boot_event list" where
  "start_manager w st tr =
     (let (a, tr) = syscall w GetConfig tr in
      case boot_config a of
        Inl e \<Rightarrow> (Exit 1, tr)
      | Inr cfg \<Rightarrow>
          let (a, tr) = syscall w (NewManager cfg (options_of st)) tr in
          (case boot_config a of
             Inl e \<Rightarrow> (Exit 1, say w LogLine ''unable to start manager'' tr)
           | Inr cfg' \<Rightarrow> wire w st cfg' tr))"

definition controller_main :: "machine \<Rightarrow> string list \<Rightarrow> boot_event list \<Rightarrow> ending \<times> boot_event list" where
  "controller_main w args tr =
     (case parse_flags (m_float w) (manager_flags w) args [] of
        Inl e \<Rightarrow> stop_parsing w e tr
      | Inr st \<Rightarrow>
          let (a, tr) = syscall w (ParseSelector LabelTenantCluster) tr in
          (case boot_error a of
             Some e \<Rightarrow> (Panicked e, tr)
           | None \<Rightarrow> start_manager w st tr))"

section \<open>The process\<close>

text \<open>\<open>init\<close> runs first, whatever the arguments are; \<open>args\<close> is \<open>os.Args\<close>.\<close>

definition schemes :: "boot_request list" where
  "schemes = map AddToScheme [''client-go'', ''vcluster.the-it-dept.io/v1alpha1'', ''gateway.networking.k8s.io/v1'']"

definition csi_mode :: "string list \<Rightarrow> bool" where
  "csi_mode args \<longleftrightarrow> length args > 1 \<and> args ! 1 = ''csi-node''"

definition main :: "machine \<Rightarrow> string list \<Rightarrow> boot_event list \<Rightarrow> ending \<times> boot_event list" where
  "main w args tr =
     (if csi_mode args then Main w (drop 2 args) tr else controller_main w (tl args) tr)"

definition process :: "machine \<Rightarrow> string list \<Rightarrow> ending \<times> boot_event list" where
  "process w args =
     (case must_all w schemes [] of
        (Some e, tr) \<Rightarrow> (Panicked e, tr)
      | (None, tr) \<Rightarrow> main w args tr)"

section \<open>What a process may ask, and when\<close>

definition answered :: "boot_event list \<Rightarrow> boot_request \<Rightarrow> bool" where
  "answered h r \<longleftrightarrow> (\<exists>a. (r, a) \<in> set h \<and> boot_error a = None)"

lemma answered_Cons [simp]:
  "answered ((r, a) # h) q \<longleftrightarrow> (q = r \<and> boot_error a = None) \<or> answered h q"
  by (auto simp: answered_def)

text \<open>\<open>removed path h\<close>: the request before was to remove \<open>path\<close>, which is gone.\<close>

definition removed :: "string \<Rightarrow> boot_event list \<Rightarrow> bool" where
  "removed path h \<longleftrightarrow> (\<exists>a h'. h = (Remove path, a) # h' \<and> removal_error a = None)"

lemma removed_Cons [simp]: "removed path ((r, a) # h) \<longleftrightarrow> r = Remove path \<and> removal_error a = None"
  by (auto simp: removed_def)

text \<open>
  What the node plugin may ask: it touches one socket, and serves on it under a node's name.  What
  the controller may ask: each client comes from the answers of the one before.
\<close>

fun node_guard :: "boot_event list \<Rightarrow> boot_request \<Rightarrow> bool" where
  "node_guard h (PrintErr line) = True"
| "node_guard h (PrintOut line) = True"
| "node_guard h (Remove path) = True"
| "node_guard h (Listen network path) \<longleftrightarrow> network = ''unix'' \<and> removed path h"
| "node_guard h (ServeGRPC path d) \<longleftrightarrow> nodeID d \<noteq> [] \<and> answered h (Listen ''unix'' path)"
| "node_guard h _ = False"

definition controller_ready :: "boot_event list \<Rightarrow> bool" where
  "controller_ready h \<longleftrightarrow> (\<exists>s. answered h (NewController s) \<and> cs_for s = KTenantCluster \<and>
     cs_watches s = [(KService, mapHostObjectToTenant), (KIngress, mapHostObjectToTenant)])"

definition managed :: "boot_event list \<Rightarrow> rest_config \<Rightarrow> bool" where
  "managed h cfg \<longleftrightarrow> (\<exists>c opts. (NewManager c opts, BConfig cfg) \<in> set h)"

fun controller_guard :: "boot_event list \<Rightarrow> boot_request \<Rightarrow> bool" where
  "controller_guard h (PrintErr line) = True"
| "controller_guard h (LogLine line) = True"
| "controller_guard h (ParseSelector s) \<longleftrightarrow> s = LabelTenantCluster"
| "controller_guard h GetConfig \<longleftrightarrow> answered h (ParseSelector LabelTenantCluster)"
| "controller_guard h (NewManager cfg opts) \<longleftrightarrow> (GetConfig, BConfig cfg) \<in> set h \<and>
     mo_cached opts = [(KService, LabelTenantCluster), (KIngress, LabelTenantCluster)]"
| "controller_guard h (NewDynamic cfg) \<longleftrightarrow> managed h cfg"
| "controller_guard h (NewREST cfg) \<longleftrightarrow> (\<exists>c. answered h (NewDynamic c) \<and> cfg = subresource_config c)"
| "controller_guard h (NewController s) \<longleftrightarrow> (\<exists>c. answered h (NewREST c))"
| "controller_guard h (AddHealthz n) \<longleftrightarrow> controller_ready h"
| "controller_guard h (AddReadyz n) \<longleftrightarrow> controller_ready h"
| "controller_guard h SetupSignalHandler = True"
| "controller_guard h StartManager \<longleftrightarrow>
     controller_ready h \<and> answered h (AddHealthz ''healthz'') \<and> answered h (AddReadyz ''readyz'')"
| "controller_guard h _ = False"

fun scheme_request :: "boot_request \<Rightarrow> bool" where
  "scheme_request (AddToScheme s) = True"
| "scheme_request _ = False"

definition schemes_known :: "boot_event list \<Rightarrow> bool" where
  "schemes_known h \<longleftrightarrow> list_all (answered h) schemes"

definition boot_guard :: "string list \<Rightarrow> boot_event list \<Rightarrow> boot_request \<Rightarrow> bool" where
  "boot_guard args h r \<longleftrightarrow> scheme_request r \<or>
     (schemes_known h \<and> (if csi_mode args then node_guard h r else controller_guard h r))"

lemma syscall_simps [simp]: "syscall w r tr = (m_answer w tr r, (r, m_answer w tr r) # tr)"
  by (simp add: syscall_def Let_def)

lemma say_simps [simp]: "say w channel line tr = (channel line, m_answer w tr (channel line)) # tr"
  by (simp add: say_def)

lemma controller_ready_Cons [simp]: "controller_ready tr \<Longrightarrow> controller_ready ((r, a) # tr)"
  by (auto simp: controller_ready_def)

lemma schemes_known_Cons [simp]: "schemes_known tr \<Longrightarrow> schemes_known ((r, a) # tr)"
  by (auto simp: schemes_known_def list_all_iff)

lemma stop_parsing_steps:
  "trace_ext node_guard tr (snd (stop_parsing w e tr))" "trace_ext controller_guard tr (snd (stop_parsing w e tr))"
  by (simp_all add: stop_parsing_def trace_ext_one split: parse_stop.split)

lemma listen_and_serve_steps:
  assumes "removed path tr" and "n \<noteq> []"
  shows "trace_ext node_guard tr (snd (listen_and_serve w endpoint path n tr))"
  using assms by (auto simp: listen_and_serve_def Let_def intro!: trace_ext_step split: option.split)

lemma Serve_steps:
  assumes "n \<noteq> []"
  shows "trace_ext node_guard tr (snd (Serve w endpoint n tr))"
proof (cases "cut_prefix endpoint ''unix://''")
  case (Some path)
  let ?a = "m_answer w tr (Remove path)"
  have one: "trace_ext node_guard tr ((Remove path, ?a) # tr)" by (simp add: trace_ext_one)
  then have "trace_ext node_guard tr (snd (listen_and_serve w endpoint path n ((Remove path, ?a) # tr)))"
    if "removal_error ?a = None"
    using trace_ext_trans [OF listen_and_serve_steps [OF _ assms] one] that by simp
  with one Some show ?thesis by (simp add: Serve_def split: option.split)
qed (simp add: Serve_def)

lemma Main_steps: "trace_ext node_guard tr (snd (Main w as tr))"
proof (cases "parse_flags (m_float w) csi_flags as []")
  case (Inr st)
  obtain e tr' where s: "Serve w (csi_endpoint st) (csi_node_name w st) tr = (e, tr')" by fastforce
  then have "csi_node_name w st \<noteq> [] \<Longrightarrow> trace_ext node_guard tr tr'"
    using Serve_steps by (metis snd_conv)
  with Inr s show ?thesis
    by (cases e) (auto simp: Main_def trace_ext_one intro: trace_ext_step)
qed (simp add: Main_def stop_parsing_steps)

lemma launch_steps:
  assumes "controller_ready tr"
  shows "trace_ext controller_guard tr (snd (launch w tr))"
  using assms by (auto simp: launch_def Let_def intro!: trace_ext_step split: option.split)

lemma SetupWithManager_steps:
  assumes "answered tr (NewREST c)" and "SetupWithManager w r tr = (e, tr')"
  shows "trace_ext controller_guard tr tr'" "e = None \<Longrightarrow> controller_ready tr'"
  using assms by (auto simp: SetupWithManager_def Let_def controller_ready_def intro!: trace_ext_step)

lemma New_steps:
  assumes "managed tr cfg" and "New w cfg tr = (e, tr')"
  shows "trace_ext controller_guard tr tr'" "e = None \<Longrightarrow> answered tr' (NewREST (subresource_config cfg))"
  using assms by (auto simp: New_def Let_def intro!: trace_ext_step split: option.splits)

lemma wire_steps:
  assumes "managed tr cfg"
  shows "trace_ext controller_guard tr (snd (wire w st cfg tr))"
proof -
  obtain e tr1 where n: "New w cfg tr = (e, tr1)" by fastforce
  obtain e' tr2 where s: "SetupWithManager w (reconciler_of st) tr1 = (e', tr2)" by fastforce
  note new = New_steps [OF assms n]
  show ?thesis
  proof (cases e)
    case None
    note ctl = SetupWithManager_steps [OF new(2) [OF None] s]
    have t2: "trace_ext controller_guard tr tr2" using trace_ext_trans [OF ctl(1) new(1)] .
    show ?thesis
    proof (cases e')
      case None': None
      then show ?thesis
        using n s None trace_ext_trans [OF launch_steps [OF ctl(2)] t2] by (simp add: wire_def)
    qed (use n s None t2 in \<open>auto simp: wire_def intro: trace_ext_step\<close>)
  qed (use n new(1) in \<open>auto simp: wire_def intro: trace_ext_step\<close>)
qed

lemma boot_config_Inr: "boot_config a = Inr c \<Longrightarrow> a = BConfig c"
  by (cases a) simp_all

lemma start_manager_steps:
  assumes "answered tr (ParseSelector LabelTenantCluster)"
  shows "trace_ext controller_guard tr (snd (start_manager w st tr))"
proof -
  let ?tr1 = "(GetConfig, m_answer w tr GetConfig) # tr"
  have one: "trace_ext controller_guard tr ?tr1" using assms by (simp add: trace_ext_one)
  show ?thesis
  proof (cases "boot_config (m_answer w tr GetConfig)")
    case (Inr cfg)
    let ?m = "NewManager cfg (options_of st)"
    let ?tr2 = "(?m, m_answer w ?tr1 ?m) # ?tr1"
    have two: "trace_ext controller_guard tr ?tr2"
      using trace_ext_step [OF one, of ?m] Inr boot_config_Inr by (simp add: options_of_def)
    show ?thesis
    proof (cases "boot_config (m_answer w ?tr1 ?m)")
      case (Inr cfg')
      then have "managed ?tr2 cfg'" using boot_config_Inr by (auto simp: managed_def)
      from trace_ext_trans [OF wire_steps [OF this] two] show ?thesis
        using \<open>boot_config (m_answer w tr GetConfig) = Inr cfg\<close> Inr by (simp add: start_manager_def)
    qed (use Inr two in \<open>auto simp: start_manager_def intro: trace_ext_step\<close>)
  qed (use one in \<open>simp add: start_manager_def\<close>)
qed

lemma controller_main_steps: "trace_ext controller_guard tr (snd (controller_main w as tr))"
proof (cases "parse_flags (m_float w) (manager_flags w) as []")
  case (Inr st)
  let ?r = "ParseSelector LabelTenantCluster"
  let ?tr1 = "(?r, m_answer w tr ?r) # tr"
  have one: "trace_ext controller_guard tr ?tr1" by (simp add: trace_ext_one)
  have "boot_error (m_answer w tr ?r) = None \<Longrightarrow> answered ?tr1 ?r" by simp
  from trace_ext_trans [OF start_manager_steps [OF this] one] one Inr show ?thesis
    by (simp add: controller_main_def split: option.split)
qed (simp add: controller_main_def stop_parsing_steps)

section \<open>The whole process\<close>

lemma must_all_answered:
  assumes "must_all w rs tr = (None, tr')"
  shows "list_all (answered tr') rs \<and> set tr \<subseteq> set tr'"
  using assms
proof (induction rs arbitrary: tr)
  case (Cons r rs)
  then have e: "boot_error (m_answer w tr r) = None"
    and m: "must_all w rs ((r, m_answer w tr r) # tr) = (None, tr')"
    by (auto split: option.splits)
  from Cons.IH [OF m] e show ?case by (auto simp: answered_def)
qed simp

lemma must_all_ext:
  assumes "\<And>h r. r \<in> set rs \<Longrightarrow> Q h r"
  shows "trace_ext Q tr (snd (must_all w rs tr))"
  using assms
proof (induction rs arbitrary: tr)
  case (Cons r rs)
  have one: "trace_ext Q tr ((r, m_answer w tr r) # tr)" using Cons.prems by (simp add: trace_ext_one)
  have "trace_ext Q ((r, m_answer w tr r) # tr) (snd (must_all w rs ((r, m_answer w tr r) # tr)))"
    using Cons by simp
  from trace_ext_trans [OF this one] one show ?case by (simp split: option.split)
qed simp

lemma boot_guard_ext:
  assumes "trace_ext (if csi_mode args then node_guard else controller_guard) tr tr'" and "schemes_known tr"
  shows "trace_ext (boot_guard args) tr tr'"
proof -
  have "trace_ext (boot_guard args) tr tr' \<and> schemes_known tr'"
    using assms
  proof (induction rule: trace_ext.induct)
    case (trace_ext_step t t' r resp)
    then have "boot_guard args t' r" by (auto simp: boot_guard_def split: if_splits)
    with trace_ext_step show ?case by (auto intro: trace_ext.trace_ext_step)
  qed simp
  then show ?thesis ..
qed

text \<open>
  Claim C17. A process asks nothing before all three schemes are registered.  Started as \<open>csi-node\<close> it asks
  nothing of an API server, reads no credential and starts no manager: all it does is to remove the one
  stale socket, to listen on it right after that, and to serve there if that worked, under a node's name
  that is not empty.  Otherwise it is the controller: its cache is restricted to its own label, the
  manager is built from the loaded config, the two KubeVirt clients from the manager's, the second from
  a copy, the controller after both, with its two watches routed by the ownership labels, and nothing is
  started before the controller and both probes are in place.
\<close>

theorem process_guarded:
  "trace_ext (boot_guard args) [] (snd (process w args))"
proof -
  obtain e tr where m: "must_all w schemes [] = (e, tr)" by fastforce
  have "boot_guard args h r" if "r \<in> set schemes" for h r
    using that by (auto simp: boot_guard_def schemes_def)
  then have i: "trace_ext (boot_guard args) [] tr"
    using must_all_ext [of schemes "boot_guard args" "[]" w] m by simp
  show ?thesis
  proof (cases e)
    case None
    then have "schemes_known tr" using must_all_answered m by (simp add: schemes_known_def)
    moreover have "trace_ext (if csi_mode args then node_guard else controller_guard) tr (snd (main w args tr))"
      by (simp add: main_def Main_steps controller_main_steps)
    ultimately show ?thesis
      using trace_ext_trans [OF boot_guard_ext i] m None by (simp add: process_def)
  qed (use m i in \<open>simp add: process_def\<close>)
qed

text \<open>\<open>main\<close> returns only after the server it is there for was stopped without an error.\<close>

lemma Serve_Returned:
  assumes "Serve w endpoint n tr = (None, tr')"
  shows "\<exists>path d a h. tr' = (ServeGRPC path d, a) # h \<and> boot_error a = None"
  using assms by (auto simp: Serve_def listen_and_serve_def Let_def split: option.splits)

lemma launch_Returned:
  assumes "launch w tr = (Returned, tr')"
  shows "\<exists>a h. tr' = (StartManager, a) # h \<and> boot_error a = None"
  using assms by (auto simp: launch_def Let_def split: option.splits prod.splits)

lemma controller_main_Returned:
  assumes "controller_main w as tr = (Returned, tr')"
  shows "\<exists>a h. tr' = (StartManager, a) # h \<and> boot_error a = None"
proof -
  obtain tr0 where "launch w tr0 = (Returned, tr')"
    using assms
    by (auto simp: controller_main_def start_manager_def wire_def stop_parsing_def Let_def
        split: sum.splits parse_stop.splits option.splits prod.splits)
  then show ?thesis by (rule launch_Returned)
qed

theorem returns_after_server:
  assumes "process w args = (Returned, tr)"
  shows "\<exists>r a h. tr = (r, a) # h \<and> boot_error a = None \<and>
    (if csi_mode args then \<exists>path d. r = ServeGRPC path d else r = StartManager)"
proof -
  obtain tr0 where "main w args tr0 = (Returned, tr)"
    using assms by (auto simp: process_def split: option.splits prod.splits)
  then show ?thesis
    using controller_main_Returned [of w "tl args" tr0 tr] Serve_Returned
    by (fastforce simp: main_def Main_def stop_parsing_def
        split: if_splits sum.splits parse_stop.splits option.splits prod.splits)
qed

section \<open>The pod that the syncer deploys\<close>

definition csi_dir :: string where "csi_dir = ''/csi''"
definition socket_file :: string where "socket_file = ''/csi.sock''"

text \<open>The field of a pod on the node \<open>node\<close> that an environment entry may refer to.\<close>

definition pod_field :: "string \<Rightarrow> string \<Rightarrow> string" where
  "pod_field node f = (if f = ''spec.nodeName'' then node else [])"

lemma plugin_args_parse:
  "parse_flags float csi_flags (drop 1 (ct_args (node_container images))) [] =
     Inr [(''endpoint'', VString (''unix://'' @ csi_dir @ socket_file))]"
  by (simp add: node_container_def parse_flags.simps split_flag_def csi_flags_def assign_def
      csi_dir_def socket_file_def)

lemma must_all_fine:
  assumes "\<And>h r. r \<in> set rs \<Longrightarrow> boot_error (m_answer w h r) = None"
  shows "fst (must_all w rs tr) = None"
  using assms by (induction rs arbitrary: tr) auto

lemma Serve_serves:
  assumes "removal_error (m_answer w tr (Remove path)) = None"
    and "\<And>h. boot_error (m_answer w h (Listen ''unix'' path)) = None"
  shows "\<exists>a h. snd (Serve w (''unix://'' @ path) n tr) = (ServeGRPC path \<lparr>nodeID = n\<rparr>, a) # h"
  using assms by (simp add: Serve_def listen_and_serve_def Let_def split: option.split)

lemma plugin_process:
  assumes "node \<noteq> []" and "m_getenv w node_name_variable = node"
    and "\<And>h s. boot_error (m_answer w h (AddToScheme s)) = None"
    and "\<And>h p. removal_error (m_answer w h (Remove p)) = None"
    and "\<And>h p. boot_error (m_answer w h (Listen ''unix'' p)) = None"
  shows "\<exists>a. (ServeGRPC (csi_dir @ socket_file) \<lparr>nodeID = node\<rparr>, a)
    \<in> set (snd (process w (binary # ct_args (node_container images))))"
proof -
  let ?args = "binary # ct_args (node_container images)"
  obtain tr where i: "must_all w schemes [] = (None, tr)"
    using must_all_fine [of schemes w "[]"] assms(3) by (fastforce simp: schemes_def)
  have c: "csi_mode ?args" "drop 2 ?args = drop 1 (ct_args (node_container images))"
    by (simp_all add: csi_mode_def node_container_def)
  obtain e a h where s: "Serve w (''unix://'' @ csi_dir @ socket_file) node tr =
      (e, (ServeGRPC (csi_dir @ socket_file) \<lparr>nodeID = node\<rparr>, a) # h)"
    using Serve_serves [OF assms(4,5)] by (metis prod.collapse)
  have "csi_endpoint [(''endpoint'', VString t)] = t" "csi_node_name w [(''endpoint'', VString t)] = node" for t
    using assms(2) by (simp_all add: csi_endpoint_def csi_node_name_def)
  then show ?thesis
    using i c s assms(1) by (cases e) (auto simp: process_def main_def Main_def plugin_args_parse simp del: One_nat_def)
qed

text \<open>
  Claim C18. The two halves fit.  The pod the syncer deploys in a guest, run on a node where the schemes, the
  removal and the listening raise no error, serves the node service under that node's name, which is the
  identity it reports.  The socket lies in the directory it shares with the registrar, the registrar
  dials it there, and announces to the kubelet the same file as the node sees it.
\<close>

theorem plugin_pod_serves:
  assumes "node \<noteq> []"
    and "\<forall>(v, f) \<in> set (ct_fieldEnv (node_container images)). m_getenv w v = pod_field node f"
    and "\<And>h s. boot_error (m_answer w h (AddToScheme s)) = None"
    and "\<And>h p. removal_error (m_answer w h (Remove p)) = None"
    and "\<And>h p. boot_error (m_answer w h (Listen ''unix'' p)) = None"
  shows "\<exists>a d dir file v host. (ServeGRPC (dir @ file) d, a)
      \<in> set (snd (process w (binary # ct_args (node_container images)))) \<and>
    NodeGetInfo d = node \<and>
    mount v dir \<in> set (ct_mounts (node_container images)) \<inter> set (ct_mounts (registrar_container images)) \<and>
    host_dir v host ''DirectoryOrCreate'' \<in> set (ps_hostPathVolumes (plugin_pod images)) \<and>
    ct_args (registrar_container images) =
      [''--csi-address='' @ dir @ file, ''--kubelet-registration-path='' @ host @ file]"
proof -
  have "m_getenv w node_name_variable = node"
    using assms(2) by (simp add: node_container_def node_name_variable_def pod_field_def)
  then obtain a where a: "(ServeGRPC (csi_dir @ socket_file) \<lparr>nodeID = node\<rparr>, a)
      \<in> set (snd (process w (binary # ct_args (node_container images))))"
    using plugin_process [OF assms(1) _ assms(3-5)] by blast
  let ?host = "''/var/lib/kubelet/plugins/'' @ DriverName"
  show ?thesis
  proof (intro exI conjI)
    show "(ServeGRPC (csi_dir @ socket_file) \<lparr>nodeID = node\<rparr>, a)
      \<in> set (snd (process w (binary # ct_args (node_container images))))" by (rule a)
    show "NodeGetInfo \<lparr>nodeID = node\<rparr> = node" by (simp add: NodeGetInfo_def)
    show "mount ''plugin-dir'' csi_dir \<in> set (ct_mounts (node_container images)) \<inter> set (ct_mounts (registrar_container images))"
      by (simp add: node_container_def registrar_container_def csi_dir_def)
    show "host_dir ''plugin-dir'' ?host ''DirectoryOrCreate'' \<in> set (ps_hostPathVolumes (plugin_pod images))"
      by (simp add: plugin_pod_def)
    show "ct_args (registrar_container images) = [''--csi-address='' @ csi_dir @ socket_file,
      ''--kubelet-registration-path='' @ ?host @ socket_file]"
      by (simp add: registrar_container_def csi_dir_def socket_file_def)
  qed
qed

definition ex_machine :: machine where
  "ex_machine = \<lparr>
     m_answer = (\<lambda>h r. case r of Remove p \<Rightarrow> BAbsent ''no such file'' | _ \<Rightarrow> BDone),
     m_getenv = (\<lambda>v. if v = node_name_variable then ''worker-1'' else []),
     m_flags = (\<lambda>n. None), m_float = (\<lambda>f u k. 0)\<rparr>"

theorem plugin_pod_serves_witness:
  "\<exists>a d dir file v host. (ServeGRPC (dir @ file) d, a)
      \<in> set (snd (process ex_machine (''/tenant-syncer'' # ct_args (node_container \<lparr>img_Node = ''n'', img_Registrar = ''r''\<rparr>)))) \<and>
    NodeGetInfo d = ''worker-1'' \<and>
    mount v dir \<in> set (ct_mounts (node_container \<lparr>img_Node = ''n'', img_Registrar = ''r''\<rparr>)) \<inter>
      set (ct_mounts (registrar_container \<lparr>img_Node = ''n'', img_Registrar = ''r''\<rparr>)) \<and>
    host_dir v host ''DirectoryOrCreate'' \<in> set (ps_hostPathVolumes (plugin_pod \<lparr>img_Node = ''n'', img_Registrar = ''r''\<rparr>)) \<and>
    ct_args (registrar_container \<lparr>img_Node = ''n'', img_Registrar = ''r''\<rparr>) =
      [''--csi-address='' @ dir @ file, ''--kubelet-registration-path='' @ host @ file]"
  by (rule plugin_pod_serves)
    (simp_all add: ex_machine_def node_container_def node_name_variable_def pod_field_def removal_error_def)

text \<open>A controller with the arguments of the chart: it starts, and its settings are the ones given.\<close>

definition ex_host :: machine where
  "ex_host = ex_machine\<lparr>m_answer := \<lambda>h r. case r of
     GetConfig \<Rightarrow> BConfig \<lparr>rc_loaded = ''in-cluster'', rc_groupVersion = None, rc_apiPath = [], rc_withoutConversion = False\<rparr>
   | NewManager c opts \<Rightarrow> BConfig c
   | _ \<Rightarrow> BDone\<rparr>"

fun reconcilers :: "boot_event list \<Rightarrow> reconciler list" where
  "reconcilers [] = []"
| "reconcilers ((NewController s, a) # h) = cs_reconciler s # reconcilers h"
| "reconcilers (_ # h) = reconcilers h"

lemma ex_host_starts:
  "let (e, tr) = process ex_host [''/tenant-syncer'', ''--poll-interval=1m30s'', ''-csi-node-image'', ''n:1'', ''--leader-elect'']
   in e = Returned \<and> map r_interval (reconcilers tr) = [90 * second] \<and>
      map (img_Node \<circ> r_images) (reconcilers tr) = [''n:1'']"
  by code_simp

end
