(* ===== verification/Spec2Isabelle.thy ===== *)
theory Spec2Isabelle
  imports Examples Fleet SyncStatus Kubevirt Startup
begin

text \<open>
  \<^bold>\<open>The tenant syncer of vcluster-private-cloud-controller\<close>

  The program is a Kubernetes controller.  A \<open>TenantCluster\<close> registers a guest cluster with the
  host cluster.  For each of them the reconciler builds a client into the guest and runs one
  \<^emph>\<open>pass\<close>: it lists the guest's Services, Ingresses, Gateways, HTTPRoutes and, where storage is on,
  its PVCs and VolumeAttachments; maps each to the host object that serves it, or to a refusal;
  creates, updates and deletes host objects until they agree; plugs volumes into the guest's
  VMs through KubeVirt and unplugs them; and writes addresses, conditions and finalizers back.  A
  node plugin in the guest finds a plugged disk by its serial, formats and mounts it.

  \<^bold>\<open>How the code is modelled.\<close>  A guest or host object is a record with the fields the code reads or
  writes, a string is a list of characters, an \<open>int\<close> of Go that only counts is an integer; the
  words of SHA-256 are \<open>32 word\<close>.  A Go map that is ranged over is an association list with distinct
  keys, and \<open>go_range\<close> visits it in any order.  A guest object that several parts of a pass share by
  pointer lives in a heap (\<open>p_heap\<close>) under its reference, and is changed there in place.  Errors
  are values: \<open>Inl\<close> of a sum, or an answer \<open>RErr\<close> of a server.

  What a server answers is a parameter: an \<open>env\<close> maps the history of all calls so far and a request
  to a response, so that nothing is assumed of the API servers, KubeVirt, or what others do to the
  objects meanwhile.  The history is a field of the state (\<open>p_trace\<close>, latest event first), and a
  safety property says that every request on it meets a guard that may speak of the history
  before it.  Cached and uncached readers of the code answer alike here: both may answer anything.
  Functions of controller-runtime (finalizers, conditions) are fields of \<open>env\<close>; where a
  property needs what they are documented to do, that is a hypothesis.

  \<^bold>\<open>Theories\<close>, with the file under src/ each of them models.

  \<^item> \<open>Prelude\<close>, \<open>GoStrings\<close>, \<open>NetIP\<close>, \<open>Sha256\<close>: Go maps and their order, the functions of strings,
    strconv, fmt, net and crypto/sha256 that are used.
  \<^item> \<open>Objects\<close>: api/v1alpha1/tenantcluster_types.go with its accessors, and the Kubernetes types.
  \<^item> \<open>Hostname\<close>: internal/hostname/hostname.go, \<open>Allowed\<close> and \<open>Refusal\<close>; proved equivalent to
    the documented rule \<open>covers\<close>.
  \<^item> \<open>Ownership\<close>: internal/syncer/ownership.go and the names of storage.go: labels, \<open>ownedBy\<close>,
    \<open>HostObjectName\<close>, \<open>HostPVCName\<close>, \<open>VolumeName\<close>, \<open>SerialFor\<close>.
  \<^item> \<open>ServiceMap\<close>, \<open>IngressMap\<close>, \<open>GatewayMap\<close>, \<open>StorageMap\<close>: service.go, ingress.go, gateway.go, storage.go
    of internal/syncer, the pure mappings: exactly when an object is carried, what of it is, and
    that no name, host, backend or mirror reference of the guest crosses unrewritten.  The backendRef of an
    ExternalAuth filter and the API group of a reference do (\<open>mapHTTPRoute_filters_cross_verbatim\<close>).
  \<^item> \<open>Effects\<close>, \<open>PassState\<close>: requests, responses, traces with guards; the \<open>pass\<close> struct of pass.go with
    its storage state, and the locale \<open>guarded_phase\<close> of phases that keep an invariant and a guard.
  \<^item> \<open>Gather\<close>, \<open>AddressLimit\<close>, \<open>Apply\<close>, \<open>Prune\<close>: the phases of pass.go.  \<open>apply_target\<close> and
    \<open>prune_target\<close> are the contracts of one host kind, interpreted on the four kinds; \<open>GatherInv\<close>
    has the invariant of the gathers, \<open>Refusals\<close> where refusals may be recorded.
  \<^item> \<open>WriteBack\<close>: writeback.go: finalizers and their release, statuses, conditions, events.
  \<^item> \<open>StoragePass\<close>, \<open>StorageInv\<close>: storage_pass.go: gather, provisioning, attachments, plugin objects, prune,
    the ordered teardown of a PVC, the sweep of orphaned VM volumes; what they may ask and when.
  \<^item> \<open>Pass\<close>: \<open>run\<close> of pass.go, the order of the phases, and the guard of a whole pass.
  \<^item> \<open>HostSync\<close>: the refinement: on a host that does what it is told (\<open>honest_host\<close>, an idealisation: reads
    and lists are current, creates of absent names succeed, a delete removes an object without finalizers
    and marks one that has some), a pass implements \<open>sync_host\<close>, one function from the desired state
    and the objects there before to the objects after.
  \<^item> \<open>Convergence\<close>: on such a host, which completes what it is sent (\<open>fills_in\<close>: types, ports, node ports,
    families, defaults of specs), a second pass with the same desired state changes nothing.
  \<^item> \<open>Teardown\<close>, \<open>TeardownInv\<close>: the deletion of a tenant in storage_pass.go and tenantcluster_controller.go.
  \<^item> \<open>TeardownSync\<close>: the refinement of a teardown on a host that does what it is told: exactly the
    tenant's objects are deleted when its TenantCluster is let go (those with finalizers are terminating
    then, since the code does not list again), and unhindered it is let go.
  \<^item> \<open>Fleet\<close>: many tenants on one host, as a step relation of their reconciliations: none of one tenant touches an
    object of another.  No \<open>honest_host\<close> here: any request may fail, and what is assumed concerns the one
    object that is watched (\<open>shows_object\<close>, \<open>changed_by_touch\<close>).
  \<^item> \<open>Reconciler\<close>, \<open>ReconcilerInv\<close>, \<open>SyncStatus\<close>: tenantcluster_controller.go: \<open>Reconcile\<close>, the cache of
    guest clients, conditions and status, host families, teardown and release of the finalizer.  Where
    Go sums over its whole map of refusals, \<open>count_refusals\<close> goes through the guest objects of the pass;
    \<open>refusals_of_run\<close> shows that the two agree after every pass.
  \<^item> \<open>Kubevirt\<close>: internal/kubevirt/hotplug.go: request bodies as JSON trees, and the merge of VM specs,
    queued requests and VMI statuses into the volume states a pass reads.
  \<^item> \<open>CsiNode\<close>: internal/csinode: the node and identity services, the device lookup and its wait.
  \<^item> \<open>GoFlags\<close>, \<open>Startup\<close>: the flag package of Go with booleans and durations; cmd/main.go, \<open>Main\<close> and
    \<open>Serve\<close> of internal/csinode/driver.go, the constructor of the KubeVirt client and \<open>SetupWithManager\<close>, and
    that the pod the syncer deploys starts the node plugin where the kubelet is told to find it.
  \<^item> \<open>Examples\<close>: the concrete inputs of the witnesses.

  \<^bold>\<open>What is shown.\<close>  Safety: a pass deletes only its tenant's objects, writes only under the tenant's
  labels and never over a foreign object, releases a finalizer only after a prune without errors,
  plugs in only what is ready, and unplugs before it deletes; the finalizer of a TenantCluster goes
  only after everything listed is torn down.  Functional correctness of every mapping; the desired
  state is closed under the backends it routes to; the refinements of \<open>HostSync\<close> and \<open>TeardownSync\<close>,
  and of several tenants that none touches an object of another; the round trip between what is
  sent to KubeVirt and what is read back; that a staging request returns, and that every tenant
  is looked at again.  Some theorems show behaviour the code does not mean to have:
  \<open>service_holders_exact\<close>, \<open>failing_mapper_skips_gateways\<close>, \<open>attach_trusts_guest_handle\<close>.

  \<^bold>\<open>Bounds.\<close>  Every function of the model is total.  Only the wait for a device is a loop that
  ends by the clock rather than by its data; it has fuel, and \<open>waitForDevice_32\<close> shows that 32 rounds suffice for
  its 30 seconds whenever a round takes its second, so that more fuel changes nothing.

  \<^bold>\<open>Not modelled.\<close>  Generated deep copies and the registration of the API types (values are immutable
  here, a deep copy is the identity); what third-party constructors, the gRPC server, the manager's work
  queue and the mount library do, whose answers are parameters; the texts of usage messages and of log
  lines; the mutex of the client cache, since one reconciliation is modelled at a time; charts, RBAC
  and build files.
\<close>

end
